(* ===== verification/Prelude.thy ===== *)
theory Prelude
  imports Main "HOL-Library.AList" "HOL-Library.Multiset"
begin

text \<open>
  Shared vocabulary of the development: Go's instants and durations, the wrap-around of
  its 64-bit integers, association lists for Go maps that the code ranges over, and the
  generic lemmas and fact collections the component theories use.

  \<^item> A \<open>time.Time\<close> is an \<open>int\<close>: nanoseconds since Go's zero instant, so
    \<open>time.Time{}\<close> is \<open>0\<close> and \<open>t.IsZero()\<close> is \<open>t = 0\<close>.
  \<^item> A \<open>time.Duration\<close> is an \<open>int\<close> number of nanoseconds; where the code shifts
    one, the result goes through \<^verbatim>\<open>wrap64\<close>.
  \<^item> A Go map the code iterates over is an association list read with \<^verbatim>\<open>map_of\<close> and
    written with \<^verbatim>\<open>AList.update\<close> and \<^verbatim>\<open>AList.delete\<close>; the list order stands for the
    unspecified iteration order.
\<close>

named_theorems frame_simps "what an operation leaves unchanged"
named_theorems wf_intros "operations preserve their component's invariant"

section \<open>Time and machine integers\<close>

type_synonym instant = int
type_synonym duration = int

abbreviation zero_time :: instant where
  "zero_time \<equiv> 0"

definition second :: duration where
  "second = 1000000000"

text \<open>Two's complement reading of a value at 64 bits.\<close>

definition wrap64 :: "int \<Rightarrow> int" where
  "wrap64 x = (x + 2 ^ 63) mod 2 ^ 64 - 2 ^ 63"

text \<open>Go's \<open>x << k\<close> on an \<open>int64\<close>.\<close>

definition shl64 :: "int \<Rightarrow> nat \<Rightarrow> int" where
  "shl64 x k = wrap64 (x * 2 ^ k)"

lemma wrap64_id: "- (2 ^ 63) \<le> x \<Longrightarrow> x < 2 ^ 63 \<Longrightarrow> wrap64 x = x"
  by (simp add: wrap64_def)

lemma wrap64_range: "- (2 ^ 63) \<le> wrap64 x \<and> wrap64 x < 2 ^ 63"
proof -
  have "0 \<le> (x + 2 ^ 63) mod (2 ^ 64 :: int)" and "(x + 2 ^ 63) mod 2 ^ 64 < (2 ^ 64 :: int)"
    by (rule pos_mod_sign, simp, rule pos_mod_bound, simp)
  then show ?thesis by (simp add: wrap64_def)
qed

lemma shl64_id: "0 \<le> x \<Longrightarrow> x * 2 ^ k < 2 ^ 63 \<Longrightarrow> shl64 x k = x * 2 ^ k"
  unfolding shl64_def by (rule wrap64_id) (auto intro: order_trans[of _ 0])

section \<open>Association lists as Go maps\<close>

text \<open>How many entries satisfy a predicate: the code keeps such counts incrementally.\<close>

definition count_entries :: "('v \<Rightarrow> bool) \<Rightarrow> ('k \<times> 'v) list \<Rightarrow> nat" where
  "count_entries P m = length (filter (\<lambda>kv. P (snd kv)) m)"

lemma count_entries_Nil [simp]: "count_entries P [] = 0"
  by (simp add: count_entries_def)

lemma count_entries_Cons [simp]:
  "count_entries P (kv # m) = (if P (snd kv) then 1 else 0) + count_entries P m"
  by (simp add: count_entries_def)

lemma count_entries_append [simp]:
  "count_entries P (m @ m') = count_entries P m + count_entries P m'"
  by (simp add: count_entries_def)

lemma AList_update_fresh: "map_of m k = None \<Longrightarrow> AList.update k v m = m @ [(k, v)]"
  by (induction m) (auto split: if_splits)

lemma AList_keys_update [simp]:
  "fst ` set (AList.update k v m) = insert k (fst ` set m)"
  by (simp add: dom_update)

lemma count_entries_fresh:
  "map_of m k = None \<Longrightarrow>
     count_entries P (AList.update k v m) = (if P v then 1 else 0) + count_entries P m"
  by (simp add: AList_update_fresh)

lemma count_entries_update:
  "map_of m k = Some v \<Longrightarrow>
     count_entries P (AList.update k v' m) + (if P v then 1 else 0)
       = count_entries P m + (if P v' then 1 else 0)"
  by (induction m) (auto split: if_splits)

lemma count_entries_delete:
  "distinct (map fst m) \<Longrightarrow> map_of m k = Some v \<Longrightarrow>
     count_entries P (AList.delete k m) + (if P v then 1 else 0) = count_entries P m"
proof (induction m)
  case Nil
  then show ?case by simp
next
  case (Cons kv m)
  obtain k' v' where kv: "kv = (k', v')" by (cases kv)
  show ?case
  proof (cases "k' = k")
    case True
    with Cons.prems kv have "k \<notin> fst ` set m" by simp
    then have "AList.delete k m = m"
      by (simp add: delete_idem)
    with True Cons.prems kv show ?thesis by simp
  next
    case False
    with Cons kv show ?thesis by (simp add: delete_simps)
  qed
qed

lemma count_entries_pos: "map_of m k = Some v \<Longrightarrow> P v \<Longrightarrow> 0 < count_entries P m"
  by (induction m) (auto split: if_splits)

lemma count_entries_zero: "count_entries P m = 0 \<longleftrightarrow> (\<forall>kv \<in> set m. \<not> P (snd kv))"
  by (auto simp: count_entries_def filter_empty_conv)

section \<open>Rotation arithmetic\<close>

text \<open>
  A window of \<open>n\<close> consecutive cursor values, taken modulo \<open>n\<close>, visits every index
  below \<open>n\<close> exactly once, whatever the starting point.
\<close>

lemma mod_window_inj: "0 < n \<Longrightarrow> inj_on (\<lambda>j. (s + j) mod n) {0..<n :: nat}"
proof (rule inj_onI)
  fix i j
  assume n: "0 < n" and i: "i \<in> {0..<n}" and j: "j \<in> {0..<n}"
    and eq: "(s + i) mod n = (s + j) mod n"
  show "i = j"
  proof (cases i j rule: linorder_le_cases)
    case le
    with eq have "n dvd (s + j) - (s + i)" by (metis add_le_cancel_left mod_eq_dvd_iff_nat)
    with le j show ?thesis by (auto dest: dvd_imp_le)
  next
    case ge
    with eq have "n dvd (s + i) - (s + j)" by (metis add_le_cancel_left mod_eq_dvd_iff_nat)
    with ge i show ?thesis by (auto dest: dvd_imp_le)
  qed
qed

lemma mod_window_mset:
  assumes "0 < n"
  shows "mset (map (\<lambda>j. (s + j) mod n) [0..<n]) = mset [0..<n :: nat]"
proof -
  have inj: "inj_on (\<lambda>j. (s + j) mod n) {0..<n}"
    using assms by (rule mod_window_inj)
  have "(\<lambda>j. (s + j) mod n) ` {0..<n} \<subseteq> {0..<n}" using assms by auto
  with inj have "(\<lambda>j. (s + j) mod n) ` {0..<n} = {0..<n}"
    by (intro endo_inj_surj) auto
  with inj show ?thesis
    by (intro set_eq_iff_mset_eq_distinct[THEN iffD1]) (auto simp: distinct_map)
qed

end
