(* ===== verification/Go_Strings.thy ===== *)
theory Go_Strings
  imports Prelude
begin

text \<open>
  The part of Go's \<open>strings\<close>, \<open>unicode/utf8\<close> and \<open>net/textproto\<close> packages that the code
  uses. A Go string is its bytes: a \<^typ>\<open>string\<close> here is a list of bytes, and a rune of the
  source is the byte sequence that encodes it. None of these definitions model a line of
  the repository; they are the standard library's documented behaviour on bytes.
\<close>

section \<open>Bytes\<close>

abbreviation byte :: "char \<Rightarrow> nat" where
  "byte c \<equiv> of_char c"

definition is_upper :: "char \<Rightarrow> bool" where
  "is_upper c \<longleftrightarrow> 65 \<le> byte c \<and> byte c \<le> 90"

definition is_lower :: "char \<Rightarrow> bool" where
  "is_lower c \<longleftrightarrow> 97 \<le> byte c \<and> byte c \<le> 122"

definition is_digit :: "char \<Rightarrow> bool" where
  "is_digit c \<longleftrightarrow> 48 \<le> byte c \<and> byte c \<le> 57"

definition lower_byte :: "char \<Rightarrow> char" where
  "lower_byte c = (if is_upper c then char_of (byte c + 32) else c)"

definition upper_byte :: "char \<Rightarrow> char" where
  "upper_byte c = (if is_lower c then char_of (byte c - 32) else c)"

text \<open>A byte is a control when it is below \<open>0x20\<close> or DEL.\<close>

definition is_control :: "char \<Rightarrow> bool" where
  "is_control c \<longleftrightarrow> byte c < 32 \<or> byte c = 127"

section \<open>Searching and cutting\<close>

definition has_prefix :: "string \<Rightarrow> string \<Rightarrow> bool" where
  "has_prefix p s \<longleftrightarrow> take (length p) s = p"

definition has_suffix :: "string \<Rightarrow> string \<Rightarrow> bool" where
  "has_suffix p s \<longleftrightarrow> has_prefix (rev p) (rev s)"

text \<open>\<open>strings.Index\<close>, with \<^const>\<open>None\<close> for \<open>-1\<close>.\<close>

fun index_of :: "string \<Rightarrow> string \<Rightarrow> nat option" where
  "index_of p [] = (if p = [] then Some 0 else None)"
| "index_of p (c # s) =
     (if has_prefix p (c # s) then Some 0 else map_option Suc (index_of p s))"

definition contains :: "string \<Rightarrow> string \<Rightarrow> bool" where
  "contains s p \<longleftrightarrow> index_of p s \<noteq> None"

text \<open>\<open>strings.LastIndexByte\<close>.\<close>

fun last_index_byte :: "string \<Rightarrow> char \<Rightarrow> nat option" where
  "last_index_byte [] c = None"
| "last_index_byte (d # s) c =
     (case last_index_byte s c of
        Some i \<Rightarrow> Some (Suc i)
      | None \<Rightarrow> if d = c then Some 0 else None)"

text \<open>The part of \<open>strings.Cut(s, sep)\<close> before a one-byte separator.\<close>

definition cut_before :: "char \<Rightarrow> string \<Rightarrow> string" where
  "cut_before c s = takeWhile (\<lambda>d. d \<noteq> c) s"

definition trim_prefix :: "string \<Rightarrow> string \<Rightarrow> string" where
  "trim_prefix p s = (if has_prefix p s then drop (length p) s else s)"

text \<open>\<open>strings.TrimRight(s, cutset)\<close> for a one-byte cutset.\<close>

definition trim_right_byte :: "char \<Rightarrow> string \<Rightarrow> string" where
  "trim_right_byte c s = rev (dropWhile (\<lambda>d. d = c) (rev s))"

text \<open>\<open>strings.Split(s, sep)\<close> for a one-byte separator: never empty.\<close>

fun split_byte :: "char \<Rightarrow> string \<Rightarrow> string list" where
  "split_byte c [] = [[]]"
| "split_byte c (d # s) =
     (if d = c then [] # split_byte c s
      else (case split_byte c s of [] \<Rightarrow> [[d]] | w # ws \<Rightarrow> (d # w) # ws))"

section \<open>Trimming white space\<close>

text \<open>
  The UTF-8 encodings of the runes \<open>unicode.IsSpace\<close> accepts. UTF-8 synchronises itself,
  so a string starts (ends) with one of these runes exactly when it starts (ends) with
  the bytes of its encoding.
\<close>

definition go_spaces :: "string list" where
  "go_spaces =
     [[CHR 0x09], [CHR 0x0A], [CHR 0x0B], [CHR 0x0C], [CHR 0x0D], [CHR 0x20],
      [CHR 0xC2, CHR 0x85], [CHR 0xC2, CHR 0xA0], [CHR 0xE1, CHR 0x9A, CHR 0x80],
      [CHR 0xE2, CHR 0x80, CHR 0x80], [CHR 0xE2, CHR 0x80, CHR 0x81],
      [CHR 0xE2, CHR 0x80, CHR 0x82], [CHR 0xE2, CHR 0x80, CHR 0x83],
      [CHR 0xE2, CHR 0x80, CHR 0x84], [CHR 0xE2, CHR 0x80, CHR 0x85],
      [CHR 0xE2, CHR 0x80, CHR 0x86], [CHR 0xE2, CHR 0x80, CHR 0x87],
      [CHR 0xE2, CHR 0x80, CHR 0x88], [CHR 0xE2, CHR 0x80, CHR 0x89],
      [CHR 0xE2, CHR 0x80, CHR 0x8A], [CHR 0xE2, CHR 0x80, CHR 0xA8],
      [CHR 0xE2, CHR 0x80, CHR 0xA9], [CHR 0xE2, CHR 0x80, CHR 0xAF],
      [CHR 0xE2, CHR 0x81, CHR 0x9F], [CHR 0xE3, CHR 0x80, CHR 0x80]]"

text \<open>Drop words of a set from the front for as long as one matches.\<close>

function strip_words :: "string list \<Rightarrow> string \<Rightarrow> string" where
  "strip_words ws s =
     (case List.find (\<lambda>w. w \<noteq> [] \<and> has_prefix w s) ws of
        None \<Rightarrow> s
      | Some w \<Rightarrow> strip_words ws (drop (length w) s))"
  by pat_completeness auto
termination
proof (relation "measure (\<lambda>(ws, s). length s)")
  fix ws s w
  assume "List.find (\<lambda>w. w \<noteq> [] \<and> has_prefix w s) ws = Some w"
  then have "w \<noteq> []" and "has_prefix w s" by (auto simp: find_Some_iff)
  then have "length (drop (length w) s) < length s"
    by (cases s) (auto simp: has_prefix_def)
  then show "((ws, drop (length w) s), ws, s) \<in> measure (\<lambda>(ws, s). length s)" by simp
qed simp

declare strip_words.simps [simp del]

definition trim_space :: "string \<Rightarrow> string" where
  "trim_space s =
     rev (strip_words (map rev go_spaces) (rev (strip_words go_spaces s)))"

lemma strip_words_length: "length (strip_words ws s) \<le> length s"
proof (induction ws s rule: strip_words.induct)
  case (1 ws s)
  show ?case
  proof (cases "List.find (\<lambda>w. w \<noteq> [] \<and> has_prefix w s) ws")
    case None
    then show ?thesis by (simp add: strip_words.simps [of ws s])
  next
    case (Some w)
    from "1.IH" [OF Some] have "length (strip_words ws (drop (length w) s)) \<le> length s"
      by simp
    with Some show ?thesis by (simp add: strip_words.simps [of ws s])
  qed
qed

lemma strip_words_unmatched:
  "List.find (\<lambda>w. w \<noteq> [] \<and> has_prefix w (strip_words ws s)) ws = None"
proof (induction ws s rule: strip_words.induct)
  case (1 ws s)
  show ?case
  proof (cases "List.find (\<lambda>w. w \<noteq> [] \<and> has_prefix w s) ws")
    case None
    then show ?thesis by (simp add: strip_words.simps [of ws s])
  next
    case (Some w)
    with "1.IH" [OF Some] show ?thesis by (simp add: strip_words.simps [of ws s])
  qed
qed

lemma trim_space_length: "length (trim_space s) \<le> length s"
  unfolding trim_space_def by (metis length_rev strip_words_length le_trans)

section \<open>Case mapping\<close>

text \<open>
  \<open>strings.ToLower\<close> on bytes. ASCII letters are mapped; of the other runes exactly two
  have an ASCII image, U+0130 (bytes C4 B0, to \<open>i\<close>) and the Kelvin sign U+212A (bytes
  E2 84 AA, to \<open>k\<close>), and both are mapped. The remaining letters outside ASCII are mapped
  by Go to letters outside ASCII and are left alone here: every use in the code compares
  the result with ASCII words or replaces what is not an ASCII letter or digit.
\<close>

fun go_to_lower :: "string \<Rightarrow> string" where
  "go_to_lower [] = []"
| "go_to_lower (c # s) =
     (if byte c = 196 \<and> take 1 s = [CHR 0xB0] then CHR ''i'' # go_to_lower (drop 1 s)
      else if byte c = 226 \<and> take 2 s = [CHR 0x84, CHR 0xAA]
        then CHR ''k'' # go_to_lower (drop 2 s)
      else lower_byte c # go_to_lower s)"

section \<open>Runes\<close>

text \<open>
  \<open>for _, r := range s\<close>: the rune encodings of a string, in order. A byte that does not
  start a well-formed encoding is one rune of width one, U+FFFD, which is written back as
  EF BF BD.
\<close>

definition is_cont :: "char \<Rightarrow> bool" where
  "is_cont c \<longleftrightarrow> 128 \<le> byte c \<and> byte c \<le> 191"

definition second_byte_ok :: "nat \<Rightarrow> char \<Rightarrow> bool" where
  "second_byte_ok b c \<longleftrightarrow>
     (if b = 224 then 160 \<le> byte c \<and> byte c \<le> 191
      else if b = 237 then 128 \<le> byte c \<and> byte c \<le> 159
      else if b = 240 then 144 \<le> byte c \<and> byte c \<le> 191
      else if b = 244 then 128 \<le> byte c \<and> byte c \<le> 143
      else is_cont c)"

definition rune_error :: string where
  "rune_error = [CHR 0xEF, CHR 0xBF, CHR 0xBD]"

text \<open>The width of the encoding at the front of a non-empty string, \<open>0\<close> when ill-formed.\<close>

definition rune_width :: "string \<Rightarrow> nat" where
  "rune_width s =
     (case s of [] \<Rightarrow> 0
      | c # t \<Rightarrow>
          let b = byte c in
          if b < 128 then 1
          else if 194 \<le> b \<and> b \<le> 223 then
            (case t of d # _ \<Rightarrow> if is_cont d then 2 else 0 | _ \<Rightarrow> 0)
          else if 224 \<le> b \<and> b \<le> 239 then
            (case t of d # e # _ \<Rightarrow> if second_byte_ok b d \<and> is_cont e then 3 else 0 | _ \<Rightarrow> 0)
          else if 240 \<le> b \<and> b \<le> 244 then
            (case t of d # e # f # _ \<Rightarrow>
               if second_byte_ok b d \<and> is_cont e \<and> is_cont f then 4 else 0 | _ \<Rightarrow> 0)
          else 0)"

function runes :: "string \<Rightarrow> string list" where
  "runes s =
     (if s = [] then []
      else if rune_width s = 0 then rune_error # runes (drop 1 s)
      else take (rune_width s) s # runes (drop (rune_width s) s))"
  by pat_completeness auto
termination
  by (relation "measure length") auto

declare runes.simps [simp del]

lemma runes_Nil [simp]: "runes [] = []"
  by (simp add: runes.simps)

lemma runes_ascii [simp]: "byte c < 128 \<Longrightarrow> runes (c # s) = [c] # runes s"
  by (simp add: runes.simps [of "c # s"] rune_width_def)

text \<open>\<open>utf8.RuneCountInString\<close>.\<close>

definition rune_count :: "string \<Rightarrow> nat" where
  "rune_count s = length (runes s)"

section \<open>Header names\<close>

text \<open>\<open>http.CanonicalHeaderKey\<close>: a name with a byte outside the token set is unchanged.\<close>

definition header_byte :: "char \<Rightarrow> bool" where
  "header_byte c \<longleftrightarrow>
     is_upper c \<or> is_lower c \<or> is_digit c \<or> c \<in> set ''!#$%&*+-.^_|~'' \<or> byte c = 39 \<or> byte c = 96"

fun canonical_bytes :: "bool \<Rightarrow> string \<Rightarrow> string" where
  "canonical_bytes up [] = []"
| "canonical_bytes up (c # s) =
     (if up then upper_byte c else lower_byte c) # canonical_bytes (c = CHR ''-'') s"

definition canonical_header_key :: "string \<Rightarrow> string" where
  "canonical_header_key s = (if list_all header_byte s then canonical_bytes True s else s)"

end
