(* ===== verification/Sanitize.thy ===== *)
theory Sanitize
  imports Go_Strings
begin

text \<open>
  \<open>internal/sanitize/sanitize.go\<close>: the redaction every diagnostic passes before it
  reaches \<open>/stats\<close>, an error body or a log line. Every stage is a function on byte
  strings; the six regular expressions are terms of a small expression type with the
  leftmost-first matching of Go's \<open>regexp\<close> package.
\<close>

section \<open>Regular expressions\<close>

text \<open>
  The expressions the file compiles: byte classes, the ASCII word boundary, sequence,
  preferred alternative, greedy repetition and numbered groups. \<open>[^\<dots>]\<close> classes contain
  every byte of every rune outside ASCII, so matching bytes and matching runes agree on
  these patterns.
\<close>

datatype regex =
    Cls "char \<Rightarrow> bool"
  | WordB
  | Seq regex regex
  | Alt regex regex
  | Many regex
  | Grp nat regex

definition Lit :: "char \<Rightarrow> regex" where
  "Lit c = Cls (\<lambda>d. d = c)"

fun Word :: "string \<Rightarrow> regex \<Rightarrow> regex" where
  "Word [] r = r"
| "Word (c # s) r = Seq (Lit c) (Word s r)"

definition Many1 :: "regex \<Rightarrow> regex" where
  "Many1 r = Seq r (Many r)"

definition word_byte :: "char \<Rightarrow> bool" where
  "word_byte c \<longleftrightarrow> is_upper c \<or> is_lower c \<or> is_digit c \<or> c = CHR ''_''"

definition at_boundary :: "char option \<Rightarrow> string \<Rightarrow> bool" where
  "at_boundary p s \<longleftrightarrow>
     (case p of None \<Rightarrow> False | Some c \<Rightarrow> word_byte c)
       \<noteq> (case s of [] \<Rightarrow> False | c # _ \<Rightarrow> word_byte c)"

type_synonym captures = "(nat \<times> string) list"
type_synonym position = "char option \<times> string"

text \<open>
  All matches of an expression at a position, best first: the byte before the rest, the
  rest, and the groups captured so far.
\<close>

function matches :: "regex \<Rightarrow> position \<times> captures \<Rightarrow> (position \<times> captures) list" where
  "matches (Cls P) ((p, s), g) =
     (case s of [] \<Rightarrow> [] | c # t \<Rightarrow> if P c then [((Some c, t), g)] else [])"
| "matches WordB ((p, s), g) = (if at_boundary p s then [((p, s), g)] else [])"
| "matches (Seq r1 r2) x = concat (map (matches r2) (matches r1 x))"
| "matches (Alt r1 r2) x = matches r1 x @ matches r2 x"
| "matches (Many r) x =
     concat (map (\<lambda>y. if length (snd (fst y)) < length (snd (fst x))
                      then matches (Many r) y else []) (matches r x)) @ [x]"
| "matches (Grp i r) x =
     map (\<lambda>y. (fst y, (i, take (length (snd (fst x)) - length (snd (fst y))) (snd (fst x)))
                        # snd y)) (matches r x)"
  by pat_completeness auto
termination
  by (relation "measures [\<lambda>(r, x). size r, \<lambda>(r, x). length (snd (fst x))]") auto

text \<open>\<open>ReplaceAllString\<close> for an expression that never matches the empty string.\<close>

function replace_all :: "regex \<Rightarrow> (captures \<Rightarrow> string) \<Rightarrow> char option \<Rightarrow> string \<Rightarrow> string" where
  "replace_all r f p s =
     (case s of [] \<Rightarrow> []
      | c # t \<Rightarrow>
         (case matches r ((p, s), []) of
            [] \<Rightarrow> c # replace_all r f (Some c) t
          | ((p', s'), g) # _ \<Rightarrow>
              if length s' < length s then f g @ replace_all r f p' s'
              else c # replace_all r f (Some c) t))"
  by pat_completeness auto
termination
  by (relation "measure (\<lambda>(r, f, p, s). length s)") auto

declare replace_all.simps [simp del]

definition group :: "captures \<Rightarrow> nat \<Rightarrow> string" where
  "group g i = (case map_of g i of Some w \<Rightarrow> w | None \<Rightarrow> [])"

section \<open>The redacted diagnostics\<close>

definition re_space :: "char \<Rightarrow> bool" where
  "re_space c \<longleftrightarrow> byte c \<in> {9, 10, 12, 13, 32}"

text \<open>\<open>(\[[^]]+\]|[^\s:]+)\<close>, a host: group \<open>i\<close>.\<close>

definition re_host :: "nat \<Rightarrow> regex" where
  "re_host i =
     Grp i (Alt (Seq (Lit (CHR ''[''))
                  (Seq (Many1 (Cls (\<lambda>c. c \<noteq> CHR '']''))) (Lit (CHR '']''))))
                (Many1 (Cls (\<lambda>c. \<not> re_space c \<and> c \<noteq> CHR '':''))))"

definition re_port :: "nat \<Rightarrow> regex" where
  "re_port i = Grp i (Many1 (Cls is_digit))"

definition re_op :: "nat \<Rightarrow> regex" where
  "re_op i = Grp i (Many1 (Cls is_lower))"

definition dialTCPAddress :: regex where
  "dialTCPAddress =
     Seq WordB (Word ''dial tcp '' (Seq (re_host 1) (Seq (Lit (CHR '':'')) (re_port 2))))"

definition lookupName :: regex where
  "lookupName =
     Seq WordB (Word ''lookup ''
       (Seq (Grp 1 (Many1 (Cls (\<lambda>c. \<not> re_space c \<and> c \<noteq> CHR '':''))))
            (Grp 2 (Alt (Lit (CHR '':''))
                        (Seq (Many1 (Cls re_space)) (Word ''on'' (Cls re_space)))))))"

definition lookupServer :: regex where
  "lookupServer =
     Seq WordB (Word ''on ''
       (Seq (re_host 1) (Seq (Lit (CHR '':'')) (Seq (re_port 2) (Lit (CHR '':''))))))"

definition connectTo :: regex where
  "connectTo =
     Seq WordB (Word ''connect: ''
       (Seq (Grp 1 (Seq (Many1 (Cls (\<lambda>c. \<not> re_space c)))
                        (Many (Seq (Lit (CHR '' '')) (Many1 (Cls (\<lambda>c. \<not> re_space c)))))))
            (Word '' to '' (Seq (re_host 2) (Seq (Lit (CHR '':'')) (re_port 3))))))"

definition connIODirected :: regex where
  "connIODirected =
     Seq WordB (Seq (re_op 1) (Word '' tcp ''
       (Seq (re_host 2) (Seq (Lit (CHR '':'')) (Seq (re_port 3) (Word ''->''
         (Seq (re_host 4) (Seq (Lit (CHR '':'')) (re_port 5)))))))))"

definition connIOSingle :: regex where
  "connIOSingle =
     Seq WordB (Seq (re_op 1) (Word '' tcp ''
       (Seq (re_host 2) (Seq (Lit (CHR '':'')) (re_port 3)))))"

definition redactDialAddresses :: "string \<Rightarrow> string" where
  "redactDialAddresses v0 =
    (let v1 = replace_all dialTCPAddress (\<lambda>g. ''dial tcp [redacted]:'' @ group g 2) None v0;
         v2 = replace_all lookupName (\<lambda>g. ''lookup [redacted]'' @ group g 2) None v1;
         v3 = replace_all lookupServer (\<lambda>g. ''on [redacted]:'' @ group g 2 @ '':'') None v2;
         v4 = replace_all connIODirected
                (\<lambda>g. group g 1 @ '' tcp [redacted]:'' @ group g 3 @ ''->[redacted]:'' @ group g 5)
                None v3;
         v5 = replace_all connIOSingle
                (\<lambda>g. group g 1 @ '' tcp [redacted]:'' @ group g 3) None v4
     in replace_all connectTo
          (\<lambda>g. ''connect: '' @ group g 1 @ '' to [redacted]:'' @ group g 3) None v5)"

section \<open>URL userinfo and quoted URLs\<close>

definition redacted :: string where
  "redacted = ''[redacted]@''"

definition ends_token :: "char \<Rightarrow> bool" where
  "ends_token c \<longleftrightarrow>
     byte c \<le> 32 \<or> byte c = 127 \<or> c \<in> {CHR ''\"'', CHR ''<'', CHR ''>''} \<or> byte c = 39 \<or> byte c = 96"

text \<open>\<open>value[from:tokenEndIndex(value, from)]\<close> and the text from the token's end.\<close>

definition url_token :: "string \<Rightarrow> string" where
  "url_token s = takeWhile (\<lambda>c. \<not> ends_token c) s"

definition after_token :: "string \<Rightarrow> string" where
  "after_token s = dropWhile (\<lambda>c. \<not> ends_token c) s"

text \<open>
  The loop of \<open>redactUserinfo\<close>, on the text from \<open>searchFrom\<close>; what lies before
  \<open>searchFrom\<close> is never read again.
\<close>

function redactUserinfo :: "string \<Rightarrow> string" where
  "redactUserinfo v =
     (case index_of ''://'' v of
        None \<Rightarrow> v
      | Some idx \<Rightarrow>
          let start = idx + 3;
              token = url_token (drop start v);
              rest = after_token (drop start v) in
          (case last_index_byte token (CHR ''@'') of
             None \<Rightarrow> take start v @ token @ redactUserinfo rest
           | Some at \<Rightarrow> take start v @ redacted @ redactUserinfo (drop (Suc at) token @ rest)))"
  by pat_completeness auto
termination
proof (relation "measure length")
  fix v idx start token rest
  assume idx: "index_of ''://'' v = Some idx" and start: "start = idx + 3"
    and rest: "rest = after_token (drop start v)"
  have "v \<noteq> []" using idx by auto
  moreover have "length rest \<le> length v - start"
    by (simp add: rest after_token_def length_dropWhile_le [THEN order_trans])
  ultimately show "(rest, v) \<in> measure length" using start by (cases v) auto
next
  fix v idx start token rest at
  assume idx: "index_of ''://'' v = Some idx" and start: "start = idx + 3"
    and token: "token = url_token (drop start v)" and rest: "rest = after_token (drop start v)"
  have "v \<noteq> []" using idx by auto
  moreover have "token @ rest = drop start v"
    by (simp add: token rest url_token_def after_token_def)
  then have "length token + length rest = length v - start"
    by (metis length_append length_drop)
  ultimately show "(drop (Suc at) token @ rest, v) \<in> measure length"
    using start by (cases v) auto
qed simp

declare redactUserinfo.simps [simp del]

text \<open>The index of the quote that closes a token, past \<open>%q\<close>-style escapes.\<close>

fun quotedTokenEnd :: "string \<Rightarrow> nat option" where
  "quotedTokenEnd [] = None"
| "quotedTokenEnd (c # s) =
     (if byte c = 92 then (case s of [] \<Rightarrow> None | _ # t \<Rightarrow> map_option (\<lambda>n. n + 2) (quotedTokenEnd t))
      else if c = CHR ''\"'' then Some 0
      else map_option Suc (quotedTokenEnd s))"

definition ellipsis :: string where
  "ellipsis = [CHR 0xE2, CHR 0x80, CHR 0xA6]"

definition quoted_mark :: string where
  "quoted_mark = CHR ''\"'' # ellipsis @ ''\"''"

text \<open>The loop of \<open>stripQuotedURLs\<close>, on the text from \<open>i\<close>.\<close>

function stripQuotedURLs :: "string \<Rightarrow> string" where
  "stripQuotedURLs [] = []"
| "stripQuotedURLs (c # s) =
     (if c \<noteq> CHR ''\"'' then c # stripQuotedURLs s
      else case quotedTokenEnd s of
        None \<Rightarrow> if contains (c # s) ''://'' then quoted_mark else c # s
      | Some n \<Rightarrow>
          if contains (c # take (Suc n) s) ''://'' then quoted_mark @ stripQuotedURLs (drop (Suc n) s)
          else c # take (Suc n) s @ stripQuotedURLs (drop (Suc n) s))"
  by pat_completeness auto
termination
  by (relation "measure length") auto

section \<open>Controls and length\<close>

abbreviation ESC :: char where
  "ESC \<equiv> CHR 0x1B"

fun drop_csi :: "string \<Rightarrow> string" where
  "drop_csi [] = []"
| "drop_csi (c # s) = (if 64 \<le> byte c \<and> byte c \<le> 126 then s else drop_csi s)"

fun drop_osc :: "string \<Rightarrow> string" where
  "drop_osc [] = []"
| "drop_osc (c # s) =
     (if byte c = 7 then s
      else if c = ESC \<and> (case s of d # _ \<Rightarrow> byte d = 92 | [] \<Rightarrow> False) then drop 1 s
      else drop_osc s)"

lemma drop_csi_length: "length (drop_csi s) \<le> length s"
  by (induction s) auto

lemma drop_osc_length: "length (drop_osc s) \<le> length s"
  by (induction s) auto

function stripANSI :: "string \<Rightarrow> string" where
  "stripANSI [] = []"
| "stripANSI (c # s) =
     (if c \<noteq> ESC then c # stripANSI s
      else case s of
        [] \<Rightarrow> []
      | d # t \<Rightarrow>
          if d = CHR ''['' then stripANSI (drop_csi t)
          else if d = CHR '']'' then stripANSI (drop_osc t)
          else if d = CHR ''('' \<or> d = CHR '')'' \<or> d = CHR ''#'' then stripANSI (drop 1 t)
          else stripANSI t)"
  by pat_completeness auto
termination
  by (relation "measure length")
     (auto simp: less_Suc_eq_le le_SucI [OF drop_csi_length] le_SucI [OF drop_osc_length])

definition clean_rune :: "string \<Rightarrow> string" where
  "clean_rune r =
     (case r of
        [c] \<Rightarrow> if byte c = 10 \<or> byte c = 13 \<or> byte c = 9 then '' ''
               else if c = ESC then []
               else if is_control c then []
               else r
      | _ \<Rightarrow> r)"

definition cleanControls :: "string \<Rightarrow> string" where
  "cleanControls v = concat (map clean_rune (runes (stripANSI v)))"

definition MaxLength :: nat where
  "MaxLength = 512"

definition bound :: "string \<Rightarrow> string" where
  "bound v = (if rune_count v \<le> MaxLength then v
              else concat (take MaxLength (runes v)) @ ellipsis)"

section \<open>Sanitize\<close>

definition needsSanitizing :: "string \<Rightarrow> bool" where
  "needsSanitizing s \<longleftrightarrow>
     length s > MaxLength \<or> list_ex is_control s
     \<or> contains s ''://'' \<or> contains s ''dial '' \<or> contains s ''lookup ''
     \<or> contains s ''connect: '' \<or> contains s '' tcp ''"

definition full_pass :: "string \<Rightarrow> string" where
  "full_pass s = bound (cleanControls (redactDialAddresses (stripQuotedURLs (redactUserinfo s))))"

definition sanitize :: "string \<Rightarrow> string" where
  "sanitize s = (if \<not> needsSanitizing s then s else full_pass s)"

text \<open>An error is the text its \<open>Error()\<close> returns; \<^const>\<open>None\<close> is a nil error.\<close>

definition ErrorString :: "string option \<Rightarrow> string" where
  "ErrorString err = (case err of None \<Rightarrow> [] | Some e \<Rightarrow> sanitize e)"

end
