(* ===== verification/Sha256.thy ===== *)
theory Sha256
  imports Go_Strings "HOL-Library.Word"
begin

text \<open>
  \<open>crypto/sha256\<close> and \<open>encoding/hex\<close> of Go's standard library, which fingerprint scope
  pins, relay keys and file contents: FIPS 180-4 on byte strings, with 32-bit words.
\<close>

unbundle bit_operations_syntax

type_synonym u32 = "32 word"

text \<open>
  The standard's constants are computed as it defines them: the first 32 bits of the
  fractional parts of the cube roots of the first 64 primes, and of the square roots of the
  first eight. \<open>root_bits e n b 0\<close> is the integer \<open>e\<close>-th root of \<open>n\<close>, by \<open>b\<close> binary digits.
\<close>

fun root_bits :: "nat \<Rightarrow> nat \<Rightarrow> nat \<Rightarrow> nat \<Rightarrow> nat" where
  "root_bits e n 0 acc = acc"
| "root_bits e n (Suc b) acc =
     root_bits e n b (if (acc + 2 ^ b) ^ e \<le> n then acc + 2 ^ b else acc)"

definition small_primes :: "nat list" where
  "small_primes = filter (\<lambda>n. list_all (\<lambda>d. n mod d \<noteq> 0) [2..<n]) [2..<312]"

definition sha_k :: "u32 list" where
  "sha_k = map (\<lambda>p. word_of_nat (root_bits 3 (p * 2 ^ 96) 35 0)) small_primes"

type_synonym sha_state = "u32 list"

definition sha_init :: sha_state where
  "sha_init = map (\<lambda>p. word_of_nat (root_bits 2 (p * 2 ^ 64) 35 0)) (take 8 small_primes)"

definition rotr :: "nat \<Rightarrow> u32 \<Rightarrow> u32" where
  "rotr n w = (drop_bit n w) OR (push_bit (32 - n) w)"

definition small_sigma0 :: "u32 \<Rightarrow> u32" where
  "small_sigma0 w = rotr 7 w XOR rotr 18 w XOR drop_bit 3 w"

definition small_sigma1 :: "u32 \<Rightarrow> u32" where
  "small_sigma1 w = rotr 17 w XOR rotr 19 w XOR drop_bit 10 w"

definition big_sigma0 :: "u32 \<Rightarrow> u32" where
  "big_sigma0 w = rotr 2 w XOR rotr 13 w XOR rotr 22 w"

definition big_sigma1 :: "u32 \<Rightarrow> u32" where
  "big_sigma1 w = rotr 6 w XOR rotr 11 w XOR rotr 25 w"

text \<open>The message schedule, latest word first.\<close>

fun extend_schedule :: "nat \<Rightarrow> u32 list \<Rightarrow> u32 list" where
  "extend_schedule 0 ws = ws"
| "extend_schedule (Suc n) ws =
     extend_schedule n
       ((small_sigma1 (ws ! 1) + ws ! 6 + small_sigma0 (ws ! 14) + ws ! 15) # ws)"

text \<open>One round, on the eight working variables.\<close>

definition sha_round :: "sha_state \<Rightarrow> u32 \<times> u32 \<Rightarrow> sha_state" where
  "sha_round v kw =
    (let (k, w) = kw; a = v ! 0; b = v ! 1; c = v ! 2; d = v ! 3;
         e = v ! 4; f = v ! 5; g = v ! 6; h = v ! 7;
         t1 = h + big_sigma1 e + ((e AND f) XOR ((NOT e) AND g)) + k + w;
         t2 = big_sigma0 a + ((a AND b) XOR (a AND c) XOR (b AND c))
     in [t1 + t2, a, b, c, d + t1, e, f, g])"

definition word_of_bytes :: "string \<Rightarrow> u32" where
  "word_of_bytes bs = foldl (\<lambda>w b. push_bit 8 w OR of_nat (byte b)) 0 bs"

fun chunks :: "nat \<Rightarrow> nat \<Rightarrow> 'a list \<Rightarrow> 'a list list" where
  "chunks 0 n xs = []"
| "chunks (Suc m) n xs = take n xs # chunks m n (drop n xs)"

definition sha_block :: "sha_state \<Rightarrow> string \<Rightarrow> sha_state" where
  "sha_block v block =
    (let ws = rev (extend_schedule 48 (rev (map word_of_bytes (chunks 16 4 block))))
     in map (\<lambda>(x, y). x + y) (zip v (foldl sha_round v (zip sha_k ws))))"

definition be_bytes :: "nat \<Rightarrow> nat \<Rightarrow> string" where
  "be_bytes n x = map (\<lambda>i. char_of (x div 256 ^ (n - 1 - i) mod 256)) [0..<n]"

definition sha_pad :: "string \<Rightarrow> string" where
  "sha_pad s = s @ [CHR 0x80] @ replicate ((119 - length s mod 64) mod 64) (char_of (0 :: nat))
                 @ be_bytes 8 (8 * length s)"

definition sha256 :: "string \<Rightarrow> string" where
  "sha256 s =
    (let p = sha_pad s
     in concat (map (\<lambda>w. be_bytes 4 (unat w))
          (foldl sha_block sha_init (chunks (length p div 64) 64 p))))"

definition hex_digit :: "nat \<Rightarrow> char" where
  "hex_digit n = ''0123456789abcdef'' ! n"

definition hex_encode :: "string \<Rightarrow> string" where
  "hex_encode bs = concat (map (\<lambda>b. [hex_digit (byte b div 16), hex_digit (byte b mod 16)]) bs)"

lemma hex_encode_length: "length (hex_encode bs) = 2 * length bs"
  by (induction bs) (auto simp: hex_encode_def)

lemma sha_block_length: "length v = 8 \<Longrightarrow> length (sha_block v b) = 8"
proof -
  assume v: "length v = 8"
  have "length (foldl sha_round v kws) = 8" for kws
    using v by (induction kws arbitrary: v) (auto simp: sha_round_def Let_def split: prod.split)
  with v show ?thesis by (simp add: sha_block_def Let_def)
qed

lemma sha_init_length: "length sha_init = 8"
proof -
  have "[2..<312] = [2..<20] @ [20..<312 :: nat]"
    using upt_add_eq_append [of 2 20 292] by simp
  then have "length (filter (\<lambda>n. list_all (\<lambda>d. n mod d \<noteq> 0) [2..<n]) [2..<20]) \<le> length small_primes"
    by (simp only: small_primes_def filter_append length_append le_add1)
  moreover have "length (filter (\<lambda>n. list_all (\<lambda>d. n mod d \<noteq> 0) [2..<n]) [2..<20::nat]) = 8"
    by code_simp
  ultimately show ?thesis by (simp add: sha_init_def)
qed

lemma sha256_length: "length (sha256 s) = 32"
proof -
  have "length (foldl sha_block v bs) = 8" if "length v = 8" for v bs
    using that by (induction bs arbitrary: v) (auto simp: sha_block_length)
  then have n: "length (foldl sha_block sha_init bs) = 8" for bs
    by (simp add: sha_init_length)
  have "length (concat (map (\<lambda>w. be_bytes 4 (unat w)) ws)) = 4 * length ws" for ws :: "u32 list"
    by (induction ws) (auto simp: be_bytes_def)
  with n show ?thesis by (simp add: sha256_def Let_def)
qed

end
