(* ===== verification/Pool_Runtime.thy ===== *)
theory Pool_Runtime
  imports Sanitize Sha256
begin

text \<open>
  \<open>internal/pool/runtime.go\<close>: the runtime health of an endpoint and the process-lifetime
  \<open>RuntimeState\<close> that outlives every serving generation.

  \<^item> \<open>*RelayState\<close> pointers are shared between pools, so the states live in an explicit
    store and a relay holds an address. A rebuild that attaches the same address sees
    what an older pool recorded.
  \<^item> The three atomic counters and the mutex-guarded fields are one record; each method
    is one step.
  \<^item> Two interfaces are stated as locales and interpreted here on the code's operations:
    the passive health of an endpoint, and the per-selector rotation cursor.
\<close>

section \<open>Runtime health of one endpoint\<close>

record runtime_key =
  rk_provider :: string
  rk_name :: string
  rk_scopeFP :: string
  rk_url :: string
  rk_tokenFP :: string

definition identity :: "runtime_key \<Rightarrow> string" where
  "identity k = rk_provider k @ ''/'' @ rk_name k"

text \<open>\<open>TokenFingerprint\<close>: 16 hexadecimal digits, of the first 8 bytes of the hash.\<close>

definition TokenFingerprint :: "string \<Rightarrow> string" where
  "TokenFingerprint token = hex_encode (take 8 (sha256 token))"

lemma TokenFingerprint_length: "length (TokenFingerprint token) = 16"
  by (simp add: TokenFingerprint_def hex_encode_length sha256_length)

record relay_state =
  rs_requests :: int
  rs_failures :: int
  rs_midstream :: int
  rs_consecFails :: int
  rs_downUntil :: instant
  rs_lastErr :: string

definition fresh_state :: relay_state where
  "fresh_state = \<lparr>rs_requests = 0, rs_failures = 0, rs_midstream = 0, rs_consecFails = 0,
                  rs_downUntil = zero_time, rs_lastErr = []\<rparr>"

definition healthy :: "relay_state \<Rightarrow> instant \<Rightarrow> bool" where
  "healthy rs now \<longleftrightarrow> rs_downUntil rs = zero_time \<or> rs_downUntil rs < now"

definition health :: "relay_state \<Rightarrow> instant \<Rightarrow> bool \<times> string" where
  "health rs now =
     (rs_downUntil rs = zero_time \<or> rs_downUntil rs < now, rs_lastErr rs)"

definition record_success :: "relay_state \<Rightarrow> relay_state" where
  "record_success rs = rs\<lparr>rs_consecFails := 0, rs_downUntil := zero_time, rs_lastErr := []\<rparr>"

text \<open>\<open>now\<close> is the clock reading \<open>time.Now()\<close> takes inside the critical section.\<close>

definition record_failure ::
    "string option \<Rightarrow> int \<Rightarrow> duration \<Rightarrow> instant \<Rightarrow> relay_state \<Rightarrow> relay_state" where
  "record_failure err threshold cooldown now rs =
    (let rs1 = rs\<lparr>rs_failures := rs_failures rs + 1,
                  rs_consecFails := rs_consecFails rs + 1,
                  rs_lastErr := ErrorString err\<rparr>
     in if rs_consecFails rs1 \<ge> threshold
        then rs1\<lparr>rs_downUntil := now + cooldown, rs_consecFails := 0\<rparr>
        else rs1)"

text \<open>The counters the gateway bumps directly: \<open>Requests.Add(1)\<close>, \<open>MidstreamFailures.Add(1)\<close>.\<close>

definition count_request :: "relay_state \<Rightarrow> relay_state" where
  "count_request rs = rs\<lparr>rs_requests := rs_requests rs + 1\<rparr>"

definition count_midstream :: "relay_state \<Rightarrow> relay_state" where
  "count_midstream rs = rs\<lparr>rs_midstream := rs_midstream rs + 1\<rparr>"

section \<open>The store of shared states\<close>

type_synonym addr = nat

record store =
  st_cells :: "addr \<Rightarrow> relay_state"
  st_next :: addr

definition empty_store :: store where
  "empty_store = \<lparr>st_cells = (\<lambda>_. fresh_state), st_next = 0\<rparr>"

definition alloc :: "store \<Rightarrow> addr \<times> store" where
  "alloc st = (st_next st, st\<lparr>st_cells := (st_cells st)(st_next st := fresh_state),
                               st_next := st_next st + 1\<rparr>)"

definition upd_cell :: "addr \<Rightarrow> (relay_state \<Rightarrow> relay_state) \<Rightarrow> store \<Rightarrow> store" where
  "upd_cell a f st = st\<lparr>st_cells := (st_cells st)(a := f (st_cells st a))\<rparr>"

section \<open>RuntimeState\<close>

definition KeyAll :: string where
  "KeyAll = ''all''"

record runtime =
  rt_entries :: "runtime_key \<Rightarrow> addr option"
  rt_owners :: "string \<Rightarrow> runtime_key option"
  rt_rr :: "string \<Rightarrow> nat option"

definition NewRuntimeState :: runtime where
  "NewRuntimeState = \<lparr>rt_entries = Map.empty, rt_owners = Map.empty, rt_rr = Map.empty\<rparr>"

definition Attach :: "runtime_key \<Rightarrow> runtime \<times> store \<Rightarrow> addr \<times> runtime \<times> store" where
  "Attach k rs =
    (let (rt, st) = rs;
         entries =
           (case rt_owners rt (identity k) of
              Some prev \<Rightarrow> if prev \<noteq> k then (rt_entries rt)(prev := None) else rt_entries rt
            | None \<Rightarrow> rt_entries rt);
         owners = (rt_owners rt)(identity k := Some k)
     in case entries k of
          Some a \<Rightarrow> (a, rt\<lparr>rt_entries := entries, rt_owners := owners\<rparr>, st)
        | None \<Rightarrow> (let (a, st') = alloc st
                   in (a, rt\<lparr>rt_entries := entries(k := Some a), rt_owners := owners\<rparr>, st')))"

text \<open>
  \<open>Prune\<close>: both loops only delete, so their result does not depend on the iteration
  order. An owner entry goes when it points back at a key being deleted.
\<close>

definition Prune :: "string set \<Rightarrow> runtime \<Rightarrow> runtime" where
  "Prune desired rt =
    (let providers = cut_before (CHR ''/'') ` desired in
     rt\<lparr>rt_entries := (\<lambda>k. if identity k \<notin> desired then None else rt_entries rt k),
        rt_owners := (\<lambda>idn. case rt_owners rt idn of
                       None \<Rightarrow> None
                     | Some k \<Rightarrow>
                         if rt_entries rt k \<noteq> None \<and> identity k \<notin> desired \<and> identity k = idn
                         then None else Some k),
        rt_rr := (\<lambda>sel. if sel = KeyAll \<or> sel \<in> providers then rt_rr rt sel else None)\<rparr>)"

definition rr_pos :: "(string \<Rightarrow> nat option) \<Rightarrow> string \<Rightarrow> nat" where
  "rr_pos rr key = (case rr key of None \<Rightarrow> 0 | Some i \<Rightarrow> i)"

text \<open>\<open>CursorFor\<close> is only reached with a non-empty candidate list, \<open>n > 0\<close>.\<close>

definition CursorFor :: "runtime \<Rightarrow> string \<Rightarrow> nat \<Rightarrow> nat \<times> runtime" where
  "CursorFor rt key n =
    (let i = rr_pos (rt_rr rt) key mod n
     in (i, rt\<lparr>rt_rr := (rt_rr rt)(key := Some (i + 1))\<rparr>))"

section \<open>Interface: passive health\<close>

text \<open>
  What the pool and the hot path rely on: a completed response always brings an endpoint
  back, a failure below the threshold never takes it down, and the failure that reaches
  the threshold takes it down for the cooldown and restarts the streak.
\<close>

locale passive_health =
  fixes up :: "'h \<Rightarrow> instant \<Rightarrow> bool"
    and streak :: "'h \<Rightarrow> int"
    and succeed :: "'h \<Rightarrow> 'h"
    and fail :: "string option \<Rightarrow> int \<Rightarrow> duration \<Rightarrow> instant \<Rightarrow> 'h \<Rightarrow> 'h"
  assumes up_succeed: "up (succeed h) now"
    and streak_succeed: "streak (succeed h) = 0"
    and fail_below: "streak h + 1 < threshold \<Longrightarrow>
          streak (fail e threshold cd t h) = streak h + 1
            \<and> up (fail e threshold cd t h) now = up h now"
    and fail_trip: "threshold \<le> streak h + 1 \<Longrightarrow> t + cd \<noteq> zero_time \<Longrightarrow>
          streak (fail e threshold cd t h) = 0
            \<and> (up (fail e threshold cd t h) now \<longleftrightarrow> t + cd < now)"
begin

text \<open>A burst of failures: one error and one clock reading each.\<close>

lemma burst_below:
  "streak h + int (length es) < threshold \<Longrightarrow>
     streak (fold (\<lambda>(e, t). fail e threshold cd t) es h) = streak h + int (length es)
       \<and> up (fold (\<lambda>(e, t). fail e threshold cd t) es h) now = up h now"
proof (induction es arbitrary: h)
  case Nil
  then show ?case by simp
next
  case (Cons x es)
  obtain e t where x: "x = (e, t)" by (cases x)
  from Cons.prems have "streak h + 1 < threshold" by simp
  from fail_below [OF this, of e cd t now]
  have step: "streak (fail e threshold cd t h) = streak h + 1"
    "up (fail e threshold cd t h) now = up h now" by auto
  with Cons.prems Cons.IH [of "fail e threshold cd t h"] show ?case by (simp add: x)
qed

lemma burst_trips:
  assumes "streak h + int (length es) + 1 = threshold" and "t + cd \<noteq> zero_time"
  shows "up (fail e threshold cd t (fold (\<lambda>(e, t). fail e threshold cd t) es h)) now
           \<longleftrightarrow> t + cd < now"
proof -
  have "streak (fold (\<lambda>(e, t). fail e threshold cd t) es h) = streak h + int (length es)"
    using assms(1) by (intro burst_below [THEN conjunct1]) simp
  with assms show ?thesis by (intro fail_trip [THEN conjunct2]) auto
qed

end

interpretation ph: passive_health healthy rs_consecFails record_success record_failure
  by unfold_locales (auto simp: healthy_def record_success_def record_failure_def Let_def)

section \<open>Interface: rotation\<close>

text \<open>
  What \<open>Pick\<close> relies on: a cursor per selector key, advanced past the index it returns,
  untouched by the other keys.
\<close>

fun rotate_run :: "('s \<Rightarrow> string \<Rightarrow> nat \<Rightarrow> nat \<times> 's) \<Rightarrow> 's \<Rightarrow> string \<Rightarrow> nat \<Rightarrow> nat \<Rightarrow> nat list" where
  "rotate_run nxt s key n 0 = []"
| "rotate_run nxt s key n (Suc m) =
     (let (i, s') = nxt s key n in i # rotate_run nxt s' key n m)"

locale rotation =
  fixes nxt :: "'s \<Rightarrow> string \<Rightarrow> nat \<Rightarrow> nat \<times> 's"
    and pos :: "'s \<Rightarrow> string \<Rightarrow> nat"
  assumes next_index: "0 < n \<Longrightarrow> fst (nxt s key n) = pos s key mod n"
    and next_pos: "0 < n \<Longrightarrow> pos (snd (nxt s key n)) key = pos s key mod n + 1"
    and next_other: "key' \<noteq> key \<Longrightarrow> pos (snd (nxt s key n)) key' = pos s key'"
begin

lemma next_bound: "0 < n \<Longrightarrow> fst (nxt s key n) < n"
  by (simp add: next_index)

lemma run_window:
  assumes "0 < n"
  shows "rotate_run nxt s key n m = map (\<lambda>j. (pos s key + j) mod n) [0..<m]"
proof (induction m arbitrary: s)
  case 0
  then show ?case by simp
next
  case (Suc m)
  obtain i s' where step: "nxt s key n = (i, s')" by (cases "nxt s key n")
  with assms next_index [of n s key] next_pos [of n s key]
  have i: "i = pos s key mod n" and p: "pos s' key = pos s key mod n + 1" by auto
  have "(pos s' key + j) mod n = (pos s key + Suc j) mod n" for j
    by (simp add: p) (metis mod_Suc_eq mod_add_left_eq)
  then have "map (\<lambda>j. (pos s' key + j) mod n) [0..<m] = map (\<lambda>j. (pos s key + Suc j) mod n) [0..<m]"
    by simp
  also have "\<dots> = map (\<lambda>j. (pos s key + j) mod n) (map Suc [0..<m])" by simp
  finally show ?case
    by (simp add: step i Suc.IH upt_conv_Cons map_Suc_upt del: upt_Suc)
qed

text \<open>Over \<open>n\<close> picks from a stable list every index is served exactly once.\<close>

lemma run_fair: "0 < n \<Longrightarrow> mset (rotate_run nxt s key n n) = mset [0..<n]"
  unfolding run_window by (rule mod_window_mset)

end

text \<open>The shared cursors of an attached pool.\<close>

interpretation shared: rotation CursorFor "\<lambda>rt. rr_pos (rt_rr rt)"
  by unfold_locales (auto simp: CursorFor_def Let_def rr_pos_def)

section \<open>The runtime state stays coherent\<close>

text \<open>
  Every entry is owned by its identity, so an identity has one entry at most; every
  address in use has been allocated, and no two keys share one.
\<close>

definition runtime_ok :: "runtime \<times> store \<Rightarrow> bool" where
  "runtime_ok rs \<longleftrightarrow>
     (\<forall>k a. rt_entries (fst rs) k = Some a \<longrightarrow>
        rt_owners (fst rs) (identity k) = Some k \<and> a < st_next (snd rs))
     \<and> (\<forall>idn k. rt_owners (fst rs) idn = Some k \<longrightarrow> identity k = idn \<and> rt_entries (fst rs) k \<noteq> None)
     \<and> (\<forall>k k' a. rt_entries (fst rs) k = Some a \<longrightarrow> rt_entries (fst rs) k' = Some a \<longrightarrow> k = k')"

lemma runtime_ok_init: "runtime_ok (NewRuntimeState, st)"
  by (simp add: runtime_ok_def NewRuntimeState_def)

lemma runtime_ok_owner:
  "runtime_ok (rt, st) \<Longrightarrow> rt_entries rt k = Some a \<Longrightarrow>
     rt_owners rt (identity k) = Some k \<and> a < st_next st"
  by (simp add: runtime_ok_def)

lemma runtime_ok_owned:
  "runtime_ok (rt, st) \<Longrightarrow> rt_owners rt idn = Some k \<Longrightarrow> identity k = idn \<and> rt_entries rt k \<noteq> None"
  unfolding runtime_ok_def fst_conv snd_conv by blast

lemma runtime_ok_inj:
  "runtime_ok (rt, st) \<Longrightarrow> rt_entries rt k = Some a \<Longrightarrow> rt_entries rt k' = Some a \<Longrightarrow> k = k'"
  unfolding runtime_ok_def fst_conv snd_conv by blast

text \<open>In a coherent runtime the purge of \<open>Attach\<close> leaves exactly the other identities.\<close>

definition purged :: "runtime_key \<Rightarrow> runtime \<Rightarrow> runtime_key \<Rightarrow> addr option" where
  "purged k rt = (\<lambda>k'. if identity k' = identity k \<and> k' \<noteq> k then None else rt_entries rt k')"

lemma purged_eq:
  assumes "runtime_ok (rt, st)"
  shows "(case rt_owners rt (identity k) of
            Some prev \<Rightarrow> if prev \<noteq> k then (rt_entries rt)(prev := None) else rt_entries rt
          | None \<Rightarrow> rt_entries rt) = purged k rt"
proof (cases "rt_owners rt (identity k)")
  case None
  then have "rt_entries rt k' = None" if "identity k' = identity k" for k'
    using that runtime_ok_owner [OF assms, of k'] by (cases "rt_entries rt k'") auto
  with None show ?thesis by (auto simp: purged_def)
next
  case (Some prev)
  then have prev: "identity prev = identity k" using runtime_ok_owned [OF assms] by simp
  from Some have "rt_entries rt k' = None" if "identity k' = identity k" "k' \<noteq> prev" for k'
    using that runtime_ok_owner [OF assms, of k'] by (cases "rt_entries rt k'") auto
  with Some prev show ?thesis by (auto simp: purged_def fun_eq_iff)
qed

lemma Attach_eq:
  assumes "runtime_ok (rt, st)"
  shows "Attach k (rt, st) =
    (case rt_entries rt k of
       Some a \<Rightarrow> (a, rt\<lparr>rt_entries := purged k rt,
                       rt_owners := (rt_owners rt)(identity k := Some k)\<rparr>, st)
     | None \<Rightarrow> (st_next st, rt\<lparr>rt_entries := (purged k rt)(k := Some (st_next st)),
                              rt_owners := (rt_owners rt)(identity k := Some k)\<rparr>,
                snd (alloc st)))"
  unfolding Attach_def by (simp add: purged_eq [OF assms] purged_def alloc_def split: option.split)

lemma Attach_ok:
  assumes ok: "runtime_ok (rt, st)" and att: "Attach k (rt, st) = (a, rt', st')"
  shows "runtime_ok (rt', st') \<and> rt_entries rt' k = Some a"
proof (cases "rt_entries rt k")
  case None
  with att have rt': "rt' = rt\<lparr>rt_entries := (purged k rt)(k := Some (st_next st)),
                              rt_owners := (rt_owners rt)(identity k := Some k)\<rparr>"
    and st': "st_next st' = Suc (st_next st)" and a: "a = st_next st"
    by (auto simp: Attach_eq [OF ok] alloc_def)
  have fresh: "rt_entries rt k' \<noteq> Some (st_next st)" for k'
    using runtime_ok_owner [OF ok] by fastforce
  show ?thesis
    unfolding runtime_ok_def
    using runtime_ok_owner [OF ok] runtime_ok_owned [OF ok] runtime_ok_inj [OF ok] fresh
    by (fastforce simp: rt' st' a purged_def split: if_splits)
next
  case (Some b)
  with att have rt': "rt' = rt\<lparr>rt_entries := purged k rt,
                              rt_owners := (rt_owners rt)(identity k := Some k)\<rparr>"
    and st': "st' = st" and a: "a = b"
    by (auto simp: Attach_eq [OF ok])
  show ?thesis
    unfolding runtime_ok_def
    using Some runtime_ok_owner [OF ok] runtime_ok_owned [OF ok] runtime_ok_inj [OF ok]
    by (fastforce simp: rt' st' a purged_def split: if_splits)
qed

lemma Prune_ok: "runtime_ok (rt, st) \<Longrightarrow> runtime_ok (Prune desired rt, st)"
  unfolding runtime_ok_def Prune_def Let_def by (fastforce split: option.splits if_splits)

end
