(* ===== verification/Pool.thy ===== *)
theory Pool
  imports Pool_Runtime
begin

text \<open>
  \<open>internal/pool/pool.go\<close>: the serving set. A pool is immutable but for its local cursors;
  the health of its relays lives in the store of \<^theory_text>\<open>Pool_Runtime\<close>, the shared cursors
  in the runtime state. \<open>Pick\<close> therefore maps the pair of runtime state and pool to the
  relay picked and the pair afterwards.
\<close>

section \<open>Data\<close>

definition HopByHop :: "string list" where
  "HopByHop =
     [''Connection'', ''Proxy-Connection'', ''Keep-Alive'', ''Proxy-Authenticate'',
      ''Proxy-Authorization'', ''Te'', ''Trailer'', ''Transfer-Encoding'', ''Upgrade'']"

definition VercelMaxBody :: int where
  "VercelMaxBody = 4500000"

definition CloudflareMaxBody :: int where
  "CloudflareMaxBody = 100 * 2 ^ 20"

definition DenoMaxBody :: int where
  "DenoMaxBody = 100 * 2 ^ 20"

definition ProviderMaxBody :: "string \<Rightarrow> int" where
  "ProviderMaxBody provider =
     (if provider = ''vercel'' then VercelMaxBody
      else if provider = ''cloudflare'' then CloudflareMaxBody
      else if provider = ''deno'' then DenoMaxBody
      else VercelMaxBody)"

text \<open>A serving relay; \<open>r_state\<close> is the address of its embedded \<open>*RelayState\<close>.\<close>

record relay =
  r_state :: addr
  r_name :: string
  r_provider :: string
  r_url :: string
  r_token :: string
  r_maxBody :: int
  r_incarnation :: nat

record stats_row =
  sr_name :: string
  sr_provider :: string
  sr_healthy :: bool
  sr_maxBody :: int
  sr_requests :: int
  sr_failures :: int
  sr_lastError :: string
  sr_midstream :: int

record relay_input =
  ri_name :: string
  ri_provider :: string
  ri_url :: string
  ri_token :: string
  ri_maxBody :: int
  ri_incarnation :: nat
  ri_runtime :: runtime_key

record pool_input =
  pi_failureThreshold :: int
  pi_cooldown :: duration
  pi_relays :: "relay_input list"

text \<open>\<open>p_attached\<close> tells a pool built on the runtime state (\<open>rt\<close> not nil) from a standalone one.\<close>

record pool =
  p_relays :: "relay list"
  p_rr :: "string \<Rightarrow> nat option"
  p_threshold :: int
  p_cooldown :: duration
  p_attached :: bool

section \<open>Building a pool\<close>

definition relay_of :: "addr \<Rightarrow> relay_input \<Rightarrow> relay" where
  "relay_of a r = \<lparr>r_state = a, r_name = ri_name r, r_provider = ri_provider r, r_url = ri_url r,
                  r_token = ri_token r, r_maxBody = ri_maxBody r, r_incarnation = ri_incarnation r\<rparr>"

fun build_relays ::
    "bool \<Rightarrow> relay_input list \<Rightarrow> runtime \<times> store \<Rightarrow> relay list \<times> runtime \<times> store" where
  "build_relays att [] rs = ([], rs)"
| "build_relays att (r # ins) rs =
     (let (a, rs1) = (if att then Attach (ri_runtime r) rs
                      else (let (b, st) = alloc (snd rs) in (b, fst rs, st)));
          (relays, rs2) = build_relays att ins rs1
      in (relay_of a r # relays, rs2))"

definition newPool :: "pool_input \<Rightarrow> bool \<Rightarrow> runtime \<times> store \<Rightarrow> pool \<times> runtime \<times> store" where
  "newPool inp att rs =
    (let (relays, rs') = build_relays att (pi_relays inp) rs
     in (\<lparr>p_relays = relays, p_rr = Map.empty, p_threshold = pi_failureThreshold inp,
          p_cooldown = pi_cooldown inp, p_attached = att\<rparr>, rs'))"

definition NewAttached :: "pool_input \<Rightarrow> runtime \<times> store \<Rightarrow> pool \<times> runtime \<times> store" where
  "NewAttached inp rs = newPool inp True rs"

definition New_pool :: "pool_input \<Rightarrow> runtime \<times> store \<Rightarrow> pool \<times> runtime \<times> store" where
  "New_pool inp rs = newPool inp False rs"

section \<open>Operations\<close>

definition HasProvider :: "pool \<Rightarrow> string \<Rightarrow> bool" where
  "HasProvider p provider \<longleftrightarrow> list_ex (\<lambda>r. r_provider r = provider) (p_relays p)"

definition ReadyCount_pool :: "pool \<Rightarrow> nat" where
  "ReadyCount_pool p = length (p_relays p)"

definition cursor :: "runtime \<times> pool \<Rightarrow> string \<Rightarrow> nat \<Rightarrow> nat \<times> runtime \<times> pool" where
  "cursor rp key n =
    (let (rt, p) = rp in
     if p_attached p then (let (i, rt') = CursorFor rt key n in (i, rt', p))
     else (let i = rr_pos (p_rr p) key mod n
           in (i, rt, p\<lparr>p_rr := (p_rr p)(key := Some (i + 1))\<rparr>)))"

definition candidates :: "pool \<Rightarrow> string \<Rightarrow> relay list" where
  "candidates p key = filter (\<lambda>r. \<not> (key \<noteq> KeyAll \<and> r_provider r \<noteq> key)) (p_relays p)"

definition pick_list :: "store \<Rightarrow> instant \<Rightarrow> pool \<Rightarrow> string \<Rightarrow> relay list" where
  "pick_list st now p key =
    (let cs = candidates p key;
         hs = filter (\<lambda>r. healthy (st_cells st (r_state r)) now) cs
     in if hs = [] then cs else hs)"

definition Pick ::
    "store \<Rightarrow> instant \<Rightarrow> runtime \<times> pool \<Rightarrow> string \<Rightarrow> relay option \<times> runtime \<times> pool" where
  "Pick st now rp key =
    (let use = pick_list st now (snd rp) key in
     if use = [] then (None, rp)
     else (let (i, rp') = cursor rp key (length use) in (Some (use ! i), rp')))"

definition RecordSuccess :: "relay \<Rightarrow> store \<Rightarrow> store" where
  "RecordSuccess r st = upd_cell (r_state r) record_success st"

definition RecordFailure :: "pool \<Rightarrow> relay \<Rightarrow> string option \<Rightarrow> instant \<Rightarrow> store \<Rightarrow> store" where
  "RecordFailure p r err now st =
     upd_cell (r_state r) (record_failure err (p_threshold p) (p_cooldown p) now) st"

definition snapshot :: "store \<Rightarrow> instant \<Rightarrow> relay \<Rightarrow> stats_row" where
  "snapshot st now r =
    (let rs = st_cells st (r_state r); (up, lastErr) = health rs now
     in \<lparr>sr_name = r_name r, sr_provider = r_provider r, sr_healthy = up, sr_maxBody = r_maxBody r,
         sr_requests = rs_requests rs, sr_failures = rs_failures rs, sr_lastError = lastErr,
         sr_midstream = rs_midstream rs\<rparr>)"

definition Stats :: "store \<Rightarrow> instant \<Rightarrow> pool \<Rightarrow> stats_row list" where
  "Stats st now p = map (snapshot st now) (p_relays p)"

section \<open>Rotation of a pool\<close>

definition pool_pos :: "runtime \<times> pool \<Rightarrow> string \<Rightarrow> nat" where
  "pool_pos rp key = (if p_attached (snd rp) then rr_pos (rt_rr (fst rp)) key
                      else rr_pos (p_rr (snd rp)) key)"

interpretation pr: rotation cursor pool_pos
proof
  fix n :: nat and s :: "runtime \<times> pool" and key
  assume "0 < n"
  then show "fst (cursor s key n) = pool_pos s key mod n"
    by (cases s) (simp add: cursor_def pool_pos_def CursorFor_def Let_def)
next
  fix n :: nat and s :: "runtime \<times> pool" and key
  assume "0 < n"
  then show "pool_pos (snd (cursor s key n)) key = pool_pos s key mod n + 1"
    by (cases s) (simp add: cursor_def pool_pos_def CursorFor_def Let_def rr_pos_def)
next
  fix key' key :: string and s :: "runtime \<times> pool" and n
  assume "key' \<noteq> key"
  then show "pool_pos (snd (cursor s key n)) key' = pool_pos s key'"
    by (cases s) (simp add: cursor_def pool_pos_def CursorFor_def Let_def rr_pos_def)
qed

lemma cursor_frame [frame_simps]:
  "p_relays (snd (snd (cursor rp key n))) = p_relays (snd rp)"
  "p_threshold (snd (snd (cursor rp key n))) = p_threshold (snd rp)"
  "p_cooldown (snd (snd (cursor rp key n))) = p_cooldown (snd rp)"
  "p_attached (snd (snd (cursor rp key n))) = p_attached (snd rp)"
  "rt_entries (fst (snd (cursor rp key n))) = rt_entries (fst rp)"
  "rt_owners (fst (snd (cursor rp key n))) = rt_owners (fst rp)"
  by (cases rp; simp add: cursor_def CursorFor_def Let_def)+

lemma Pick_frame [frame_simps]:
  "p_relays (snd (snd (Pick st now rp key))) = p_relays (snd rp)"
  "p_attached (snd (snd (Pick st now rp key))) = p_attached (snd rp)"
  "rt_entries (fst (snd (Pick st now rp key))) = rt_entries (fst rp)"
  "rt_owners (fst (snd (Pick st now rp key))) = rt_owners (fst rp)"
  using cursor_frame [of rp key "length (pick_list st now (snd rp) key)"]
  by (auto simp: Pick_def Let_def split: prod.split)

lemma pick_list_cong:
  "p_relays p' = p_relays p \<Longrightarrow> pick_list st now p' key = pick_list st now p key"
  by (simp add: pick_list_def candidates_def)

lemma pick_list_sub: "set (pick_list st now p key) \<subseteq> set (candidates p key)"
  by (auto simp: pick_list_def Let_def)

lemma pick_list_empty: "pick_list st now p key = [] \<longleftrightarrow> candidates p key = []"
  by (cases "candidates p key") (auto simp: pick_list_def Let_def)

lemma Pick_Some_eq:
  "pick_list st now (snd rp) key \<noteq> [] \<Longrightarrow>
     Pick st now rp key =
       (Some (pick_list st now (snd rp) key
                ! fst (cursor rp key (length (pick_list st now (snd rp) key)))),
        snd (cursor rp key (length (pick_list st now (snd rp) key))))"
  by (simp add: Pick_def Let_def split_beta)

lemma Pick_Some:
  assumes "fst (Pick st now rp key) = Some r"
  shows "r \<in> set (pick_list st now (snd rp) key)"
proof -
  let ?use = "pick_list st now (snd rp) key"
  have ne: "?use \<noteq> []" using assms by (auto simp: Pick_def)
  then have "fst (cursor rp key (length ?use)) < length ?use"
    by (intro pr.next_bound) simp
  with assms ne show ?thesis by (auto simp: Pick_Some_eq [OF ne])
qed

lemma Pick_None: "fst (Pick st now rp key) = None \<longleftrightarrow> candidates (snd rp) key = []"
  by (auto simp: Pick_def Let_def pick_list_empty split: prod.split)

fun pick_run :: "store \<Rightarrow> instant \<Rightarrow> runtime \<times> pool \<Rightarrow> string \<Rightarrow> nat \<Rightarrow> relay option list" where
  "pick_run st now rp key 0 = []"
| "pick_run st now rp key (Suc m) =
     (let (r, rp') = Pick st now rp key in r # pick_run st now rp' key m)"

lemma pick_run_rotation:
  assumes "pick_list st now (snd rp) key = use" and "use \<noteq> []"
  shows "pick_run st now rp key m
           = map (\<lambda>i. Some (use ! i)) (rotate_run cursor rp key (length use) m)"
  using assms(1)
proof (induction m arbitrary: rp)
  case 0
  then show ?case by simp
next
  case (Suc m)
  let ?c = "cursor rp key (length use)"
  from Suc.prems assms(2)
  have pick: "Pick st now rp key = (Some (use ! fst ?c), snd ?c)"
    by (simp add: Pick_Some_eq)
  have "pick_list st now (snd (snd ?c)) key = use"
    using Suc.prems by (simp add: pick_list_cong [OF cursor_frame(1)])
  from Suc.IH [OF this] show ?case by (simp add: pick split_beta)
qed

section \<open>What a pick guarantees\<close>

text \<open>
  C29. \<open>Pick\<close> returns a relay of the pool that matches the selector (any provider for
  \<open>all\<close>), and a healthy one whenever some matching relay is healthy; it returns nothing
  exactly when no relay of the pool matches.
\<close>

theorem Pick_sound:
  "case fst (Pick st now (rt, p) key) of
     Some r \<Rightarrow> r \<in> set (p_relays p) \<and> (key = KeyAll \<or> r_provider r = key)
       \<and> (healthy (st_cells st (r_state r)) now
          \<or> (\<forall>r' \<in> set (candidates p key). \<not> healthy (st_cells st (r_state r')) now))
   | None \<Rightarrow> candidates p key = []"
proof (cases "fst (Pick st now (rt, p) key)")
  case None
  then show ?thesis using Pick_None [of st now "(rt, p)" key] by simp
next
  case (Some r)
  from Pick_Some [OF Some] have r: "r \<in> set (pick_list st now p key)" by simp
  then have "r \<in> set (candidates p key)" using pick_list_sub by blast
  then have "r \<in> set (p_relays p) \<and> (key = KeyAll \<or> r_provider r = key)"
    by (auto simp: candidates_def)
  moreover from r have "healthy (st_cells st (r_state r)) now
      \<or> (\<forall>r' \<in> set (candidates p key). \<not> healthy (st_cells st (r_state r')) now)"
    by (auto simp: pick_list_def Let_def filter_empty_conv split: if_splits)
  ultimately show ?thesis by (simp add: Some)
qed

text \<open>A vercel relay in cooldown until 100 and a healthy deno relay.\<close>

definition w_relay :: "addr \<Rightarrow> string \<Rightarrow> relay" where
  "w_relay a provider = \<lparr>r_state = a, r_name = ''edge'', r_provider = provider, r_url = ''https://x'',
     r_token = ''t'', r_maxBody = ProviderMaxBody provider, r_incarnation = 1\<rparr>"

definition w_pool :: pool where
  "w_pool = \<lparr>p_relays = [w_relay 0 ''vercel'', w_relay 1 ''deno''], p_rr = Map.empty,
     p_threshold = 3, p_cooldown = 30 * second, p_attached = True\<rparr>"

definition w_store :: store where
  "w_store = upd_cell 0 (\<lambda>rs. rs\<lparr>rs_downUntil := 100\<rparr>)
               (snd (alloc (snd (alloc empty_store))))"

lemmas w_pool_defs = w_pool_def w_relay_def w_store_def upd_cell_def alloc_def empty_store_def
  fresh_state_def candidates_def pick_list_def healthy_def KeyAll_def

theorem Pick_sound_witness:
  "case fst (Pick w_store 50 (NewRuntimeState, w_pool) KeyAll) of
     Some r \<Rightarrow> healthy (st_cells w_store (r_state r)) 50 \<and> r_provider r = ''deno''
   | None \<Rightarrow> False"
  using Pick_sound [where st = w_store and now = 50 and rt = NewRuntimeState and p = w_pool and key = KeyAll]
  by (auto simp: w_pool_defs split: option.splits)

text \<open>
  While the health of the pool does not change, a full round of picks on one selector
  serves every relay of its candidate list exactly once, from whatever position the
  cursor was left in, for attached and standalone pools alike.
\<close>

theorem Pick_round_robin:
  assumes "candidates p key \<noteq> []"
  shows "mset (pick_run st now (rt, p) key (length (pick_list st now p key)))
           = mset (map Some (pick_list st now p key))"
proof -
  let ?use = "pick_list st now p key"
  have ne: "?use \<noteq> []" using assms by (simp add: pick_list_empty)
  then have pos: "0 < length ?use" by simp
  have "pick_run st now (rt, p) key (length ?use)
          = map (\<lambda>i. Some (?use ! i)) (rotate_run cursor (rt, p) key (length ?use) (length ?use))"
    using ne by (intro pick_run_rotation) simp_all
  then have "mset (pick_run st now (rt, p) key (length ?use))
      = image_mset (\<lambda>i. Some (?use ! i)) (mset [0..<length ?use])"
    by (simp only: mset_map pr.run_fair [OF pos])
  also have "\<dots> = mset (map Some (map (\<lambda>i. ?use ! i) [0..<length ?use]))"
    by (simp only: mset_map [symmetric] map_map comp_def)
  finally show ?thesis by (simp only: map_nth)
qed

theorem Pick_round_robin_witness:
  "mset (pick_run w_store 200 (NewRuntimeState, w_pool) KeyAll 2)
     = {#Some (w_relay 0 ''vercel''), Some (w_relay 1 ''deno'')#}"
  using Pick_round_robin [where st = w_store and now = 200 and rt = NewRuntimeState and p = w_pool and key = KeyAll]
  by (simp add: w_pool_defs numeral_2_eq_2)

end
