(* ===== verification/Pool_Rebuild.thy ===== *)
theory Pool_Rebuild
  imports Pool
begin

text \<open>
  What survives a rebuild of the serving generation. \<open>newPool\<close> attaches every relay to
  its endpoint's state: an endpoint that was served before keeps its address and the
  contents of its cell, an endpoint that changed or was pruned starts from zero, and the
  cursors are never touched.
\<close>

section \<open>One attach\<close>

lemma Attach_known:
  assumes ok: "runtime_ok (rt, st)" and k: "rt_entries rt k = Some a"
  shows "Attach k (rt, st) = (a, rt, st)"
proof -
  have "rt_entries rt k' = None" if "identity k' = identity k" "k' \<noteq> k" for k'
    using that runtime_ok_owner [OF ok k] runtime_ok_owner [OF ok, of k']
    by (cases "rt_entries rt k'") auto
  then have "purged k rt = rt_entries rt" by (auto simp: purged_def)
  moreover have "(rt_owners rt)(identity k := Some k) = rt_owners rt"
    using runtime_ok_owner [OF ok k] by auto
  ultimately show ?thesis by (simp add: Attach_eq [OF ok] k)
qed

lemma Attach_new:
  assumes ok: "runtime_ok (rt, st)" and k: "rt_entries rt k = None"
    and att: "Attach k (rt, st) = (a, rt', st')"
  shows "a = st_next st" and "st_cells st' a = fresh_state" and "st_next st' = Suc (st_next st)"
    and "b \<noteq> a \<Longrightarrow> st_cells st' b = st_cells st b"
    and "k' \<noteq> k \<Longrightarrow> identity k' = identity k \<Longrightarrow> rt_entries rt' k' = None"
  using att by (auto simp: Attach_eq [OF ok] k alloc_def purged_def)

lemma Attach_frame:
  assumes ok: "runtime_ok (rt, st)" and att: "Attach k (rt, st) = (a, rt', st')"
  shows "rt_rr rt' = rt_rr rt" and "st_next st \<le> st_next st'"
    and "b < st_next st \<Longrightarrow> st_cells st' b = st_cells st b"
    and "identity k' \<noteq> identity k \<Longrightarrow> rt_entries rt' k' = rt_entries rt k'"
  using att by (auto simp: Attach_eq [OF ok] alloc_def purged_def split: option.splits)

section \<open>A whole rebuild\<close>

text \<open>How one built relay relates to the state before and after the build.\<close>

definition carried :: "runtime \<times> store \<Rightarrow> runtime \<times> store \<Rightarrow> relay \<Rightarrow> relay_input \<Rightarrow> bool" where
  "carried rs rs' r inp \<longleftrightarrow>
     rt_entries (fst rs') (ri_runtime inp) = Some (r_state r)
     \<and> (case rt_entries (fst rs) (ri_runtime inp) of
          Some a \<Rightarrow> r_state r = a \<and> st_cells (snd rs') a = st_cells (snd rs) a
        | None \<Rightarrow> st_next (snd rs) \<le> r_state r \<and> st_cells (snd rs') (r_state r) = fresh_state)"

lemma build_relays_attached:
  assumes "runtime_ok (rt, st)" and "distinct (map (\<lambda>i. identity (ri_runtime i)) ins)"
    and "build_relays True ins (rt, st) = (rels, rt', st')"
  shows "runtime_ok (rt', st') \<and> rt_rr rt' = rt_rr rt \<and> st_next st \<le> st_next st'
    \<and> (\<forall>b < st_next st. st_cells st' b = st_cells st b)
    \<and> (\<forall>k. identity k \<notin> (\<lambda>i. identity (ri_runtime i)) ` set ins \<longrightarrow> rt_entries rt' k = rt_entries rt k)
    \<and> list_all2 (carried (rt, st) (rt', st')) rels ins"
  using assms
proof (induction ins arbitrary: rt st rels)
  case Nil
  then show ?case by simp
next
  case (Cons i ins)
  let ?k = "ri_runtime i"
  obtain a rt1 st1 where att: "Attach ?k (rt, st) = (a, rt1, st1)" by (cases "Attach ?k (rt, st)")
  from Cons.prems(3) att obtain rels1 where
    rels: "rels = relay_of a i # rels1" and rest: "build_relays True ins (rt1, st1) = (rels1, rt', st')"
    by (auto split: prod.splits)
  from Attach_ok [OF Cons.prems(1) att] have ok1: "runtime_ok (rt1, st1)"
    and ka: "rt_entries rt1 ?k = Some a" by auto
  have dist: "distinct (map (\<lambda>i. identity (ri_runtime i)) ins)"
    and notin: "identity ?k \<notin> (\<lambda>i. identity (ri_runtime i)) ` set ins"
    using Cons.prems(2) by auto
  note frame = Attach_frame [OF Cons.prems(1) att]
  from Cons.IH [OF ok1 dist rest] have
    ok': "runtime_ok (rt', st')" and rr: "rt_rr rt' = rt_rr rt1" and le: "st_next st1 \<le> st_next st'"
    and cells: "\<And>b. b < st_next st1 \<Longrightarrow> st_cells st' b = st_cells st1 b"
    and ents: "\<And>k. identity k \<notin> (\<lambda>i. identity (ri_runtime i)) ` set ins \<Longrightarrow>
        rt_entries rt' k = rt_entries rt1 k"
    and all: "list_all2 (carried (rt1, st1) (rt', st')) rels1 ins" by auto
  have a_lt: "a < st_next st1" using runtime_ok_owner [OF ok1 ka] by simp
  have head: "carried (rt, st) (rt', st') (relay_of a i) i"
  proof (cases "rt_entries rt ?k")
    case (Some b)
    with Attach_known [OF Cons.prems(1) Some] att have "a = b" "rt1 = rt" "st1 = st" by auto
    with Some ents [OF notin] ka cells [OF a_lt] show ?thesis by (simp add: carried_def relay_of_def)
  next
    case None
    with Attach_new [OF Cons.prems(1) None att] ents [OF notin] ka cells [OF a_lt]
    show ?thesis by (simp add: carried_def relay_of_def)
  qed
  have shift: "carried (rt, st) (rt', st') r j" if "carried (rt1, st1) (rt', st') r j" "j \<in> set ins" for r j
  proof -
    have "identity (ri_runtime j) \<noteq> identity ?k" using that(2) notin by (metis imageI)
    then have "rt_entries rt1 (ri_runtime j) = rt_entries rt (ri_runtime j)"
      using frame(4) by blast
    moreover have "st_cells st1 b = st_cells st b" if "rt_entries rt (ri_runtime j) = Some b" for b
      using frame(3) runtime_ok_owner [OF Cons.prems(1) that] by blast
    ultimately show ?thesis using that(1) frame(2) by (auto simp: carried_def split: option.splits)
  qed
  have "list_all2 (carried (rt, st) (rt', st')) rels1 ins"
    using all by (rule list.rel_mono_strong) (rule shift)
  with head rels ok' rr le cells ents frame show ?case by auto
qed

text \<open>The built relays are the inputs, in order, with an address each.\<close>

lemma build_relays_shape:
  "build_relays att ins rs = (rels, rs') \<Longrightarrow> list_all2 (\<lambda>r i. \<exists>a. r = relay_of a i) rels ins"
proof (induction ins arbitrary: rs rels)
  case Nil
  then show ?case by simp
next
  case (Cons i ins)
  from Cons.prems obtain a rs1 rels1 where "rels = relay_of a i # rels1"
    and "build_relays att ins rs1 = (rels1, rs')"
    by (auto simp: Let_def split: prod.splits if_splits)
  with Cons.IH show ?case by blast
qed

lemma relay_of_simps [simp]:
  "r_state (relay_of a i) = a" "r_name (relay_of a i) = ri_name i"
  "r_provider (relay_of a i) = ri_provider i" "r_url (relay_of a i) = ri_url i"
  "r_token (relay_of a i) = ri_token i" "r_maxBody (relay_of a i) = ri_maxBody i"
  "r_incarnation (relay_of a i) = ri_incarnation i"
  by (simp_all add: relay_of_def)

section \<open>Properties\<close>

text \<open>
  A serving rebuild carries the passive health of every endpoint it keeps: the relay
  built for an endpoint the runtime state already knows shares the very state the older
  pool recorded into, with its contents unchanged; an endpoint seen for the first time
  starts from zero; no other state and no rotation cursor is touched.
\<close>

theorem rebuild_carries_health:
  assumes "runtime_ok (rt, st)"
    and "distinct (map (\<lambda>i. identity (ri_runtime i)) (pi_relays inp))"
    and "NewAttached inp (rt, st) = (p, rt', st')"
  shows "runtime_ok (rt', st') \<and> rt_rr rt' = rt_rr rt
    \<and> (\<forall>b < st_next st. st_cells st' b = st_cells st b)
    \<and> list_all2 (carried (rt, st) (rt', st')) (p_relays p) (pi_relays inp)"
proof -
  obtain rels where b: "build_relays True (pi_relays inp) (rt, st) = (rels, rt', st')"
    and p: "p_relays p = rels"
    using assms(3) by (auto simp: NewAttached_def newPool_def split: prod.splits)
  from build_relays_attached [OF assms(1,2) b] p show ?thesis by simp
qed

definition w_key :: "string \<Rightarrow> runtime_key" where
  "w_key url = \<lparr>rk_provider = ''deno'', rk_name = ''edge'', rk_scopeFP = [], rk_url = url,
                rk_tokenFP = ''f''\<rparr>"

definition w_input :: pool_input where
  "w_input = \<lparr>pi_failureThreshold = 3, pi_cooldown = second,
     pi_relays = [\<lparr>ri_name = ''edge'', ri_provider = ''deno'', ri_url = ''https://a'', ri_token = ''t'',
                   ri_maxBody = DenoMaxBody, ri_incarnation = 1, ri_runtime = w_key ''https://a''\<rparr>]\<rparr>"

text \<open>The runtime state after one attach of the endpoint at address 0.\<close>

definition w_runtime :: runtime where
  "w_runtime = fst (snd (Attach (w_key ''https://a'') (NewRuntimeState, empty_store)))"

definition w_cells :: store where
  "w_cells = snd (alloc empty_store)"

lemmas w_runtime_defs = w_runtime_def w_cells_def Attach_def NewRuntimeState_def alloc_def
  empty_store_def Let_def

lemma w_runtime_ok: "runtime_ok (w_runtime, w_cells)"
  using Attach_ok [OF runtime_ok_init [of empty_store], of "w_key ''https://a''" 0 w_runtime w_cells]
  by (simp add: w_runtime_defs)

lemma w_runtime_entry: "rt_entries w_runtime (w_key ''https://a'') = Some 0"
  by (simp add: w_runtime_defs)

theorem rebuild_carries_health_witness:
  "case NewAttached w_input (w_runtime, upd_cell 0 count_request w_cells) of (p, rt', st') \<Rightarrow>
     runtime_ok (rt', st') \<and> map r_state (p_relays p) = [0] \<and> rs_requests (st_cells st' 0) = 1"
proof -
  let ?st = "upd_cell 0 count_request w_cells"
  obtain p rt' st' where eq: "NewAttached w_input (w_runtime, ?st) = (p, rt', st')"
    by (cases "NewAttached w_input (w_runtime, ?st)")
  have "runtime_ok (w_runtime, ?st)"
    using w_runtime_ok by (simp add: runtime_ok_def upd_cell_def)
  from rebuild_carries_health [OF this _ eq]
  have "runtime_ok (rt', st')"
    and all: "list_all2 (carried (w_runtime, ?st) (rt', st')) (p_relays p) (pi_relays w_input)"
    by (auto simp: w_input_def)
  moreover have "rs_requests (st_cells ?st 0) = 1"
    by (simp add: upd_cell_def count_request_def w_cells_def alloc_def empty_store_def fresh_state_def)
  ultimately show ?thesis
    using w_runtime_entry eq by (auto simp: w_input_def carried_def list_all2_Cons2)
qed

text \<open>
  A changed endpoint starts clean: when a configuration identity is attached under a
  key that differs from the one it owned (moved scope pin, other URL, rotated relay key),
  the relay gets a newly allocated zero state and the old endpoint's entry is gone.
\<close>

theorem changed_endpoint_starts_clean:
  assumes "runtime_ok (rt, st)" and "rt_entries rt old = Some a"
    and "identity new = identity old" and "new \<noteq> old"
    and "Attach new (rt, st) = (b, rt', st')"
  shows "b \<noteq> a \<and> st_cells st' b = fresh_state \<and> rt_entries rt' old = None
    \<and> st_cells st' a = st_cells st a"
proof -
  have own: "rt_owners rt (identity old) = Some old" and a: "a < st_next st"
    using runtime_ok_owner [OF assms(1,2)] by auto
  have "rt_entries rt new = None"
    using runtime_ok_owner [OF assms(1), of new] own assms(3,4) by (cases "rt_entries rt new") auto
  from Attach_new [OF assms(1) this assms(5)] a assms(3,4) show ?thesis by auto
qed

theorem changed_endpoint_starts_clean_witness:
  "case Attach (w_key ''https://b'') (w_runtime, w_cells) of (b, rt', st') \<Rightarrow>
     b \<noteq> 0 \<and> st_cells st' b = fresh_state \<and> rt_entries rt' (w_key ''https://a'') = None"
proof -
  obtain b rt' st' where "Attach (w_key ''https://b'') (w_runtime, w_cells) = (b, rt', st')"
    by (cases "Attach (w_key ''https://b'') (w_runtime, w_cells)")
  with changed_endpoint_starts_clean [OF w_runtime_ok w_runtime_entry _ _ this] show ?thesis
    by (simp add: w_key_def identity_def)
qed

text \<open>
  \<open>Prune\<close> ends the health of exactly the identities that left the configuration: an
  identity absent from the desired set has no entry left, so attaching it again allocates
  a zero state; a desired one keeps its entry, address and owner.
\<close>

theorem Prune_exact:
  assumes "runtime_ok (rt, st)" and "Attach k (Prune desired rt, st) = (b, rt', st')"
  shows "(identity k \<notin> desired \<longrightarrow> b = st_next st \<and> st_cells st' b = fresh_state)
    \<and> (identity k \<in> desired \<and> rt_entries rt k = Some a \<longrightarrow> b = a \<and> st' = st)"
proof (rule conjI; rule impI)
  assume "identity k \<notin> desired"
  then have "rt_entries (Prune desired rt) k = None" by (simp add: Prune_def Let_def)
  from Attach_new [OF Prune_ok [OF assms(1)] this assms(2)]
  show "b = st_next st \<and> st_cells st' b = fresh_state" by simp
next
  assume "identity k \<in> desired \<and> rt_entries rt k = Some a"
  then have "rt_entries (Prune desired rt) k = Some a" by (simp add: Prune_def Let_def)
  from Attach_known [OF Prune_ok [OF assms(1)] this] assms(2)
  show "b = a \<and> st' = st" by simp
qed

theorem Prune_exact_witness:
  "fst (Attach (w_key ''https://a'') (Prune {} w_runtime, w_cells)) = 1
   \<and> fst (Attach (w_key ''https://a'') (Prune {''deno/edge''} w_runtime, w_cells)) = 0"
proof -
  let ?k = "w_key ''https://a''"
  have idn: "identity ?k = ''deno/edge''" by (simp add: identity_def w_key_def)
  obtain b rt' st' where out: "Attach ?k (Prune {} w_runtime, w_cells) = (b, rt', st')"
    by (cases "Attach ?k (Prune {} w_runtime, w_cells)")
  obtain c rt'' st'' where kept: "Attach ?k (Prune {''deno/edge''} w_runtime, w_cells) = (c, rt'', st'')"
    by (cases "Attach ?k (Prune {''deno/edge''} w_runtime, w_cells)")
  from Prune_exact [OF w_runtime_ok out] have "b = st_next w_cells" by simp
  moreover from Prune_exact [OF w_runtime_ok kept] idn w_runtime_entry have "c = 0" by simp
  ultimately show ?thesis using out kept by (simp add: w_cells_def alloc_def empty_store_def)
qed

end
