(* ===== verification/Deploy_Identity.thy ===== *)
theory Deploy_Identity
  imports Sha256 "HOL-Library.List_Lexorder" "HOL-Library.Char_ord" "HOL-Library.Product_Lexorder"
begin

text \<open>
  \<open>internal/deploy/deploy.go\<close>, its identity half: the hard-coded platforms, a relay's
  identity and scope, the project slug every platform call addresses, and the
  classification of probe answers.
\<close>

section \<open>Platforms and keys\<close>

definition PlatformVercel :: string where "PlatformVercel = ''vercel''"
definition PlatformCloudflare :: string where "PlatformCloudflare = ''cloudflare''"
definition PlatformDeno :: string where "PlatformDeno = ''deno''"

definition Platforms :: "string list" where
  "Platforms = [PlatformVercel, PlatformCloudflare, PlatformDeno]"

lemmas platform_defs = Platforms_def PlatformVercel_def PlatformCloudflare_def PlatformDeno_def

datatype relay_key = RelayKey (key_provider: string) (key_name: string)

definition key_string :: "relay_key \<Rightarrow> string" where
  "key_string k = key_provider k @ ''/'' @ key_name k"

text \<open>Keys are ordered by provider, then name: the order the documentation names.\<close>

instantiation relay_key :: linorder
begin

definition less_eq_relay_key :: "relay_key \<Rightarrow> relay_key \<Rightarrow> bool" where
  "less_eq_relay_key k k' \<longleftrightarrow> (key_provider k, key_name k) \<le> (key_provider k', key_name k')"

definition less_relay_key :: "relay_key \<Rightarrow> relay_key \<Rightarrow> bool" where
  "less_relay_key k k' \<longleftrightarrow> (key_provider k, key_name k) < (key_provider k', key_name k')"

instance
proof
  fix x y z :: relay_key
  show "(x < y) = (x \<le> y \<and> \<not> y \<le> x)"
    by (auto simp: less_eq_relay_key_def less_relay_key_def)
  show "x \<le> x" by (simp add: less_eq_relay_key_def)
  show "x \<le> y \<Longrightarrow> y \<le> z \<Longrightarrow> x \<le> z"
    unfolding less_eq_relay_key_def by (rule order_trans)
  show "x \<le> y \<Longrightarrow> y \<le> x \<Longrightarrow> x = y"
    unfolding less_eq_relay_key_def by (metis order_antisym prod.inject relay_key.expand)
  show "x \<le> y \<or> y \<le> x"
    unfolding less_eq_relay_key_def by (rule linear)
qed

end

section \<open>Scopes and credentials\<close>

record scope =
  sc_team :: string
  sc_account :: string
  sc_organization :: string

definition no_scope :: scope where
  "no_scope = \<lparr>sc_team = [], sc_account = [], sc_organization = []\<rparr>"

abbreviation NUL :: char where
  "NUL \<equiv> CHR 0x00"

text \<open>\<open>Scope.FP\<close>: 8 hexadecimal digits of the hash of the NUL-separated pins.\<close>

definition scope_preimage :: "scope \<Rightarrow> string" where
  "scope_preimage s = sc_team s @ [NUL] @ sc_account s @ [NUL] @ sc_organization s"

definition FP :: "scope \<Rightarrow> string" where
  "FP s = (if s = no_scope then [] else hex_encode (take 4 (sha256 (scope_preimage s))))"

record credential =
  cr_token :: string
  cr_team :: string
  cr_account :: string
  cr_organization :: string

definition cred_scope :: "credential \<Rightarrow> scope" where
  "cred_scope c = \<lparr>sc_team = cr_team c, sc_account = cr_account c, sc_organization = cr_organization c\<rparr>"

record discovery =
  d_exists :: bool
  d_url :: string

record spec =
  sp_project :: string
  sp_source :: string
  sp_version :: string
  sp_token :: string

record result =
  res_project :: string
  res_externalID :: string
  res_url :: string

section \<open>The project slug\<close>

definition maxProjectName :: nat where
  "maxProjectName = 40"

text \<open>
  The loop of \<open>ProjectName\<close>, on bytes: a rune outside ASCII is a run of bytes none of
  which is a slug character, and a run collapses into one dash as the rune does.
\<close>

fun slug_loop :: "bool \<Rightarrow> string \<Rightarrow> string" where
  "slug_loop prevDash [] = []"
| "slug_loop prevDash (c # s) =
     (if is_lower c \<or> is_digit c then c # slug_loop False s
      else if \<not> prevDash then CHR ''-'' # slug_loop True s
      else slug_loop prevDash s)"

definition ProjectName :: "string \<Rightarrow> string" where
  "ProjectName name =
    (let slug = trim_right_byte (CHR ''-'') (slug_loop True (go_to_lower name));
         slug = (if length slug > maxProjectName
                 then trim_right_byte (CHR ''-'') (take maxProjectName slug) else slug)
     in if slug = [] then ''relay'' else slug)"

section \<open>Probe answers\<close>

record probe_answer =
  pa_version :: string
  pa_status :: int
  pa_marker :: string

definition Suspended :: "probe_answer \<Rightarrow> bool" where
  "Suspended a \<longleftrightarrow>
     (if pa_marker a \<noteq> [] \<and> contains (pa_marker a) ''DEPLOYMENT_DISABLED'' then True
      else pa_status a = 402)"

record forward_answer =
  fa_status :: int
  fa_json :: bool

text \<open>Errors of the platform calls, as far as the callers tell them apart.\<close>

datatype deploy_error = ErrCredentials | ErrAmbiguousScope | ErrOther string

section \<open>Slugs are platform-safe\<close>

definition slug_char :: "char \<Rightarrow> bool" where
  "slug_char c \<longleftrightarrow> is_lower c \<or> is_digit c"

text \<open>Slug characters separated by single dashes; \<open>pd\<close> says whether a dash came before.\<close>

fun dashed :: "bool \<Rightarrow> string \<Rightarrow> bool" where
  "dashed pd [] = True"
| "dashed pd (c # s) =
     (if c = CHR ''-'' then \<not> pd \<and> dashed True s else slug_char c \<and> dashed False s)"

definition slug_ok :: "string \<Rightarrow> bool" where
  "slug_ok s \<longleftrightarrow> s \<noteq> [] \<and> length s \<le> maxProjectName \<and> dashed True s \<and> last s \<noteq> CHR ''-''"

lemma slug_char_not_dash: "slug_char c \<Longrightarrow> c \<noteq> CHR ''-''"
  by (auto simp: slug_char_def is_lower_def is_digit_def)

lemma dashed_slug_loop: "dashed pd (slug_loop pd s)"
  by (induction s arbitrary: pd) (auto simp: slug_char_def is_lower_def is_digit_def)

lemma dashed_append: "dashed pd (s @ t) \<Longrightarrow> dashed pd s"
  by (induction s arbitrary: pd) (auto split: if_splits)

lemma dashed_take: "dashed pd s \<Longrightarrow> dashed pd (take n s)"
  by (rule dashed_append [of pd "take n s" "drop n s"]) simp

lemma trim_right_prefix: "\<exists>t. s = trim_right_byte c s @ t \<and> set t \<subseteq> {c}"
proof -
  let ?d = "dropWhile (\<lambda>d. d = c) (rev s)" and ?t = "takeWhile (\<lambda>d. d = c) (rev s)"
  have "s = rev (?t @ ?d)" by simp
  then have "s = rev ?d @ rev ?t" by (simp only: rev_append)
  moreover have "set (rev ?t) \<subseteq> {c}" by (auto dest: set_takeWhileD)
  ultimately show ?thesis unfolding trim_right_byte_def by blast
qed

lemma dashed_trim: "dashed pd s \<Longrightarrow> dashed pd (trim_right_byte c s)"
  by (metis trim_right_prefix dashed_append)

lemma trim_right_last: "trim_right_byte c s \<noteq> [] \<Longrightarrow> last (trim_right_byte c s) \<noteq> c"
  unfolding trim_right_byte_def by (metis (mono_tags) hd_dropWhile last_rev rev_is_Nil_conv)

lemma trim_right_length: "length (trim_right_byte c s) \<le> length s"
  by (metis trim_right_prefix le_add1 length_append)

lemma ProjectName_slug: "slug_ok (ProjectName name)"
proof -
  define s where "s = trim_right_byte (CHR ''-'') (slug_loop True (go_to_lower name))"
  define t where "t = (if length s > maxProjectName
                       then trim_right_byte (CHR ''-'') (take maxProjectName s) else s)"
  have s: "dashed True s" unfolding s_def by (intro dashed_trim dashed_slug_loop)
  have "dashed True t" using s by (auto simp: t_def dashed_trim dashed_take)
  moreover have "length t \<le> maxProjectName"
    using trim_right_length [of "CHR ''-''" "take maxProjectName s"] by (auto simp: t_def)
  moreover have "t \<noteq> [] \<Longrightarrow> last t \<noteq> CHR ''-''"
    unfolding t_def s_def by (auto dest: trim_right_last)
  moreover have "slug_ok ''relay''" by code_simp
  ultimately show ?thesis
    by (simp add: ProjectName_def slug_ok_def flip: s_def t_def)
qed

text \<open>
  Every relay name yields a slug all platforms accept: not empty, at most 40 bytes,
  lowercase letters and digits separated by single dashes, no dash at either end.
\<close>

theorem ProjectName_ok: "slug_ok (ProjectName name)"
  by (rule ProjectName_slug)

lemma slug_char_lower: "slug_char c \<Longrightarrow> lower_byte c = c \<and> byte c < 128"
  by (auto simp: slug_char_def is_lower_def is_digit_def lower_byte_def is_upper_def)

lemma dashed_lower: "dashed pd s \<Longrightarrow> go_to_lower s = s"
proof (induction s arbitrary: pd)
  case Nil
  then show ?case by simp
next
  case (Cons c s)
  have "byte c < 128 \<and> lower_byte c = c"
  proof (cases "c = CHR ''-''")
    case True
    then show ?thesis by (simp add: lower_byte_def is_upper_def)
  next
    case False
    with Cons.prems show ?thesis using slug_char_lower [of c] by simp
  qed
  with Cons show ?case by (auto split: if_splits)
qed

lemma dashed_loop_id: "dashed pd s \<Longrightarrow> slug_loop pd s = s"
  by (induction s arbitrary: pd)
     (auto simp: slug_char_def is_lower_def is_digit_def split: if_splits)

lemma trim_right_id: "s = [] \<or> last s \<noteq> c \<Longrightarrow> trim_right_byte c s = s"
  by (cases s rule: rev_cases) (auto simp: trim_right_byte_def)

text \<open>
  A slug is its own slug: looking a relay up under the name of its project, or
  deriving the name twice, addresses the same project.
\<close>

theorem ProjectName_idem: "ProjectName (ProjectName name) = ProjectName name"
proof -
  have ok: "slug_ok (ProjectName name)" by (rule ProjectName_slug)
  then have "slug_loop True (go_to_lower (ProjectName name)) = ProjectName name"
    by (simp add: slug_ok_def dashed_lower [of True] dashed_loop_id)
  with ok show ?thesis
    by (simp add: ProjectName_def [of "ProjectName name"] slug_ok_def trim_right_id)
qed

section \<open>Fingerprints and key order\<close>

lemma FP_length: "FP s = [] \<longleftrightarrow> s = no_scope"
  using hex_encode_length [of "take 4 (sha256 (scope_preimage s))"]
  by (auto simp: FP_def sha256_length)

lemma nul_split:
  "NUL \<notin> set a \<Longrightarrow> NUL \<notin> set b \<Longrightarrow> a @ [NUL] @ x = b @ [NUL] @ y \<Longrightarrow> a = b \<and> x = y"
proof (induction a arbitrary: b)
  case Nil
  then show ?case by (cases b) auto
next
  case (Cons c a)
  then show ?case by (cases b) auto
qed

text \<open>A NUL in a team pin gives the preimage of another scope.\<close>

lemma nul_pin_collides:
  "scope_preimage \<lparr>sc_team = a @ [NUL] @ b, sc_account = c, sc_organization = d\<rparr>
     = scope_preimage \<lparr>sc_team = a, sc_account = b, sc_organization = c @ [NUL] @ d\<rparr>"
  by (simp add: scope_preimage_def)

text \<open>The pins that a platform's own relays may have.\<close>

definition pins_only :: "string \<Rightarrow> scope \<Rightarrow> bool" where
  "pins_only p s \<longleftrightarrow> (p \<noteq> PlatformVercel \<longrightarrow> sc_team s = []) \<and> (p \<noteq> PlatformCloudflare \<longrightarrow> sc_account s = [])
     \<and> (p \<noteq> PlatformDeno \<longrightarrow> sc_organization s = [])"

definition nul_free :: "scope \<Rightarrow> bool" where
  "nul_free s \<longleftrightarrow> NUL \<notin> set (sc_team s @ sc_account s)"

lemma nul_free_inj:
  assumes "nul_free s" and "nul_free t" and "scope_preimage s = scope_preimage t"
  shows "s = t"
proof -
  from assms(3) have "sc_team s @ [NUL] @ (sc_account s @ [NUL] @ sc_organization s)
      = sc_team t @ [NUL] @ (sc_account t @ [NUL] @ sc_organization t)"
    by (simp add: scope_preimage_def)
  from nul_split [OF _ _ this] assms(1,2) have "sc_team s = sc_team t"
    and rest: "sc_account s @ [NUL] @ sc_organization s = sc_account t @ [NUL] @ sc_organization t"
    by (auto simp: nul_free_def)
  moreover from nul_split [OF _ _ rest] assms(1,2)
  have "sc_account s = sc_account t" and "sc_organization s = sc_organization t" by (auto simp: nul_free_def)
  ultimately show ?thesis by simp
qed

lemma pins_only_inj:
  assumes "pins_only p s" and "pins_only p t" and "scope_preimage s = scope_preimage t"
  shows "s = t"
  using assms by (auto simp: pins_only_def scope_preimage_def platform_defs split: if_splits)

text \<open>
  C33. The fingerprint's preimage determines the scope, so two scopes can only share a fingerprint
  through a hash collision, in each of two cases: no team or account pin of either contains a NUL
  byte; or both have only the pins of one and the same platform, as all relays of an accepted
  configuration that share a platform do, whatever bytes those contain. Outside these cases it
  does not (\<open>nul_pin_collides\<close>). The fingerprint is empty exactly for the scope that pins nothing.
\<close>

theorem scope_preimage_inj:
  assumes "nul_free s \<and> nul_free t \<or> (\<exists>p. pins_only p s \<and> pins_only p t)"
    and "scope_preimage s = scope_preimage t"
  shows "s = t \<and> (FP s = [] \<longleftrightarrow> s = no_scope)"
  using assms nul_free_inj pins_only_inj FP_length by blast

theorem scope_preimage_inj_witness:
  "scope_preimage \<lparr>sc_team = ''a'', sc_account = ''b'', sc_organization = []\<rparr>
     \<noteq> scope_preimage \<lparr>sc_team = ''a'', sc_account = [], sc_organization = ''b''\<rparr>
   \<and> scope_preimage \<lparr>sc_team = [CHR ''a'', NUL], sc_account = [], sc_organization = []\<rparr>
     \<noteq> scope_preimage \<lparr>sc_team = ''a'', sc_account = [], sc_organization = []\<rparr>"
proof -
  have "nul_free \<lparr>sc_team = ''a'', sc_account = ''b'', sc_organization = []\<rparr>"
    "nul_free \<lparr>sc_team = ''a'', sc_account = [], sc_organization = ''b''\<rparr>"
    by (simp_all add: nul_free_def)
  moreover have "pins_only PlatformVercel \<lparr>sc_team = x, sc_account = [], sc_organization = []\<rparr>" for x
    by (simp add: pins_only_def)
  ultimately show ?thesis
    using scope_preimage_inj [of "\<lparr>sc_team = ''a'', sc_account = ''b'', sc_organization = []\<rparr>"
        "\<lparr>sc_team = ''a'', sc_account = [], sc_organization = ''b''\<rparr>"]
      scope_preimage_inj [of "\<lparr>sc_team = [CHR ''a'', NUL], sc_account = [], sc_organization = []\<rparr>"
        "\<lparr>sc_team = ''a'', sc_account = [], sc_organization = []\<rparr>"]
    by auto
qed

lemma key_string_less:
  assumes "key_provider k \<in> set Platforms" and "key_provider k' \<in> set Platforms"
  shows "key_string k < key_string k' \<longleftrightarrow> k < k'"
  using assms by (auto simp: platform_defs key_string_def less_relay_key_def less_char_def)

text \<open>
  On the hard-coded platforms the order of the rendered keys is the order by
  provider, then name, and rendering loses nothing: the snapshots sorted by
  \<open>Key.String()\<close> are sorted by (provider, name).
\<close>

theorem key_string_order:
  assumes "key_provider k \<in> set Platforms" and "key_provider k' \<in> set Platforms"
  shows "(key_string k < key_string k' \<longleftrightarrow> k < k') \<and> (key_string k = key_string k' \<longleftrightarrow> k = k')"
  using key_string_less [OF assms] key_string_less [OF assms(2,1)]
  by (metis less_irrefl neq_iff)

theorem key_string_order_witness:
  "key_string (RelayKey ''cloudflare'' ''z'') < key_string (RelayKey ''deno'' ''a'')"
  using key_string_order [of "RelayKey ''cloudflare'' ''z''" "RelayKey ''deno'' ''a''"]
  by (simp add: platform_defs less_relay_key_def less_char_def)

end
