(* ===== verification/Config.thy ===== *)
theory Config
  imports Deploy_Identity Prelude
begin

text \<open>
  \<open>internal/config/config.go\<close>: the desired-state file and the bootstrap environment. The
  environment (\<open>os.LookupEnv\<close>) is a function from names to values, a secret file
  (\<open>os.ReadFile\<close>) a function from paths to contents; the YAML decoder is not part of the
  repository, so \<open>parse\<close> takes the decoded file. Errors are values of a datatype, one
  constructor per message.
\<close>

section \<open>Data\<close>

record cfg_relay =
  rl_name :: string
  rl_provider :: string
  rl_token :: string
  rl_tokenFile :: string
  rl_team :: string
  rl_account :: string
  rl_organization :: string

record cfg_settings =
  se_logLevel :: string
  se_maxRetries :: int
  se_failureThreshold :: int
  se_cooldown :: duration
  se_streamThresholdBytes :: int
  se_dialTimeout :: duration
  se_responseHeaderTimeout :: duration
  se_verifyInterval :: duration
  se_reviveScanInterval :: duration
  se_verifyBackoffBase :: duration
  se_verifyBackoffMax :: duration
  se_verifyRecoverMax :: duration
  se_verifyDemoteAfter :: int

definition defaultSettings :: cfg_settings where
  "defaultSettings =
     \<lparr>se_logLevel = ''info'', se_maxRetries = 2, se_failureThreshold = 3, se_cooldown = 30 * second,
      se_streamThresholdBytes = 0, se_dialTimeout = 5 * second, se_responseHeaderTimeout = 0,
      se_verifyInterval = 60 * second, se_reviveScanInterval = 10 * 60 * second,
      se_verifyBackoffBase = 5 * second, se_verifyBackoffMax = 5 * 60 * second,
      se_verifyRecoverMax = 15 * second, se_verifyDemoteAfter = 3\<rparr>"

record config =
  cf_relays :: "cfg_relay list"
  cf_settings :: cfg_settings

record file_relay =
  fr_name :: string
  fr_provider :: string
  fr_token :: string
  fr_tokenFile :: string
  fr_team :: string
  fr_account :: string
  fr_organization :: string

record file_settings =
  fs_logLevel :: "string option"
  fs_maxRetries :: "int option"
  fs_failureThreshold :: "int option"
  fs_cooldown :: "string option"
  fs_streamThresholdBytes :: "int option"
  fs_dialTimeout :: "string option"
  fs_responseHeaderTimeout :: "string option"
  fs_verifyInterval :: "string option"
  fs_reviveScanInterval :: "string option"
  fs_verifyBackoffBase :: "string option"
  fs_verifyBackoffMax :: "string option"
  fs_verifyRecoverMax :: "string option"
  fs_verifyDemoteAfter :: "int option"

record file_config =
  fc_settings :: file_settings
  fc_relays :: "file_relay list"

datatype cfg_error =
    NameRequired | NameTooLong | BadProvider string
  | TeamMisplaced string | AccountMisplaced string | OrganizationMisplaced string
  | TokenAndFile | TokenBlank | CredentialRequired
  | OrganizationBlank | OrganizationNotUUID string
  | UnclosedRef nat | EmptyRef nat | UnsetVar string
  | BadLogLevel string | BadDuration string string | OutOfRange string
  | Settings "cfg_error list"
  | InRelay nat cfg_error | DuplicateName nat string nat | SlugClash nat string string string
  | Undecodable
  | ReadFailed string | SecretEmpty string | NoCredential string
  | ConfigFileEmpty | GraceNotDuration string | GraceNotPositive duration
  | KeyBlank | KeyNotExactlyOne | BadListenAddr string

section \<open>Environment references\<close>

text \<open>\<open>interpolate\<close>: the value of a reference is not scanned again.\<close>

function interpolate :: "(string \<Rightarrow> string option) \<Rightarrow> string \<Rightarrow> cfg_error + string" where
  "interpolate env s =
     (case index_of ''${'' s of
        None \<Rightarrow> Inr s
      | Some start \<Rightarrow>
          (case index_of ''}'' (drop start s) of
             None \<Rightarrow> Inl (UnclosedRef (length s))
           | Some stop \<Rightarrow>
               (let name = drop (start + 2) (take (start + stop) s) in
                if name = [] then Inl (EmptyRef (length s))
                else (case env name of
                        None \<Rightarrow> Inl (UnsetVar name)
                      | Some value \<Rightarrow>
                          if value = [] then Inl (UnsetVar name)
                          else (case interpolate env (drop (start + stop + 1) s) of
                                  Inl e \<Rightarrow> Inl e
                                | Inr rest \<Rightarrow> Inr (take start s @ value @ rest))))))"
  by pat_completeness auto
termination
proof (relation "measure (\<lambda>(env, s). length s)")
  fix env :: "string \<Rightarrow> string option" and s :: string and start stop name val
  assume "index_of ''${'' s = Some start"
  then have "s \<noteq> []" by auto
  then show "((env, drop (start + stop + 1) s), env, s) \<in> measure (\<lambda>(env, s). length s)" by simp
qed simp

declare interpolate.simps [simp del]

definition is_hex :: "char \<Rightarrow> bool" where
  "is_hex c \<longleftrightarrow> is_digit c \<or> 97 \<le> byte c \<and> byte c \<le> 102 \<or> 65 \<le> byte c \<and> byte c \<le> 70"

definition validUUID :: "string \<Rightarrow> bool" where
  "validUUID s \<longleftrightarrow>
     length s = 36
     \<and> list_all (\<lambda>i. if i \<in> {8, 13, 18, 23} then s ! i = CHR ''-'' else is_hex (s ! i)) [0..<36]"

section \<open>One relay\<close>

definition resolve_token ::
    "(string \<Rightarrow> string option) \<Rightarrow> string \<Rightarrow> string \<Rightarrow> cfg_error + string" where
  "resolve_token env token tokenFile =
     (if token \<noteq> [] \<and> tokenFile \<noteq> [] then Inl TokenAndFile
      else if token \<noteq> [] then
        (case interpolate env token of
           Inl e \<Rightarrow> Inl e
         | Inr v \<Rightarrow> (let t = trim_space v in if t = [] then Inl TokenBlank else Inr t))
      else if tokenFile \<noteq> [] then Inr []
      else Inl CredentialRequired)"

definition resolve_organization :: "(string \<Rightarrow> string option) \<Rightarrow> string \<Rightarrow> cfg_error + string" where
  "resolve_organization env organization =
     (if organization \<noteq> [] then
        (case interpolate env organization of
           Inl e \<Rightarrow> Inl e
         | Inr v \<Rightarrow> (let org = trim_space v in
                    if org = [] then Inl OrganizationBlank
                    else if \<not> validUUID org then Inl (OrganizationNotUUID org)
                    else Inr org))
      else Inr [])"

definition resolve_relay :: "(string \<Rightarrow> string option) \<Rightarrow> file_relay \<Rightarrow> cfg_error + cfg_relay" where
  "resolve_relay env fr =
    (let name = trim_space (fr_name fr);
         provider = go_to_lower (trim_space (fr_provider fr));
         team = trim_space (fr_team fr);
         account = trim_space (fr_account fr);
         organization = trim_space (fr_organization fr);
         tokenFile = trim_space (fr_tokenFile fr)
     in if name = [] then Inl NameRequired
        else if length name > 128 then Inl NameTooLong
        else if \<not> (provider = PlatformVercel \<or> provider = PlatformCloudflare \<or> provider = PlatformDeno)
          then Inl (BadProvider provider)
        else if provider \<noteq> PlatformVercel \<and> team \<noteq> [] then Inl (TeamMisplaced provider)
        else if provider \<noteq> PlatformCloudflare \<and> account \<noteq> [] then Inl (AccountMisplaced provider)
        else if provider \<noteq> PlatformDeno \<and> organization \<noteq> [] then Inl (OrganizationMisplaced provider)
        else (case resolve_token env (fr_token fr) tokenFile of
                Inl e \<Rightarrow> Inl e
              | Inr token \<Rightarrow>
                  (case resolve_organization env organization of
                     Inl e \<Rightarrow> Inl e
                   | Inr org \<Rightarrow>
                       Inr \<lparr>rl_name = name, rl_provider = provider, rl_token = token,
                            rl_tokenFile = tokenFile, rl_team = team, rl_account = account,
                            rl_organization = org\<rparr>)))"

definition relay_scope :: "cfg_relay \<Rightarrow> scope" where
  "relay_scope r =
     \<lparr>sc_team = rl_team r, sc_account = rl_account r, sc_organization = rl_organization r\<rparr>"

definition readSecretFile :: "(string \<Rightarrow> string option) \<Rightarrow> string \<Rightarrow> cfg_error + string" where
  "readSecretFile files path =
     (case files path of
        None \<Rightarrow> Inl (ReadFailed path)
      | Some raw \<Rightarrow> (let key = trim_space raw in if key = [] then Inl (SecretEmpty path) else Inr key))"

definition ResolveToken :: "(string \<Rightarrow> string option) \<Rightarrow> cfg_relay \<Rightarrow> cfg_error + string" where
  "ResolveToken files r =
     (if rl_tokenFile r \<noteq> [] then readSecretFile files (rl_tokenFile r)
      else if rl_token r = [] then Inl (NoCredential (rl_name r))
      else Inr (rl_token r))"

section \<open>The settings block\<close>

text \<open>
  \<open>time.ParseDuration\<close> of the standard library, in exact arithmetic: where Go multiplies a
  decimal fraction by its unit in floating point, this takes the integer part of the
  exact product. Both agree whenever that product is a whole number of nanoseconds.
\<close>

definition digit_val :: "char \<Rightarrow> int" where
  "digit_val c = int (byte c) - 48"

fun leading_int :: "int \<Rightarrow> string \<Rightarrow> (int \<times> string) option" where
  "leading_int x [] = Some (x, [])"
| "leading_int x (c # s) =
     (if \<not> is_digit c then Some (x, c # s)
      else if x > 2 ^ 63 div 10 then None
      else if x * 10 + digit_val c > 2 ^ 63 then None
      else leading_int (x * 10 + digit_val c) s)"

fun leading_fraction :: "bool \<Rightarrow> int \<Rightarrow> int \<Rightarrow> string \<Rightarrow> int \<times> int \<times> string" where
  "leading_fraction ovf x scale [] = (x, scale, [])"
| "leading_fraction ovf x scale (c # s) =
     (if \<not> is_digit c then (x, scale, c # s)
      else if ovf \<or> x > (2 ^ 63 - 1) div 10 \<or> x * 10 + digit_val c > 2 ^ 63
        then leading_fraction True x scale s
      else leading_fraction False (x * 10 + digit_val c) (scale * 10) s)"

definition unit_of :: "string \<Rightarrow> int option" where
  "unit_of u =
     (if u = ''ns'' then Some 1
      else if u = ''us'' \<or> u = [CHR 0xC2, CHR 0xB5, CHR ''s''] \<or> u = [CHR 0xCE, CHR 0xBC, CHR ''s'']
        then Some 1000
      else if u = ''ms'' then Some 1000000
      else if u = ''s'' then Some 1000000000
      else if u = ''m'' then Some (60 * 1000000000)
      else if u = ''h'' then Some (3600 * 1000000000)
      else None)"

text \<open>One \<open>number unit\<close> group: its nanoseconds and the rest of the string.\<close>

definition duration_group :: "string \<Rightarrow> (int \<times> string) option" where
  "duration_group s =
    (case leading_int 0 s of
       None \<Rightarrow> None
     | Some (v, s1) \<Rightarrow>
         (let pre = (length s1 \<noteq> length s);
              dot = (s1 \<noteq> [] \<and> hd s1 = CHR ''.'');
              (f, scale, s2) = (if dot then leading_fraction False 0 1 (tl s1) else (0, 1, s1));
              post = (dot \<and> length s2 \<noteq> length (tl s1));
              u = takeWhile (\<lambda>c. c \<noteq> CHR ''.'' \<and> \<not> is_digit c) s2;
              s3 = drop (length u) s2
          in if \<not> pre \<and> \<not> post then None
             else if u = [] then None
             else (case unit_of u of
                     None \<Rightarrow> None
                   | Some un \<Rightarrow>
                       if v > 2 ^ 63 div un then None
                       else (let w = v * un + f * un div scale
                             in if w > 2 ^ 63 then None else Some (w, s3)))))"

lemma leading_int_length: "leading_int x s = Some (v, s') \<Longrightarrow> length s' \<le> length s"
  by (induction x s rule: leading_int.induct) (auto split: if_splits)

lemma leading_fraction_length: "leading_fraction b x sc s = (v, sc', s') \<Longrightarrow> length s' \<le> length s"
  by (induction b x sc s rule: leading_fraction.induct) (auto split: if_splits)

lemma duration_group_length: "duration_group s = Some (w, s') \<Longrightarrow> length s' < length s"
proof -
  assume d: "duration_group s = Some (w, s')"
  then obtain v s1 where li: "leading_int 0 s = Some (v, s1)"
    by (auto simp: duration_group_def split: option.splits)
  obtain f sc s2 where
    fr: "(if s1 \<noteq> [] \<and> hd s1 = CHR ''.'' then leading_fraction False 0 1 (tl s1) else (0, 1, s1)) = (f, sc, s2)"
    by (metis prod_cases3)
  then have s2: "length s2 \<le> length s1"
    by (cases s1) (auto split: if_splits dest: leading_fraction_length)
  let ?u = "takeWhile (\<lambda>c. c \<noteq> CHR ''.'' \<and> \<not> is_digit c) s2"
  from d li fr have u: "?u \<noteq> []" and s': "s' = drop (length ?u) s2"
    by (auto simp: duration_group_def Let_def split: if_splits option.splits)
  from u have "0 < length ?u" and "?u \<noteq> [] \<Longrightarrow> s2 \<noteq> []" by (simp, cases s2, auto)
  with u s' have "length s' < length s2" by simp
  with s2 leading_int_length [OF li] show ?thesis by linarith
qed

function duration_groups :: "int \<Rightarrow> string \<Rightarrow> int option" where
  "duration_groups d s =
     (if s = [] then Some d
      else if \<not> (hd s = CHR ''.'' \<or> is_digit (hd s)) then None
      else (case duration_group s of
              None \<Rightarrow> None
            | Some (w, s') \<Rightarrow> if d + w > 2 ^ 63 then None else duration_groups (d + w) s'))"
  by pat_completeness auto
termination
  by (relation "measure (\<lambda>(d, s). length s)") (auto dest: duration_group_length)

declare duration_groups.simps [simp del]

definition ParseDuration :: "string \<Rightarrow> duration option" where
  "ParseDuration s =
    (let neg = (s \<noteq> [] \<and> hd s = CHR ''-'');
         s1 = (if s \<noteq> [] \<and> (hd s = CHR ''-'' \<or> hd s = CHR ''+'') then tl s else s)
     in if s1 = ''0'' then Some 0
        else if s1 = [] then None
        else (case duration_groups 0 s1 of
                None \<Rightarrow> None
              | Some d \<Rightarrow> if neg then Some (- d) else if d > 2 ^ 63 - 1 then None else Some d))"

text \<open>The helpers of \<open>resolve\<close>: an absent key keeps the default, a bad one is collected.\<close>

definition dur_field :: "string \<Rightarrow> duration \<Rightarrow> string option \<Rightarrow> duration \<times> cfg_error list" where
  "dur_field what dflt raw =
     (case raw of
        None \<Rightarrow> (dflt, [])
      | Some v \<Rightarrow> (case ParseDuration v of
                    None \<Rightarrow> (dflt, [BadDuration what v])
                  | Some d \<Rightarrow> (d, [])))"

definition opt_field :: "'a \<Rightarrow> 'a option \<Rightarrow> 'a" where
  "opt_field dflt raw = (case raw of None \<Rightarrow> dflt | Some v \<Rightarrow> v)"

definition level_field :: "string option \<Rightarrow> string \<times> cfg_error list" where
  "level_field raw =
     (case raw of
        None \<Rightarrow> (se_logLevel defaultSettings, [])
      | Some v \<Rightarrow> (let level = go_to_lower (trim_space v) in
                   if level \<in> {''debug'', ''info'', ''warn'', ''error''} then (level, [])
                   else (se_logLevel defaultSettings, [BadLogLevel v])))"

definition check :: "bool \<Rightarrow> string \<Rightarrow> cfg_error list" where
  "check bad what = (if bad then [OutOfRange what] else [])"

text \<open>The range checks, in the order of the source.\<close>

definition settings_range :: "cfg_settings \<Rightarrow> cfg_error list" where
  "settings_range s =
     check (se_maxRetries s < 0 \<or> se_maxRetries s > 16) ''max_retries''
     @ check (se_failureThreshold s < 1) ''failure_threshold''
     @ check (se_cooldown s < 0) ''cooldown''
     @ check (se_streamThresholdBytes s < 0) ''stream_threshold_bytes''
     @ check (se_dialTimeout s \<le> 0) ''dial_timeout''
     @ check (se_responseHeaderTimeout s < 0) ''response_header_timeout''
     @ check (se_verifyInterval s \<le> 0) ''verify_interval''
     @ check (se_reviveScanInterval s \<le> 0) ''revive_scan_interval''
     @ check (se_verifyBackoffBase s \<le> 0 \<or> se_verifyBackoffMax s < se_verifyBackoffBase s)
         ''verify_backoff_base''
     @ check (se_verifyRecoverMax s \<le> 0) ''verify_recover_max''
     @ check (se_verifyDemoteAfter s < 1) ''verify_demote_after''"

definition resolve_settings :: "file_settings \<Rightarrow> cfg_error list + cfg_settings" where
  "resolve_settings fs =
    (let d = defaultSettings;
         (level, e0) = level_field (fs_logLevel fs);
         (cooldown, e1) = dur_field ''cooldown'' (se_cooldown d) (fs_cooldown fs);
         (dial, e2) = dur_field ''dial_timeout'' (se_dialTimeout d) (fs_dialTimeout fs);
         (header, e3) = dur_field ''response_header_timeout'' (se_responseHeaderTimeout d)
                          (fs_responseHeaderTimeout fs);
         (interval, e4) = dur_field ''verify_interval'' (se_verifyInterval d) (fs_verifyInterval fs);
         (revive, e5) = dur_field ''revive_scan_interval'' (se_reviveScanInterval d)
                          (fs_reviveScanInterval fs);
         (base, e6) = dur_field ''verify_backoff_base'' (se_verifyBackoffBase d) (fs_verifyBackoffBase fs);
         (bmax, e7) = dur_field ''verify_backoff_max'' (se_verifyBackoffMax d) (fs_verifyBackoffMax fs);
         (rmax, e8) = dur_field ''verify_recover_max'' (se_verifyRecoverMax d) (fs_verifyRecoverMax fs);
         s = \<lparr>se_logLevel = level,
              se_maxRetries = opt_field (se_maxRetries d) (fs_maxRetries fs),
              se_failureThreshold = opt_field (se_failureThreshold d) (fs_failureThreshold fs),
              se_cooldown = cooldown,
              se_streamThresholdBytes = opt_field (se_streamThresholdBytes d) (fs_streamThresholdBytes fs),
              se_dialTimeout = dial, se_responseHeaderTimeout = header, se_verifyInterval = interval,
              se_reviveScanInterval = revive, se_verifyBackoffBase = base, se_verifyBackoffMax = bmax,
              se_verifyRecoverMax = rmax,
              se_verifyDemoteAfter = opt_field (se_verifyDemoteAfter d) (fs_verifyDemoteAfter fs)\<rparr>;
         errs = e0 @ e1 @ e2 @ e3 @ e4 @ e5 @ e6 @ e7 @ e8 @ settings_range s
     in if errs \<noteq> [] then Inl errs else Inr s)"

section \<open>The whole file\<close>

definition slug_key :: "cfg_relay \<Rightarrow> string" where
  "slug_key r = rl_provider r @ ''/'' @ ProjectName (rl_name r)"

text \<open>
  The loop of \<open>parse\<close> from index \<open>i\<close>: \<open>seen\<close> and \<open>slugs\<close> are its two maps.
\<close>

fun parse_relays ::
    "(string \<Rightarrow> string option) \<Rightarrow> nat \<Rightarrow> (string \<rightharpoonup> nat) \<Rightarrow> (string \<rightharpoonup> string) \<Rightarrow> file_relay list
      \<Rightarrow> cfg_error + cfg_relay list" where
  "parse_relays env i seen slugs [] = Inr []"
| "parse_relays env i seen slugs (fr # frs) =
     (case resolve_relay env fr of
        Inl e \<Rightarrow> Inl (InRelay i e)
      | Inr r \<Rightarrow>
          (case seen (rl_name r) of
             Some prev \<Rightarrow> Inl (DuplicateName i (rl_name r) prev)
           | None \<Rightarrow>
               (case slugs (slug_key r) of
                  Some prev \<Rightarrow> Inl (SlugClash i prev (rl_name r) (rl_provider r))
                | None \<Rightarrow>
                    (case parse_relays env (i + 1) (seen(rl_name r \<mapsto> i))
                            (slugs(slug_key r \<mapsto> rl_name r)) frs of
                       Inl e \<Rightarrow> Inl e
                     | Inr rs \<Rightarrow> Inr (r # rs)))))"

text \<open>\<open>decoded\<close> is what the YAML decoder (with \<open>KnownFields\<close>) answers.\<close>

definition parse :: "(string \<Rightarrow> string option) \<Rightarrow> file_config option \<Rightarrow> cfg_error + config" where
  "parse env decoded =
     (case decoded of
        None \<Rightarrow> Inl Undecodable
      | Some fc \<Rightarrow>
          (case resolve_settings (fc_settings fc) of
             Inl es \<Rightarrow> Inl (Settings es)
           | Inr s \<Rightarrow>
               (case parse_relays env 0 Map.empty Map.empty (fc_relays fc) of
                  Inl e \<Rightarrow> Inl e
                | Inr rs \<Rightarrow> Inr \<lparr>cf_relays = rs, cf_settings = s\<rparr>)))"

definition Load ::
    "(string \<Rightarrow> string option) \<Rightarrow> (string \<Rightarrow> string option) \<Rightarrow> (string \<Rightarrow> file_config option) \<Rightarrow> string
      \<Rightarrow> cfg_error + config" where
  "Load env files decode path =
     (case files path of None \<Rightarrow> Inl (ReadFailed path) | Some raw \<Rightarrow> parse env (decode raw))"

definition relay_key_of :: "cfg_relay \<Rightarrow> relay_key" where
  "relay_key_of r = RelayKey (rl_provider r) (rl_name r)"

definition Keys :: "config \<Rightarrow> relay_key list" where
  "Keys c = map relay_key_of (cf_relays c)"

definition Relay :: "config \<Rightarrow> string \<Rightarrow> string \<Rightarrow> cfg_relay option" where
  "Relay c provider name = List.find (\<lambda>r. rl_provider r = provider \<and> rl_name r = name) (cf_relays c)"

section \<open>Bootstrap\<close>

record bootstrap =
  bs_listenAddr :: string
  bs_configFile :: string
  bs_shutdownGrace :: duration
  bs_relayKey :: string
  bs_relayKeyFile :: string

definition envStr :: "(string \<Rightarrow> string option) \<Rightarrow> string \<Rightarrow> string \<Rightarrow> string" where
  "envStr env key dflt = (case env key of Some v \<Rightarrow> if v \<noteq> [] then v else dflt | None \<Rightarrow> dflt)"

definition valid_label :: "string \<Rightarrow> bool" where
  "valid_label l \<longleftrightarrow>
     l \<noteq> [] \<and> length l \<le> 63 \<and> hd l \<noteq> CHR ''-'' \<and> last l \<noteq> CHR ''-''
     \<and> list_all (\<lambda>c. is_lower c \<or> is_upper c \<or> is_digit c \<or> c = CHR ''-'') l"

definition validListenerHostname :: "string \<Rightarrow> bool" where
  "validListenerHostname host \<longleftrightarrow>
     \<not> (length host > 253 \<or> has_prefix ''.'' host \<or> has_suffix ''.'' host)
     \<and> list_all valid_label (split_byte (CHR ''.'') host)"

text \<open>
  \<open>validate\<close> collects every problem. \<open>addr_error\<close> is the verdict of
  \<open>validateListenAddr\<close> on the listen address.
\<close>

definition validate :: "(string \<Rightarrow> cfg_error option) \<Rightarrow> bootstrap \<Rightarrow> cfg_error list" where
  "validate addr_error c =
    (let key = trim_space (bs_relayKey c) in
     (if bs_configFile c = [] then [ConfigFileEmpty] else [])
     @ (if bs_shutdownGrace c \<le> 0 then [GraceNotPositive (bs_shutdownGrace c)] else [])
     @ (if bs_relayKey c \<noteq> [] \<and> key = [] then [KeyBlank]
        else if (key = []) = (bs_relayKeyFile c = []) then [KeyNotExactlyOne] else [])
     @ (case addr_error (bs_listenAddr c) of None \<Rightarrow> [] | Some e \<Rightarrow> [e]))"

definition LoadBootstrap ::
    "(string \<Rightarrow> cfg_error option) \<Rightarrow> (string \<Rightarrow> string option) \<Rightarrow> cfg_error list + bootstrap" where
  "LoadBootstrap addr_error env =
    (let grace = (case env ''SHUTDOWN_GRACE'' of
                    None \<Rightarrow> Inr (20 * second)
                  | Some raw \<Rightarrow> if raw = [] then Inr (20 * second)
                                else (case ParseDuration raw of
                                        None \<Rightarrow> Inl (GraceNotDuration raw) | Some d \<Rightarrow> Inr d))
     in case grace of
          Inl e \<Rightarrow> Inl [e]
        | Inr g \<Rightarrow>
            (let c = \<lparr>bs_listenAddr = envStr env ''LISTEN_ADDR'' '':8080'',
                      bs_configFile = envStr env ''CONFIG_FILE'' ''config.yaml'',
                      bs_shutdownGrace = g,
                      bs_relayKey = envStr env ''RELAY_AUTH_TOKEN'' [],
                      bs_relayKeyFile = envStr env ''RELAY_AUTH_TOKEN_FILE'' []\<rparr>;
                 errs = validate addr_error c
             in if errs \<noteq> [] then Inl errs else Inr c))"

definition ResolveRelayKey :: "(string \<Rightarrow> string option) \<Rightarrow> bootstrap \<Rightarrow> cfg_error + string" where
  "ResolveRelayKey files c =
     (if bs_relayKeyFile c \<noteq> [] then readSecretFile files (bs_relayKeyFile c)
      else (let key = trim_space (bs_relayKey c) in if key = [] then Inl KeyBlank else Inr key))"

end
