(* ===== verification/Config_Properties.thy ===== *)
theory Config_Properties
  imports Config
begin

text \<open>
  What an accepted desired state guarantees: every relay is well formed, identities and
  project slugs are distinct, settings are in range; how \<open>${VAR}\<close> references expand; and
  that an accepted bootstrap environment always yields a relay key source.
\<close>

section \<open>Accepted relays\<close>

definition relay_ok :: "cfg_relay \<Rightarrow> bool" where
  "relay_ok r \<longleftrightarrow>
     rl_name r \<noteq> [] \<and> length (rl_name r) \<le> 128 \<and> rl_provider r \<in> set Platforms
     \<and> (rl_provider r \<noteq> PlatformVercel \<longrightarrow> rl_team r = [])
     \<and> (rl_provider r \<noteq> PlatformCloudflare \<longrightarrow> rl_account r = [])
     \<and> (rl_provider r \<noteq> PlatformDeno \<longrightarrow> rl_organization r = [])
     \<and> (rl_token r = []) = (rl_tokenFile r \<noteq> [])
     \<and> (rl_organization r \<noteq> [] \<longrightarrow> validUUID (rl_organization r))"

lemma resolve_token_ok:
  "resolve_token env token tokenFile = Inr t \<Longrightarrow> (t = []) = (tokenFile \<noteq> [])"
  by (auto simp: resolve_token_def Let_def split: if_splits sum.splits)

lemma resolve_organization_ok:
  "resolve_organization env s = Inr t \<Longrightarrow> (t \<noteq> [] \<longrightarrow> validUUID t) \<and> (s = [] \<longrightarrow> t = [])"
  by (auto simp: resolve_organization_def Let_def split: if_splits sum.splits)

lemma resolve_relay_ok: "resolve_relay env fr = Inr r \<Longrightarrow> relay_ok r"
  by (auto simp: resolve_relay_def Let_def relay_ok_def Platforms_def
      split: if_splits sum.splits dest: resolve_token_ok resolve_organization_ok)

text \<open>An accepted relay has the pins of its own platform only, so its scope's fingerprint is unambiguous there.\<close>

lemma relay_ok_pins:
  "relay_ok r \<Longrightarrow> pins_only (rl_provider r) (relay_scope r)"
  by (auto simp: relay_ok_def pins_only_def relay_scope_def)

lemma parse_relays_ok:
  "parse_relays env i seen slugs frs = Inr rs \<Longrightarrow>
     list_all relay_ok rs \<and> distinct (map rl_name rs) \<and> distinct (map slug_key rs)
     \<and> (\<forall>r \<in> set rs. seen (rl_name r) = None \<and> slugs (slug_key r) = None)"
proof (induction env i seen slugs frs arbitrary: rs rule: parse_relays.induct)
  case (1 env i seen slugs)
  then show ?case by simp
next
  case (2 env i seen slugs fr frs)
  from "2.prems" obtain r rs' where r: "resolve_relay env fr = Inr r"
    and fresh: "seen (rl_name r) = None" "slugs (slug_key r) = None"
    and rest: "parse_relays env (i + 1) (seen(rl_name r \<mapsto> i)) (slugs(slug_key r \<mapsto> rl_name r)) frs = Inr rs'"
    and rs: "rs = r # rs'"
    by (auto split: sum.splits option.splits)
  from "2.IH" [OF r fresh rest] resolve_relay_ok [OF r] fresh rs show ?case
    by (force split: if_splits)
qed

section \<open>Accepted settings\<close>

definition settings_ok :: "cfg_settings \<Rightarrow> bool" where
  "settings_ok s \<longleftrightarrow>
     se_logLevel s \<in> {''debug'', ''info'', ''warn'', ''error''}
     \<and> 0 \<le> se_maxRetries s \<and> se_maxRetries s \<le> 16 \<and> 1 \<le> se_failureThreshold s \<and> 0 \<le> se_cooldown s
     \<and> 0 \<le> se_streamThresholdBytes s \<and> 0 < se_dialTimeout s \<and> 0 \<le> se_responseHeaderTimeout s
     \<and> 0 < se_verifyInterval s \<and> 0 < se_reviveScanInterval s \<and> 0 < se_verifyBackoffBase s
     \<and> se_verifyBackoffBase s \<le> se_verifyBackoffMax s \<and> 0 < se_verifyRecoverMax s
     \<and> 1 \<le> se_verifyDemoteAfter s"

lemma defaults_ok: "settings_ok defaultSettings"
  by (simp add: settings_ok_def defaultSettings_def second_def)

lemma level_field_ok:
  "level_field raw = (l, []) \<Longrightarrow> l \<in> {''debug'', ''info'', ''warn'', ''error''}"
  by (auto simp: level_field_def defaultSettings_def Let_def split: option.splits if_splits)

lemma check_Nil [simp]: "check bad what = [] \<longleftrightarrow> \<not> bad"
  by (simp add: check_def)

lemma resolve_settings_ok: "resolve_settings fs = Inr s \<Longrightarrow> settings_ok s"
  unfolding resolve_settings_def Let_def
  by (auto simp: settings_ok_def settings_range_def split: if_splits prod.splits dest!: level_field_ok)

section \<open>Properties\<close>

text \<open>
  C32. Acceptance: a desired-state file that loads has only well-formed relays (bounded
  name, hard-coded provider, scope pins only on their own provider, exactly one credential
  source, a UUID organization), pairwise distinct names and project slugs, and settings in
  range; every relay is found again under its identity.
\<close>

theorem parse_accepts_valid:
  assumes "parse env decoded = Inr c"
  shows "list_all relay_ok (cf_relays c) \<and> distinct (map rl_name (cf_relays c))
    \<and> distinct (map slug_key (cf_relays c)) \<and> distinct (Keys c) \<and> settings_ok (cf_settings c)
    \<and> list_all (\<lambda>r. Relay c (rl_provider r) (rl_name r) = Some r) (cf_relays c)"
proof -
  obtain fc where fc: "decoded = Some fc" using assms by (cases decoded) (simp_all add: parse_def)
  obtain s where s: "resolve_settings (fc_settings fc) = Inr s"
    using assms fc by (cases "resolve_settings (fc_settings fc)") (simp_all add: parse_def)
  obtain rs where rs: "parse_relays env 0 Map.empty Map.empty (fc_relays fc) = Inr rs"
    using assms fc s
    by (cases "parse_relays env 0 Map.empty Map.empty (fc_relays fc)") (simp_all add: parse_def)
  have c: "c = \<lparr>cf_relays = rs, cf_settings = s\<rparr>"
    using assms by (simp add: parse_def fc s rs)
  note ok = parse_relays_ok [OF rs]
  have keys: "distinct (map relay_key_of rs)"
    using ok by (auto simp: distinct_map relay_key_of_def inj_on_def)
  have find: "List.find (\<lambda>r'. rl_provider r' = rl_provider r \<and> rl_name r' = rl_name r) rs = Some r"
    if "r \<in> set rs" for r
  proof -
    obtain i where i: "i < length rs" "rs ! i = r" using \<open>r \<in> set rs\<close> by (auto simp: in_set_conv_nth)
    have "rl_name (rs ! j) \<noteq> rl_name r" if "j < i" for j
      using nth_eq_iff_index_eq [of "map rl_name rs" j i] ok i that by auto
    with i show ?thesis by (auto simp: find_Some_iff)
  qed
  show ?thesis
    using ok keys find resolve_settings_ok [OF s]
    by (auto simp: c Keys_def Relay_def list_all_iff)
qed

definition w_file_relay :: "string \<Rightarrow> file_relay" where
  "w_file_relay name = \<lparr>fr_name = name, fr_provider = ''Vercel'', fr_token = ''${TOKEN}'',
     fr_tokenFile = [], fr_team = ''team_x'', fr_account = [], fr_organization = []\<rparr>"

definition w_file_settings :: file_settings where
  "w_file_settings = \<lparr>fs_logLevel = None, fs_maxRetries = Some 1, fs_failureThreshold = None,
     fs_cooldown = Some ''1m'', fs_streamThresholdBytes = None, fs_dialTimeout = None,
     fs_responseHeaderTimeout = None, fs_verifyInterval = None, fs_reviveScanInterval = None,
     fs_verifyBackoffBase = None, fs_verifyBackoffMax = None, fs_verifyRecoverMax = None,
     fs_verifyDemoteAfter = None\<rparr>"

definition w_env :: "string \<Rightarrow> string option" where
  "w_env n = (if n = ''TOKEN'' then Some '' t0k '' else None)"

definition w_config :: "cfg_error + config" where
  "w_config = parse w_env (Some \<lparr>fc_settings = w_file_settings, fc_relays = [w_file_relay '' edge one '']\<rparr>)"

lemma w_config_eq:
  "w_config = Inr \<lparr>cf_relays = [\<lparr>rl_name = ''edge one'', rl_provider = ''vercel'', rl_token = ''t0k'',
       rl_tokenFile = [], rl_team = ''team_x'', rl_account = [], rl_organization = []\<rparr>],
     cf_settings = defaultSettings\<lparr>se_maxRetries := 1, se_cooldown := 60 * second\<rparr>\<rparr>"
  by code_simp

theorem parse_accepts_valid_witness:
  "\<exists>c. w_config = Inr c \<and> list_all relay_ok (cf_relays c) \<and> length (cf_relays c) = 1
     \<and> settings_ok (cf_settings c)"
proof -
  obtain c where c: "w_config = Inr c" "length (cf_relays c) = 1" using w_config_eq by force
  from parse_accepts_valid [OF c(1) [unfolded w_config_def]] c show ?thesis by blast
qed

section \<open>Templates\<close>

text \<open>A credential template: literal text and references.\<close>

datatype piece = Text string | Ref string

fun render :: "piece list \<Rightarrow> string" where
  "render [] = []"
| "render (Text t # ps) = t @ render ps"
| "render (Ref n # ps) = ''${'' @ n @ ''}'' @ render ps"

fun expand :: "(string \<Rightarrow> string option) \<Rightarrow> piece list \<Rightarrow> string" where
  "expand env [] = []"
| "expand env (Text t # ps) = t @ expand env ps"
| "expand env (Ref n # ps) = (case env n of Some v \<Rightarrow> v | None \<Rightarrow> []) @ expand env ps"

text \<open>
  A template is well formed when its references are named and set and its literals hold no
  brace-dollar sequence; literals and references alternate, ending in a literal.
\<close>

fun template_ok :: "(string \<Rightarrow> string option) \<Rightarrow> piece list \<Rightarrow> bool" where
  "template_ok env [Text t] \<longleftrightarrow> \<not> contains t ''${''"
| "template_ok env (Text t # Ref n # ps) \<longleftrightarrow>
     \<not> contains t ''${'' \<and> n \<noteq> [] \<and> CHR ''}'' \<notin> set n
     \<and> (\<exists>v. env n = Some v \<and> v \<noteq> []) \<and> template_ok env ps"
| "template_ok env _ \<longleftrightarrow> False"

lemma index_of_cons: "index_of p (c # s) = (if has_prefix p (c # s) then Some 0 else map_option Suc (index_of p s))"
  by simp

lemma dollar_prefix: "has_prefix ''${'' (c # s) \<longleftrightarrow> c = CHR ''$'' \<and> s \<noteq> [] \<and> hd s = CHR ''{''"
  by (cases s) (auto simp: has_prefix_def)

lemma index_of_dollar:
  "\<not> contains t ''${'' \<Longrightarrow> index_of ''${'' (t @ ''${'' @ r) = Some (length t)"
proof (induction t)
  case Nil
  then show ?case by (simp add: has_prefix_def)
next
  case (Cons c t)
  then have "\<not> has_prefix ''${'' (c # t)" and "\<not> contains t ''${''"
    by (auto simp: contains_def split: if_splits)
  moreover from this have "\<not> has_prefix ''${'' (c # t @ ''${'' @ r)"
    by (cases t) (auto simp: dollar_prefix)
  ultimately show ?case using Cons.IH by simp
qed

lemma index_of_byte: "c \<notin> set n \<Longrightarrow> index_of [c] (n @ c # r) = Some (length n)"
  by (induction n) (auto simp: has_prefix_def)

lemma interpolate_ref:
  assumes "\<not> contains t ''${''" and "n \<noteq> []" and "CHR ''}'' \<notin> set n"
    and "env n = Some v" and "v \<noteq> []"
  shows "interpolate env (t @ ''${'' @ n @ ''}'' @ r)
    = (case interpolate env r of Inl e \<Rightarrow> Inl e | Inr rest \<Rightarrow> Inr (t @ v @ rest))"
proof -
  define s where "s = t @ ''${'' @ n @ ''}'' @ r"
  have i: "index_of ''${'' s = Some (length t)" using index_of_dollar [OF assms(1)] by (simp add: s_def)
  have j: "index_of ''}'' (drop (length t) s) = Some (length n + 2)"
    using index_of_byte [of "CHR ''}''" "''${'' @ n" r] assms(3) by (simp add: s_def)
  have parts: "drop (length t + 2) (take (length t + (length n + 2)) s) = n" "take (length t) s = t"
    "drop (length t + (length n + 2) + 1) s = r"
    by (simp_all add: s_def numeral_2_eq_2 numeral_3_eq_3)
  have "interpolate env s = (case interpolate env r of Inl e \<Rightarrow> Inl e | Inr rest \<Rightarrow> Inr (t @ v @ rest))"
    by (subst interpolate.simps) (simp only: i j parts assms option.case Let_def if_False simp_thms)
  then show ?thesis by (simp only: s_def)
qed

lemma interpolate_render: "template_ok env ps \<Longrightarrow> interpolate env (render ps) = Inr (expand env ps)"
proof (induction env ps rule: template_ok.induct)
  case (1 env t)
  then have "index_of ''${'' t = None" by (simp add: contains_def)
  then show ?case by (subst interpolate.simps) simp
next
  case (2 env t n ps)
  then obtain v where v: "env n = Some v" "v \<noteq> []" by auto
  from 2 interpolate_ref [of t n env v "render ps"] v show ?case by simp
qed simp_all

text \<open>
  Interpolation is template expansion: a value written as literals and \<open>${VAR}\<close>
  references to set variables resolves to the literals with each reference replaced by
  its variable's value, in place, and nothing in a value is expanded a second time.
\<close>

theorem interpolate_expands:
  assumes "template_ok env ps"
  shows "interpolate env (render ps) = Inr (expand env ps)"
  using assms by (rule interpolate_render)

theorem interpolate_expands_witness:
  "interpolate (\<lambda>n. if n = ''A'' then Some ''${B}'' else None) ''p-${A}-q'' = Inr ''p-${B}-q''"
  using interpolate_expands [of "\<lambda>n. if n = ''A'' then Some ''${B}'' else None"
      "[Text ''p-'', Ref ''A'', Text ''-q'']"]
  by (simp add: contains_def has_prefix_def)

section \<open>Durations stay in 64 bits\<close>

lemma leading_int_nonneg: "leading_int x s = Some (v, s') \<Longrightarrow> 0 \<le> x \<Longrightarrow> 0 \<le> v"
  by (induction x s rule: leading_int.induct) (auto simp: digit_val_def is_digit_def split: if_splits)

lemma leading_fraction_nonneg:
  "leading_fraction b x sc s = (v, sc', s') \<Longrightarrow> 0 \<le> x \<Longrightarrow> 0 < sc \<Longrightarrow> 0 \<le> v \<and> 0 < sc'"
  by (induction b x sc s rule: leading_fraction.induct)
     (auto simp: digit_val_def is_digit_def split: if_splits)

lemma unit_pos: "unit_of u = Some n \<Longrightarrow> 0 < n"
  by (auto simp: unit_of_def split: if_splits)

lemma duration_group_nonneg: "duration_group s = Some (w, s') \<Longrightarrow> 0 \<le> w"
  using leading_int_nonneg [of 0 s] leading_fraction_nonneg [of False 0 1]
  by (fastforce simp: duration_group_def Let_def dest: unit_pos
      intro!: add_nonneg_nonneg mult_nonneg_nonneg split: option.splits if_splits prod.splits
      simp: pos_imp_zdiv_nonneg_iff)

lemma duration_groups_range: "duration_groups d s = Some r \<Longrightarrow> 0 \<le> d \<Longrightarrow> d \<le> 2 ^ 63 \<Longrightarrow> 0 \<le> r \<and> r \<le> 2 ^ 63"
proof (induction d s rule: duration_groups.induct)
  case (1 d s)
  show ?case
  proof (cases "s = []")
    case True
    with "1.prems" show ?thesis by (simp add: duration_groups.simps)
  next
    case False
    with "1.prems"(1) obtain w s' where g: "duration_group s = Some (w, s')" "d + w \<le> 2 ^ 63"
      and start: "hd s = CHR ''.'' \<or> is_digit (hd s)"
      and rest: "duration_groups (d + w) s' = Some r"
      by (subst (asm) duration_groups.simps) (auto split: if_splits option.splits)
    with duration_group_nonneg [OF g(1)] "1.prems"(2) "1.IH" [OF False _ g(1) refl _ rest] show ?thesis
      by auto
  qed
qed

text \<open>
  Whatever \<open>ParseDuration\<close> accepts is a value of the 64-bit type: every group, the
  running sum and the sign are checked before the result can wrap.
\<close>

theorem duration_fits_int64:
  assumes "ParseDuration s = Some d"
  shows "- (2 ^ 63) \<le> d \<and> d < 2 ^ 63"
  using assms duration_groups_range [of 0]
  by (auto simp: ParseDuration_def Let_def split: if_splits option.splits) fastforce+

theorem duration_fits_int64_witness:
  "ParseDuration ''-2562047h47m16.854775808s'' = Some (- (2 ^ 63)) \<and> - (2 ^ 63) \<le> (- (2 ^ 63) :: int)"
proof -
  have "ParseDuration ''-2562047h47m16.854775808s'' = Some (- (2 ^ 63))" by code_simp
  with duration_fits_int64 [OF this] show ?thesis by blast
qed

section \<open>Bootstrap\<close>

text \<open>
  Boot refuses to run without a usable relay key: an accepted environment names a
  config file, has a positive grace and exactly one key source, and when the key is inline
  resolving it succeeds with the non-blank trimmed value, whatever the files hold.
\<close>

theorem accepted_boot_has_key:
  assumes "LoadBootstrap addr_error env = Inr c"
  shows "bs_configFile c \<noteq> [] \<and> 0 < bs_shutdownGrace c \<and> addr_error (bs_listenAddr c) = None
    \<and> (bs_relayKeyFile c = []) = (trim_space (bs_relayKey c) \<noteq> [])
    \<and> (if bs_relayKeyFile c = [] then ResolveRelayKey files c = Inr (trim_space (bs_relayKey c))
       else ResolveRelayKey files c = readSecretFile files (bs_relayKeyFile c))"
proof -
  from assms have "validate addr_error c = []"
    by (auto simp: LoadBootstrap_def Let_def split: sum.splits if_splits)
  then show ?thesis
    by (auto simp: validate_def ResolveRelayKey_def Let_def split: if_splits option.splits)
qed

definition w_boot_env :: "string \<Rightarrow> string option" where
  "w_boot_env n = (if n = ''RELAY_AUTH_TOKEN'' then Some ''key '' else if n = ''SHUTDOWN_GRACE'' then Some ''15s'' else None)"

theorem accepted_boot_has_key_witness:
  "\<exists>c. LoadBootstrap (\<lambda>_. None) w_boot_env = Inr c \<and> ResolveRelayKey (\<lambda>_. None) c = Inr ''key''"
proof -
  have eq: "LoadBootstrap (\<lambda>_. None) w_boot_env
      = Inr \<lparr>bs_listenAddr = '':8080'', bs_configFile = ''config.yaml'', bs_shutdownGrace = 15 * second,
             bs_relayKey = ''key '', bs_relayKeyFile = []\<rparr>"
    by code_simp
  have "trim_space ''key '' = ''key''" by code_simp
  with accepted_boot_has_key [OF eq, of "\<lambda>_. None"] eq show ?thesis by auto
qed

end
