(* ===== verification/Registry.thy ===== *)
theory Registry
  imports Deploy_Identity
begin

text \<open>
  \<open>internal/readiness/registry.go\<close>: the in-memory admission gate. Every exported method
  is one function on the registry (the mutex makes each atomic); \<open>now\<close> is the reading of
  the injected clock. \<open>*entry\<close> pointers matter in one place only: a release closure
  clears the busy flag of the entry it captured, even if that entry was purged and the
  key recreated meanwhile. An entry therefore carries its allocation number, and a
  release token names the key and that number.
\<close>

section \<open>Data\<close>

record member =
  m_key :: relay_key
  m_scope :: scope
  m_scopeKnown :: bool

datatype state =
    StateConfigured | StateDiscovering | StateDiscovered | StateDeploying | StateVerifying
  | StateReady | StateUnready | StateFailed | StatePaused | StateRemoving

fun state_string :: "state \<Rightarrow> string" where
  "state_string StateConfigured = ''configured''"
| "state_string StateDiscovering = ''discovering''"
| "state_string StateDiscovered = ''discovered''"
| "state_string StateDeploying = ''deploying''"
| "state_string StateVerifying = ''verifying''"
| "state_string StateReady = ''ready''"
| "state_string StateUnready = ''unready''"
| "state_string StateFailed = ''failed''"
| "state_string StatePaused = ''paused''"
| "state_string StateRemoving = ''removing''"

definition ReasonVersionFailed :: string where "ReasonVersionFailed = ''version_failed''"
definition ReasonAuthFailed :: string where "ReasonAuthFailed = ''auth_failed''"
definition ReasonProbeFailed :: string where "ReasonProbeFailed = ''probe_failed''"
definition ReasonUnreachable :: string where "ReasonUnreachable = ''unreachable''"
definition ReasonDeployFailed :: string where "ReasonDeployFailed = ''deploy_failed''"
definition ReasonPaused :: string where "ReasonPaused = ''paused''"
definition ReasonReplacing :: string where "ReasonReplacing = ''replacing''"
definition ReasonMissing :: string where "ReasonMissing = ''missing''"
definition ReasonDeleteFailed :: string where "ReasonDeleteFailed = ''delete_failed''"
definition ReasonCredentials :: string where "ReasonCredentials = ''credential_failed''"
definition ReasonScopeChanged :: string where "ReasonScopeChanged = ''scope_changed''"

record reg_record =
  rec_key :: relay_key
  rec_state :: state
  rec_reason :: string
  rec_generation :: nat
  rec_since :: instant
  rec_lastAttempt :: instant
  rec_lastResult :: duration
  rec_failStreak :: int
  rec_drainPending :: bool

record serving =
  sv_key :: relay_key
  sv_url :: string
  sv_token :: string
  sv_version :: nat
  sv_scopeFP :: string

record settings =
  rs_backoffBase :: duration
  rs_backoffMax :: duration
  rs_recoverMax :: duration
  rs_pauseRetry :: duration
  rs_demoteAfter :: int

record entry =
  e_record :: reg_record
  e_serving :: bool
  e_url :: string
  e_token :: string
  e_scopeFP :: string
  e_busy :: bool
  e_nextTry :: instant
  e_scope :: scope
  e_scopeKnown :: bool
  e_scopeChanged :: bool
  e_obj :: nat

text \<open>
  \<open>reg_pending\<close> is the one-slot \<open>changes\<close> channel, \<open>reg_seq\<close> the notification count,
  \<open>reg_nextObj\<close> the next allocation number.
\<close>

record registry =
  reg_cfg :: settings
  reg_entries :: "(relay_key \<times> entry) list"
  reg_readyCount :: int
  reg_pending :: bool
  reg_seq :: nat
  reg_nextObj :: nat

abbreviation get :: "registry \<Rightarrow> relay_key \<Rightarrow> entry option" where
  "get r k \<equiv> map_of (reg_entries r) k"

definition put :: "relay_key \<Rightarrow> entry \<Rightarrow> registry \<Rightarrow> registry" where
  "put k e r = r\<lparr>reg_entries := AList.update k e (reg_entries r)\<rparr>"

abbreviation upd_rec :: "(reg_record \<Rightarrow> reg_record) \<Rightarrow> entry \<Rightarrow> entry" where
  "upd_rec f e \<equiv> e\<lparr>e_record := f (e_record e)\<rparr>"

definition notify :: "registry \<Rightarrow> registry" where
  "notify r = r\<lparr>reg_seq := reg_seq r + 1, reg_pending := True\<rparr>"

section \<open>Construction and settings\<close>

text \<open>\<open>New\<close>: a non-positive field takes its default (5 s, 5 min, 15 s, 10 min, 3).\<close>

definition New :: "settings \<Rightarrow> registry" where
  "New cfg =
     \<lparr>reg_cfg = \<lparr>rs_backoffBase = (if rs_backoffBase cfg \<le> 0 then 5 * second else rs_backoffBase cfg),
                 rs_backoffMax = (if rs_backoffMax cfg \<le> 0 then 5 * 60 * second else rs_backoffMax cfg),
                 rs_recoverMax = (if rs_recoverMax cfg \<le> 0 then 15 * second else rs_recoverMax cfg),
                 rs_pauseRetry = (if rs_pauseRetry cfg \<le> 0 then 10 * 60 * second else rs_pauseRetry cfg),
                 rs_demoteAfter = (if rs_demoteAfter cfg \<le> 0 then 3 else rs_demoteAfter cfg)\<rparr>,
      reg_entries = [], reg_readyCount = 0, reg_pending = False, reg_seq = 0, reg_nextObj = 0\<rparr>"

text \<open>
  \<open>backoffLocked\<close>: the shifted base, in 64 bits, capped at \<open>BackoffMax\<close> (an overflow that
  shows as a non-positive value included), and at \<open>RecoverMax\<close> while nothing serves.
\<close>

definition backoff_wait :: "settings \<Rightarrow> int \<Rightarrow> int \<Rightarrow> duration" where
  "backoff_wait cfg readyCount streak =
    (let wait = shl64 (rs_backoffBase cfg) (nat (min (max (streak - 1) 0) 30));
         wait = (if wait > rs_backoffMax cfg \<or> wait \<le> 0 then rs_backoffMax cfg else wait)
     in if readyCount = 0 \<and> wait > rs_recoverMax cfg then rs_recoverMax cfg else wait)"

definition arm :: "registry \<Rightarrow> instant \<Rightarrow> entry \<Rightarrow> entry" where
  "arm r now e =
     e\<lparr>e_nextTry := now + backoff_wait (reg_cfg r) (reg_readyCount r) (rec_failStreak (e_record e))\<rparr>"

definition pick_positive :: "int \<Rightarrow> int \<Rightarrow> int" where
  "pick_positive new old = (if new > 0 then new else old)"

definition regate :: "registry \<Rightarrow> entry \<Rightarrow> entry" where
  "regate r e =
     (if rec_lastAttempt (e_record e) = zero_time then e
      else if rec_state (e_record e) = StatePaused
        then e\<lparr>e_nextTry := rec_lastAttempt (e_record e) + rs_pauseRetry (reg_cfg r)\<rparr>
      else if rec_failStreak (e_record e) > 0 then arm r (rec_lastAttempt (e_record e)) e
      else e)"

definition with_settings :: "settings \<Rightarrow> registry \<Rightarrow> registry" where
  "with_settings s r =
    (let c = reg_cfg r in
     r\<lparr>reg_cfg :=
         \<lparr>rs_backoffBase = pick_positive (rs_backoffBase s) (rs_backoffBase c),
          rs_backoffMax = pick_positive (rs_backoffMax s) (rs_backoffMax c),
          rs_recoverMax = pick_positive (rs_recoverMax s) (rs_recoverMax c),
          rs_pauseRetry = pick_positive (rs_pauseRetry s) (rs_pauseRetry c),
          rs_demoteAfter = pick_positive (rs_demoteAfter s) (rs_demoteAfter c)\<rparr>\<rparr>)"

definition UpdateSettings :: "settings \<Rightarrow> registry \<Rightarrow> registry" where
  "UpdateSettings s r =
    (let r1 = with_settings s r
     in r1\<lparr>reg_entries := map (\<lambda>(k, e). (k, regate r1 e)) (reg_entries r1)\<rparr>)"

section \<open>Sync\<close>

definition memberScopeFP :: "member \<Rightarrow> string" where
  "memberScopeFP m = (if \<not> m_scopeKnown m then [] else FP (m_scope m))"

definition fresh_record :: "relay_key \<Rightarrow> instant \<Rightarrow> reg_record" where
  "fresh_record k now =
     \<lparr>rec_key = k, rec_state = StateConfigured, rec_reason = [], rec_generation = 1,
      rec_since = now, rec_lastAttempt = zero_time, rec_lastResult = 0, rec_failStreak = 0,
      rec_drainPending = False\<rparr>"

definition blank_entry :: "relay_key \<Rightarrow> instant \<Rightarrow> nat \<Rightarrow> entry" where
  "blank_entry k now obj =
     \<lparr>e_record = fresh_record k now, e_serving = False, e_url = [], e_token = [], e_scopeFP = [],
      e_busy = False, e_nextTry = zero_time, e_scope = no_scope, e_scopeKnown = False,
      e_scopeChanged = False, e_obj = obj\<rparr>"

text \<open>One member of the desired set: first seen, re-added, first resolved, or moved scope.\<close>

definition sync_member :: "instant \<Rightarrow> member \<Rightarrow> registry \<Rightarrow> registry" where
  "sync_member now m r =
    (let k = m_key m; fp = memberScopeFP m in
     case get r k of
       None \<Rightarrow>
         notify (put k ((blank_entry k now (reg_nextObj r))
                          \<lparr>e_scope := m_scope m, e_scopeKnown := m_scopeKnown m, e_scopeFP := fp\<rparr>)
                   (r\<lparr>reg_nextObj := reg_nextObj r + 1\<rparr>))
     | Some e \<Rightarrow>
         if rec_state (e_record e) = StateRemoving then
           notify (put k (e\<lparr>e_record := (e_record e)\<lparr>rec_generation := rec_generation (e_record e) + 1,
                                          rec_state := StateConfigured, rec_reason := [],
                                          rec_failStreak := 0, rec_drainPending := False,
                                          rec_since := now\<rparr>,
                            e_nextTry := zero_time, e_scope := m_scope m,
                            e_scopeKnown := m_scopeKnown m, e_scopeChanged := False,
                            e_scopeFP := fp\<rparr>) r)
         else if m_scopeKnown m \<and> \<not> e_scopeKnown e then
           put k (e\<lparr>e_scope := m_scope m, e_scopeKnown := True, e_scopeFP := fp\<rparr>) r
         else if m_scopeKnown m \<and> e_scopeKnown e \<and> m_scope m \<noteq> e_scope e then
           (let wasServing = e_serving e;
                r1 = (if e_serving e then r\<lparr>reg_readyCount := reg_readyCount r - 1\<rparr> else r)
            in notify (put k (e\<lparr>e_serving := False,
                               e_record := (e_record e)\<lparr>rec_generation := rec_generation (e_record e) + 1,
                                             rec_state := StateConfigured,
                                             rec_reason := ReasonScopeChanged,
                                             rec_failStreak := 0, rec_since := now\<rparr>,
                               e_nextTry := zero_time, e_scope := m_scope m, e_scopeKnown := True,
                               e_scopeFP := fp, e_scopeChanged := wasServing\<rparr>) r1))
         else r)"

text \<open>One identity that is not in the desired set.\<close>

definition sync_leave :: "instant \<Rightarrow> relay_key \<Rightarrow> registry \<Rightarrow> registry" where
  "sync_leave now k r =
    (case get r k of
       None \<Rightarrow> r
     | Some e \<Rightarrow>
         if rec_state (e_record e) \<noteq> StateRemoving then
           (let r1 = (if e_serving e then r\<lparr>reg_readyCount := reg_readyCount r - 1\<rparr> else r)
            in notify (put k (e\<lparr>e_serving := False,
                               e_record := (e_record e)\<lparr>rec_state := StateRemoving, rec_reason := [],
                                             rec_generation := rec_generation (e_record e) + 1,
                                             rec_drainPending := False, rec_since := now\<rparr>\<rparr>) r1))
         else r)"

definition Sync :: "instant \<Rightarrow> member list \<Rightarrow> registry \<Rightarrow> registry" where
  "Sync now members r =
    (let r1 = fold (sync_member now) members r
     in fold (sync_leave now)
          (filter (\<lambda>k. k \<notin> set (map m_key members)) (map fst (reg_entries r1))) r1)"

section \<open>Queries\<close>

text \<open>\<open>current\<close>: the entry, only while it exists under the given incarnation.\<close>

definition current :: "registry \<Rightarrow> relay_key \<Rightarrow> nat \<Rightarrow> entry option" where
  "current r k gen =
     (case get r k of
        None \<Rightarrow> None
      | Some e \<Rightarrow> if rec_generation (e_record e) \<noteq> gen then None else Some e)"

definition IsReady :: "registry \<Rightarrow> relay_key \<Rightarrow> bool" where
  "IsReady r k = (case get r k of None \<Rightarrow> False | Some e \<Rightarrow> e_serving e)"

definition ReadyCount :: "registry \<Rightarrow> int" where
  "ReadyCount r = reg_readyCount r"

definition serving_of :: "entry \<Rightarrow> serving" where
  "serving_of e = \<lparr>sv_key = rec_key (e_record e), sv_url = e_url e, sv_token = e_token e,
                  sv_version = rec_generation (e_record e), sv_scopeFP = e_scopeFP e\<rparr>"

definition Serving :: "registry \<Rightarrow> serving list" where
  "Serving r =
     sort_key (\<lambda>s. key_string (sv_key s)) (map serving_of (filter e_serving (map snd (reg_entries r))))"

definition StateOf :: "registry \<Rightarrow> relay_key \<Rightarrow> reg_record option" where
  "StateOf r k = map_option e_record (get r k)"

definition Snapshot :: "registry \<Rightarrow> reg_record list" where
  "Snapshot r = sort_key (\<lambda>s. key_string (rec_key s)) (map (\<lambda>(k, e). e_record e) (reg_entries r))"

definition NotifySeq :: "registry \<Rightarrow> nat" where
  "NotifySeq r = reg_seq r"

definition GenerationOf :: "registry \<Rightarrow> relay_key \<Rightarrow> nat option" where
  "GenerationOf r k = map_option (\<lambda>e. rec_generation (e_record e)) (get r k)"

definition Allow :: "instant \<Rightarrow> relay_key \<Rightarrow> registry \<Rightarrow> bool" where
  "Allow now k r = (case get r k of Some e \<Rightarrow> \<not> now < e_nextTry e | None \<Rightarrow> True)"

text \<open>Receiving from \<open>Changes()\<close>: takes the pending signal.\<close>

definition take_change :: "registry \<Rightarrow> registry option" where
  "take_change r = (if reg_pending r then Some (r\<lparr>reg_pending := False\<rparr>) else None)"

section \<open>Single flight\<close>

type_synonym release = "relay_key \<times> nat"

definition ensure_entry :: "instant \<Rightarrow> relay_key \<Rightarrow> registry \<Rightarrow> entry \<times> registry" where
  "ensure_entry now k r =
    (case get r k of
       Some e \<Rightarrow> (e, r)
     | None \<Rightarrow> (let e = blank_entry k now (reg_nextObj r)
               in (e, put k e (r\<lparr>reg_nextObj := reg_nextObj r + 1\<rparr>))))"

definition Begin :: "instant \<Rightarrow> relay_key \<Rightarrow> registry \<Rightarrow> (release \<times> nat) option \<times> registry" where
  "Begin now k r =
    (let (e, r1) = ensure_entry now k r
     in if e_busy e then (None, r1)
        else (Some ((k, e_obj e), rec_generation (e_record e)), put k (e\<lparr>e_busy := True\<rparr>) r1))"

definition BeginDelete :: "relay_key \<Rightarrow> registry \<Rightarrow> (release \<times> nat) option \<times> registry" where
  "BeginDelete k r =
    (case get r k of
       None \<Rightarrow> (None, r)
     | Some e \<Rightarrow>
         if e_busy e \<or> rec_state (e_record e) \<noteq> StateRemoving then (None, r)
         else (Some ((k, e_obj e), rec_generation (e_record e)), put k (e\<lparr>e_busy := True\<rparr>) r))"

definition Release :: "release \<Rightarrow> registry \<Rightarrow> registry" where
  "Release t r =
    (case get r (fst t) of
       None \<Rightarrow> r
     | Some e \<Rightarrow> if e_obj e = snd t then put (fst t) (e\<lparr>e_busy := False\<rparr>) r else r)"

definition TakeScopeChanged :: "relay_key \<Rightarrow> nat \<Rightarrow> registry \<Rightarrow> bool \<times> registry" where
  "TakeScopeChanged k gen r =
    (case current r k gen of
       None \<Rightarrow> (False, r)
     | Some e \<Rightarrow> (e_scopeChanged e, put k (e\<lparr>e_scopeChanged := False\<rparr>) r))"

section \<open>Transitions\<close>

definition Enter :: "instant \<Rightarrow> relay_key \<Rightarrow> nat \<Rightarrow> state \<Rightarrow> string \<Rightarrow> registry \<Rightarrow> registry" where
  "Enter now k gen st reason r =
    (case current r k gen of
       None \<Rightarrow> r
     | Some e \<Rightarrow>
         if rec_state (e_record e) = StatePaused \<and> (st = StateDiscovering \<or> st = StateVerifying) then r
         else
           (let changed = (rec_state (e_record e) \<noteq> st \<or> rec_reason (e_record e) \<noteq> reason);
                e1 = upd_rec (\<lambda>c. c\<lparr>rec_state := st, rec_reason := reason, rec_since := now\<rparr>) e;
                r1 = (if changed \<and> st \<noteq> StateDiscovering then notify r else r);
                e2 = (if st = StateDeploying
                      then (upd_rec (\<lambda>c. c\<lparr>rec_failStreak := 0\<rparr>) e1)\<lparr>e_nextTry := zero_time\<rparr>
                      else e1)
            in put k e2 r1))"

definition Ready ::
    "instant \<Rightarrow> relay_key \<Rightarrow> nat \<Rightarrow> string \<Rightarrow> string \<Rightarrow> duration \<Rightarrow> registry \<Rightarrow> registry" where
  "Ready now k gen url token dur r =
    (case current r k gen of
       None \<Rightarrow> r
     | Some e \<Rightarrow>
         (let e1 = e\<lparr>e_url := url, e_token := token,
                    e_record := (e_record e)\<lparr>rec_state := StateReady, rec_reason := [], rec_since := now,
                                  rec_lastAttempt := now, rec_lastResult := dur, rec_failStreak := 0,
                                  rec_drainPending := False\<rparr>,
                    e_scopeChanged := False, e_nextTry := zero_time\<rparr>
          in if \<not> e_serving e1
             then notify (put k (e1\<lparr>e_serving := True\<rparr>) (r\<lparr>reg_readyCount := reg_readyCount r + 1\<rparr>))
             else put k e1 r))"

text \<open>The demotion both \<open>Failing\<close> and \<open>Demote\<close> end in: revoke, then arm, then notify.\<close>

definition revoke :: "instant \<Rightarrow> relay_key \<Rightarrow> entry \<Rightarrow> registry \<Rightarrow> registry" where
  "revoke now k e r =
    (let r1 = r\<lparr>reg_readyCount := reg_readyCount r - 1\<rparr>;
         e1 = (upd_rec (\<lambda>c. c\<lparr>rec_state := StateUnready, rec_since := now\<rparr>) e)\<lparr>e_serving := False\<rparr>
     in notify (put k (arm r1 now e1) r1))"

text \<open>The shared tail for a relay that does not serve: label it failed once, then arm.\<close>

definition label_failed :: "instant \<Rightarrow> relay_key \<Rightarrow> entry \<Rightarrow> registry \<Rightarrow> registry" where
  "label_failed now k e r =
    (if rec_state (e_record e) \<noteq> StateUnready \<and> rec_state (e_record e) \<noteq> StateFailed
     then notify (put k (arm r now (upd_rec (\<lambda>c. c\<lparr>rec_state := StateFailed, rec_since := now\<rparr>) e)) r)
     else put k (arm r now e) r)"

definition Failing :: "instant \<Rightarrow> relay_key \<Rightarrow> nat \<Rightarrow> string \<Rightarrow> duration \<Rightarrow> registry \<Rightarrow> registry" where
  "Failing now k gen reason dur r =
    (case current r k gen of
       None \<Rightarrow> r
     | Some e0 \<Rightarrow>
         (let e = upd_rec (\<lambda>c. c\<lparr>rec_lastAttempt := now, rec_lastResult := dur,
                                 rec_failStreak := rec_failStreak c + 1, rec_reason := reason\<rparr>) e0
          in if \<not> e_serving e then
               (if rec_state (e_record e) = StatePaused
                then put k (e\<lparr>e_nextTry := now + rs_pauseRetry (reg_cfg r)\<rparr>) r
                else label_failed now k e r)
             else if rec_failStreak (e_record e) < rs_demoteAfter (reg_cfg r)
               then put k (arm r now e) r
             else revoke now k e r))"

definition Demote :: "instant \<Rightarrow> relay_key \<Rightarrow> nat \<Rightarrow> string \<Rightarrow> registry \<Rightarrow> registry" where
  "Demote now k gen reason r =
    (case current r k gen of
       None \<Rightarrow> r
     | Some e0 \<Rightarrow>
         (let e = upd_rec (\<lambda>c. c\<lparr>rec_lastAttempt := now, rec_reason := reason,
                                 rec_failStreak := rs_demoteAfter (reg_cfg r)\<rparr>) e0
          in if \<not> e_serving e then label_failed now k e r else revoke now k e r))"

definition Pause :: "instant \<Rightarrow> relay_key \<Rightarrow> nat \<Rightarrow> string \<Rightarrow> registry \<Rightarrow> registry" where
  "Pause now k gen reason r =
    (case current r k gen of
       None \<Rightarrow> r
     | Some e0 \<Rightarrow>
         (let e = (upd_rec (\<lambda>c. c\<lparr>rec_lastAttempt := now, rec_reason := reason\<rparr>) e0)
                    \<lparr>e_nextTry := now + rs_pauseRetry (reg_cfg r)\<rparr>;
              e1 = (if rec_state (e_record e) \<noteq> StatePaused
                    then upd_rec (\<lambda>c. c\<lparr>rec_state := StatePaused, rec_since := now\<rparr>) e else e);
              r1 = (if e_serving e1 then r\<lparr>reg_readyCount := reg_readyCount r - 1\<rparr> else r)
          in notify (put k (e1\<lparr>e_serving := False\<rparr>) r1)))"

definition DeferDrain :: "relay_key \<Rightarrow> nat \<Rightarrow> registry \<Rightarrow> registry" where
  "DeferDrain k gen r =
    (case current r k gen of
       None \<Rightarrow> r
     | Some e \<Rightarrow> put k (upd_rec (\<lambda>c. c\<lparr>rec_drainPending := True\<rparr>) e) r)"

definition DrainCompleted :: "relay_key \<Rightarrow> nat \<Rightarrow> registry \<Rightarrow> registry" where
  "DrainCompleted k gen r =
    (case current r k gen of
       None \<Rightarrow> r
     | Some e \<Rightarrow> put k (upd_rec (\<lambda>c. c\<lparr>rec_drainPending := False\<rparr>) e) r)"

definition DeleteDone :: "relay_key \<Rightarrow> nat \<Rightarrow> registry \<Rightarrow> registry" where
  "DeleteDone k gen r =
    (case current r k gen of
       None \<Rightarrow> r
     | Some e \<Rightarrow> if rec_state (e_record e) \<noteq> StateRemoving then r
               else notify (r\<lparr>reg_entries := AList.delete k (reg_entries r)\<rparr>))"

definition DeleteFailed :: "instant \<Rightarrow> relay_key \<Rightarrow> nat \<Rightarrow> string \<Rightarrow> registry \<Rightarrow> registry" where
  "DeleteFailed now k gen reason r =
    (case current r k gen of
       None \<Rightarrow> r
     | Some e \<Rightarrow>
         if rec_state (e_record e) \<noteq> StateRemoving then r
         else put k (arm r now (upd_rec (\<lambda>c. c\<lparr>rec_failStreak := rec_failStreak c + 1,
                                              rec_reason := reason\<rparr>) e)) r)"

section \<open>Operations as data\<close>

text \<open>
  Every call that changes the registry, so that histories are lists. \<open>OpEnter\<close> takes any
  phase; \<open>routine\<close> names the phases the callers pass.
\<close>

datatype reg_op =
    OpUpdateSettings settings
  | OpSync "member list"
  | OpTakeScopeChanged relay_key nat
  | OpBegin relay_key
  | OpBeginDelete relay_key
  | OpRelease release
  | OpEnter relay_key nat state string
  | OpReady relay_key nat string string duration
  | OpFailing relay_key nat string duration
  | OpDemote relay_key nat string
  | OpPause relay_key nat string
  | OpDeferDrain relay_key nat
  | OpDrainCompleted relay_key nat
  | OpDeleteDone relay_key nat
  | OpDeleteFailed relay_key nat string
  | OpTakeChange

fun reg_apply :: "instant \<Rightarrow> reg_op \<Rightarrow> registry \<Rightarrow> registry" where
  "reg_apply now (OpUpdateSettings s) r = UpdateSettings s r"
| "reg_apply now (OpSync ms) r = Sync now ms r"
| "reg_apply now (OpTakeScopeChanged k g) r = snd (TakeScopeChanged k g r)"
| "reg_apply now (OpBegin k) r = snd (Begin now k r)"
| "reg_apply now (OpBeginDelete k) r = snd (BeginDelete k r)"
| "reg_apply now (OpRelease t) r = Release t r"
| "reg_apply now (OpEnter k g s reason) r = Enter now k g s reason r"
| "reg_apply now (OpReady k g url token dur) r = Ready now k g url token dur r"
| "reg_apply now (OpFailing k g reason dur) r = Failing now k g reason dur r"
| "reg_apply now (OpDemote k g reason) r = Demote now k g reason r"
| "reg_apply now (OpPause k g reason) r = Pause now k g reason r"
| "reg_apply now (OpDeferDrain k g) r = DeferDrain k g r"
| "reg_apply now (OpDrainCompleted k g) r = DrainCompleted k g r"
| "reg_apply now (OpDeleteDone k g) r = DeleteDone k g r"
| "reg_apply now (OpDeleteFailed k g reason) r = DeleteFailed now k g reason r"
| "reg_apply now OpTakeChange r = (case take_change r of None \<Rightarrow> r | Some r' \<Rightarrow> r')"

fun reg_run :: "(instant \<times> reg_op) list \<Rightarrow> registry \<Rightarrow> registry" where
  "reg_run [] r = r"
| "reg_run ((now, op) # ops) r = reg_run ops (reg_apply now op r)"

fun op_ok :: "reg_op \<Rightarrow> bool" where
  "op_ok (OpEnter k g s reason) \<longleftrightarrow> s \<noteq> StatePaused \<and> s \<noteq> StateRemoving"
| "op_ok _ \<longleftrightarrow> True"

end
