(* ===== verification/Registry_Invariants.thy ===== *)
theory Registry_Invariants
  imports Registry
begin

text \<open>
  The invariant of the readiness registry and what its transitions do: admission counts
  stay exact, stale completions are void, admission is gained only through \<open>Ready\<close>, and
  every change of the serving set is announced.
\<close>

section \<open>Rewriting the transitions\<close>

declare map_of_eq_Some_iff [simp del]

lemma put_simps [simp]:
  "get (put k e r) k' = (if k' = k then Some e else get r k')"
  "reg_cfg (put k e r) = reg_cfg r" "reg_readyCount (put k e r) = reg_readyCount r"
  "reg_pending (put k e r) = reg_pending r" "reg_seq (put k e r) = reg_seq r"
  "reg_nextObj (put k e r) = reg_nextObj r"
  by (auto simp: put_def update_conv')

lemma notify_simps [simp]:
  "reg_entries (notify r) = reg_entries r" "reg_cfg (notify r) = reg_cfg r"
  "reg_readyCount (notify r) = reg_readyCount r" "reg_pending (notify r) = True"
  "reg_seq (notify r) = Suc (reg_seq r)" "reg_nextObj (notify r) = reg_nextObj r"
  by (auto simp: notify_def)

lemma arm_simps [simp]:
  "e_record (arm r now e) = e_record e" "e_serving (arm r now e) = e_serving e"
  "e_url (arm r now e) = e_url e" "e_token (arm r now e) = e_token e"
  "e_scopeFP (arm r now e) = e_scopeFP e" "e_busy (arm r now e) = e_busy e"
  "e_scope (arm r now e) = e_scope e" "e_scopeKnown (arm r now e) = e_scopeKnown e"
  "e_scopeChanged (arm r now e) = e_scopeChanged e" "e_obj (arm r now e) = e_obj e"
  by (auto simp: arm_def)

lemma current_Some:
  "current r k g = Some e \<longleftrightarrow> get r k = Some e \<and> rec_generation (e_record e) = g"
  by (auto simp: current_def split: option.splits)

lemma current_None:
  "current r k g = None \<longleftrightarrow> GenerationOf r k \<noteq> Some g"
  by (auto simp: current_def GenerationOf_def split: option.splits)

lemmas transition_defs =
  Enter_def Ready_def Failing_def Demote_def Pause_def DeferDrain_def DrainCompleted_def
  DeleteFailed_def TakeScopeChanged_def revoke_def label_failed_def Let_def

section \<open>The invariant\<close>

definition cfg_ok :: "settings \<Rightarrow> bool" where
  "cfg_ok c \<longleftrightarrow> 0 < rs_backoffBase c \<and> 0 < rs_backoffMax c \<and> 0 < rs_recoverMax c
     \<and> 0 < rs_pauseRetry c \<and> 0 < rs_demoteAfter c"

definition entry_ok :: "relay_key \<Rightarrow> entry \<Rightarrow> bool" where
  "entry_ok k e \<longleftrightarrow>
     rec_key (e_record e) = k \<and> 1 \<le> rec_generation (e_record e) \<and> 0 \<le> rec_failStreak (e_record e)
     \<and> (e_serving e \<longrightarrow> rec_state (e_record e) \<noteq> StateRemoving \<and> rec_state (e_record e) \<noteq> StatePaused)
     \<and> (e_scopeChanged e \<longrightarrow> \<not> e_serving e)
     \<and> e_scopeFP e = (if e_scopeKnown e then FP (e_scope e) else [])"

definition reg_wf :: "registry \<Rightarrow> bool" where
  "reg_wf r \<longleftrightarrow>
     distinct (map fst (reg_entries r)) \<and> cfg_ok (reg_cfg r)
     \<and> (\<forall>k e. get r k = Some e \<longrightarrow> entry_ok k e \<and> e_obj e < reg_nextObj r)
     \<and> (\<forall>k k' e e'. get r k = Some e \<longrightarrow> get r k' = Some e' \<longrightarrow> e_obj e = e_obj e' \<longrightarrow> k = k')
     \<and> reg_readyCount r = int (count_entries e_serving (reg_entries r))"

lemma reg_wf_entry: "reg_wf r \<Longrightarrow> get r k = Some e \<Longrightarrow> entry_ok k e"
  by (auto simp: reg_wf_def)

text \<open>What an operation must show of the entry it writes, and may use of the one it read.\<close>

lemma entry_okI:
  "entry_ok k e \<Longrightarrow> rec_key (e_record e') = rec_key (e_record e) \<Longrightarrow>
   rec_generation (e_record e) \<le> rec_generation (e_record e') \<Longrightarrow> 0 \<le> rec_failStreak (e_record e') \<Longrightarrow>
   (e_serving e' \<longrightarrow> rec_state (e_record e') \<noteq> StateRemoving \<and> rec_state (e_record e') \<noteq> StatePaused) \<Longrightarrow>
   (e_scopeChanged e' \<longrightarrow> \<not> e_serving e') \<Longrightarrow>
   e_scopeFP e' = (if e_scopeKnown e' then FP (e_scope e') else []) \<Longrightarrow> entry_ok k e'"
  by (simp add: entry_ok_def)

lemma entry_okD:
  "entry_ok k e \<Longrightarrow> 0 \<le> rec_failStreak (e_record e)
     \<and> (e_serving e \<longrightarrow> rec_state (e_record e) \<noteq> StateRemoving \<and> rec_state (e_record e) \<noteq> StatePaused)
     \<and> (e_scopeChanged e \<longrightarrow> \<not> e_serving e)
     \<and> e_scopeFP e = (if e_scopeKnown e then FP (e_scope e) else [])"
  by (simp add: entry_ok_def)

lemma reg_wf_obj:
  "reg_wf r \<Longrightarrow> get r k = Some e \<Longrightarrow> get r k' = Some e' \<Longrightarrow> e_obj e = e_obj e' \<Longrightarrow> k = k'"
  unfolding reg_wf_def by blast

lemma reg_wf_next: "reg_wf r \<Longrightarrow> get r k = Some e \<Longrightarrow> e_obj e < reg_nextObj r"
  by (simp add: reg_wf_def)

lemma reg_wf_cfg: "reg_wf r \<Longrightarrow> cfg_ok (reg_cfg r)"
  by (simp add: reg_wf_def)

lemma reg_wfI:
  assumes "distinct (map fst (reg_entries r))" and "cfg_ok (reg_cfg r)"
    and "\<And>k e. get r k = Some e \<Longrightarrow> entry_ok k e"
    and "\<And>k e. get r k = Some e \<Longrightarrow> e_obj e < reg_nextObj r"
    and "\<And>k k' e e'. get r k = Some e \<Longrightarrow> get r k' = Some e' \<Longrightarrow> e_obj e = e_obj e' \<Longrightarrow> k = k'"
    and "reg_readyCount r = int (count_entries e_serving (reg_entries r))"
  shows "reg_wf r"
  using assms unfolding reg_wf_def by blast

lemma reg_wf_count:
  "reg_wf r \<Longrightarrow> reg_readyCount r = int (count_entries e_serving (reg_entries r))"
  by (simp add: reg_wf_def)

lemma reg_wf_distinct: "reg_wf r \<Longrightarrow> distinct (map fst (reg_entries r))"
  by (simp add: reg_wf_def)

lemma reg_wf_notify [simp]: "reg_wf (notify r) = reg_wf r"
  by (simp add: reg_wf_def)

lemma New_wf: "reg_wf (New cfg)"
  by (auto simp: reg_wf_def New_def cfg_ok_def second_def)

lemma wf_change:
  assumes wf: "reg_wf r" and k: "get r k = Some e"
    and ok: "entry_ok k e'" and obj: "e_obj e' = e_obj e"
    and r': "reg_entries r' = AList.update k e' (reg_entries r)" "reg_cfg r' = reg_cfg r"
      "reg_nextObj r' = reg_nextObj r"
    and n: "reg_readyCount r' = reg_readyCount r - of_bool (e_serving e) + of_bool (e_serving e')"
  shows "reg_wf r'"
proof -
  have get': "get r' k' = (if k' = k then Some e' else get r k')" for k'
    by (simp add: r'(1) update_conv')
  have old: "\<exists>d. get r k' = Some d \<and> e_obj d = e_obj d'" if "get r' k' = Some d'" for k' d'
    using that k obj by (cases "k' = k") (auto simp: get')
  show ?thesis
  proof (rule reg_wfI)
    show "distinct (map fst (reg_entries r'))"
      using reg_wf_distinct [OF wf] by (simp add: r'(1) distinct_update)
    show "cfg_ok (reg_cfg r')" using reg_wf_cfg [OF wf] by (simp add: r'(2))
    show "entry_ok k' e1" if "get r' k' = Some e1" for k' e1
      using that reg_wf_entry [OF wf] ok by (auto simp: get' split: if_splits)
    show "e_obj e1 < reg_nextObj r'" if "get r' k' = Some e1" for k' e1
      using old [OF that] reg_wf_next [OF wf] r'(3) by metis
    show "k1 = k2" if "get r' k1 = Some e1" "get r' k2 = Some e2" "e_obj e1 = e_obj e2" for k1 k2 e1 e2
      using old [OF that(1)] old [OF that(2)] that(3) reg_wf_obj [OF wf] by metis
    show "reg_readyCount r' = int (count_entries e_serving (reg_entries r'))"
      using count_entries_update [OF k, of e_serving e'] reg_wf_count [OF wf] n
      by (simp add: r'(1) of_bool_def split: if_splits)
  qed
qed

lemma wf_fresh:
  assumes wf: "reg_wf r" and k: "get r k = None"
    and ok: "entry_ok k e'" and obj: "e_obj e' = reg_nextObj r" and off: "\<not> e_serving e'"
    and r': "reg_entries r' = AList.update k e' (reg_entries r)" "reg_cfg r' = reg_cfg r"
      "reg_nextObj r' = Suc (reg_nextObj r)" "reg_readyCount r' = reg_readyCount r"
  shows "reg_wf r'"
proof -
  have get': "get r' k' = (if k' = k then Some e' else get r k')" for k'
    by (simp add: r'(1) update_conv')
  have lt: "e_obj e < reg_nextObj r" if "get r k' = Some e" for k' e
    using reg_wf_next [OF wf that] .
  show ?thesis
  proof (rule reg_wfI)
    show "distinct (map fst (reg_entries r'))"
      using reg_wf_distinct [OF wf] by (simp add: r'(1) distinct_update)
    show "cfg_ok (reg_cfg r')" using reg_wf_cfg [OF wf] by (simp add: r'(2))
    show "entry_ok k' e1" if "get r' k' = Some e1" for k' e1
      using that reg_wf_entry [OF wf] ok by (auto simp: get' split: if_splits)
    show "e_obj e1 < reg_nextObj r'" if "get r' k' = Some e1" for k' e1
      using that lt [of k' e1] obj by (auto simp: get' r'(3) split: if_splits)
    show "k1 = k2" if "get r' k1 = Some e1" "get r' k2 = Some e2" "e_obj e1 = e_obj e2" for k1 k2 e1 e2
      using that reg_wf_obj [OF wf, of k1 e1 k2 e2] lt [of k1 e1] lt [of k2 e2] obj
      by (auto simp: get' split: if_splits)
    show "reg_readyCount r' = int (count_entries e_serving (reg_entries r'))"
      using count_entries_fresh [OF k, of e_serving e'] reg_wf_count [OF wf] off
      by (simp add: r'(1,4))
  qed
qed

text \<open>The form the operations produce: one entry rewritten, the admission count adjusted.\<close>

lemma wf_put:
  assumes "reg_wf r" and "get r k = Some e"
    and "reg_entries r1 = reg_entries r" and "reg_cfg r1 = reg_cfg r"
    and "reg_nextObj r1 = reg_nextObj r"
    and "entry_ok k e'" and "e_obj e' = e_obj e"
    and "reg_readyCount r1 = reg_readyCount r - of_bool (e_serving e) + of_bool (e_serving e')"
  shows "reg_wf (put k e' r1)"
  by (rule wf_change [OF assms(1,2,6,7)]) (simp_all add: assms(3-5,8), simp add: put_def assms(3))

section \<open>Every operation keeps the invariant\<close>

lemma Enter_wf [wf_intros]:
  assumes "reg_wf r" and "st \<noteq> StatePaused" and "st \<noteq> StateRemoving"
  shows "reg_wf (Enter now k g st reason r)"
proof (cases "current r k g")
  case None
  with assms show ?thesis by (simp add: Enter_def)
next
  case (Some e)
  then have get: "get r k = Some e" by (simp add: current_Some)
  have ok: "entry_ok k e" using reg_wf_entry [OF assms(1) get] .
  show ?thesis
    using assms entry_okD [OF ok] Some
    by (auto simp: Enter_def Let_def intro!: wf_put [OF assms(1) get] entry_okI [OF ok])
qed

lemma Ready_wf [wf_intros]:
  assumes "reg_wf r"
  shows "reg_wf (Ready now k g url token dur r)"
proof (cases "current r k g")
  case None
  with assms show ?thesis by (simp add: Ready_def)
next
  case (Some e)
  then have get: "get r k = Some e" by (simp add: current_Some)
  have ok: "entry_ok k e" using reg_wf_entry [OF assms(1) get] .
  show ?thesis
    using assms entry_okD [OF ok] Some
    by (auto simp: Ready_def Let_def intro!: wf_put [OF assms(1) get] entry_okI [OF ok])
qed

lemma revoke_wf:
  assumes "reg_wf r" and "get r k = Some e0" and "entry_ok k e" and "e_obj e = e_obj e0"
    and "e_serving e0"
  shows "reg_wf (revoke now k e r)"
  using assms(4,5) entry_okD [OF assms(3)]
  by (auto simp: revoke_def Let_def intro!: wf_put [OF assms(1,2)] entry_okI [OF assms(3)])

lemma label_failed_wf:
  assumes "reg_wf r" and "get r k = Some e0" and "entry_ok k e" and "e_obj e = e_obj e0"
    and "\<not> e_serving e0" and "\<not> e_serving e"
  shows "reg_wf (label_failed now k e r)"
  using assms(4-6) entry_okD [OF assms(3)]
  by (auto simp: label_failed_def Let_def intro!: wf_put [OF assms(1,2)] entry_okI [OF assms(3)])

lemma Failing_wf [wf_intros]:
  assumes "reg_wf r"
  shows "reg_wf (Failing now k g reason dur r)"
proof (cases "current r k g")
  case None
  with assms show ?thesis by (simp add: Failing_def)
next
  case (Some e)
  then have get: "get r k = Some e" by (simp add: current_Some)
  have ok: "entry_ok k e" using reg_wf_entry [OF assms(1) get] .
  let ?e = "upd_rec (\<lambda>c. c\<lparr>rec_lastAttempt := now, rec_lastResult := dur,
                         rec_failStreak := rec_failStreak c + 1, rec_reason := reason\<rparr>) e"
  have ok': "entry_ok k ?e"
    using entry_okD [OF ok] by (intro entry_okI [OF ok]) auto
  have pause: "reg_wf (put k (?e\<lparr>e_nextTry := t\<rparr>) r)" for t
    using entry_okD [OF ok'] by (intro wf_put [OF assms(1) get] entry_okI [OF ok']) auto
  have blip: "reg_wf (put k (arm r now ?e) r)"
    using entry_okD [OF ok'] by (intro wf_put [OF assms(1) get] entry_okI [OF ok']) auto
  show ?thesis
    using revoke_wf [OF assms get ok'] label_failed_wf [OF assms get ok'] pause blip
    by (simp add: Failing_def Some Let_def)
qed

lemma Demote_wf [wf_intros]:
  assumes "reg_wf r"
  shows "reg_wf (Demote now k g reason r)"
proof (cases "current r k g")
  case None
  with assms show ?thesis by (simp add: Demote_def)
next
  case (Some e)
  then have get: "get r k = Some e" by (simp add: current_Some)
  let ?e = "upd_rec (\<lambda>c. c\<lparr>rec_lastAttempt := now, rec_reason := reason,
                         rec_failStreak := rs_demoteAfter (reg_cfg r)\<rparr>) e"
  have ok': "entry_ok k ?e"
    using entry_okD [OF reg_wf_entry [OF assms get]] reg_wf_cfg [OF assms]
    by (intro entry_okI [OF reg_wf_entry [OF assms get]]) (auto simp: cfg_ok_def)
  show ?thesis
    using revoke_wf [OF assms get ok'] label_failed_wf [OF assms get ok']
    by (simp add: Demote_def Some Let_def)
qed

lemma Pause_wf [wf_intros]:
  assumes "reg_wf r"
  shows "reg_wf (Pause now k g reason r)"
proof (cases "current r k g")
  case None
  with assms show ?thesis by (simp add: Pause_def)
next
  case (Some e)
  then have get: "get r k = Some e" by (simp add: current_Some)
  have ok: "entry_ok k e" using reg_wf_entry [OF assms(1) get] .
  show ?thesis
    using entry_okD [OF ok] Some
    by (auto simp: Pause_def Let_def intro!: wf_put [OF assms(1) get] entry_okI [OF ok])
qed

lemma small_ops_wf [wf_intros]:
  assumes "reg_wf r"
  shows "reg_wf (DeferDrain k g r)" "reg_wf (DrainCompleted k g r)"
    "reg_wf (snd (TakeScopeChanged k g r))" "reg_wf (DeleteFailed now k g reason r)"
proof -
  have put: "reg_wf (put k e' r)"
    if "current r k g = Some e" "entry_ok k e \<Longrightarrow> entry_ok k e'" "e_obj e' = e_obj e"
      "e_serving e' = e_serving e" for e e'
    using that reg_wf_entry [OF assms]
    by (intro wf_put [OF assms, of k e]) (auto simp: current_Some)
  show "reg_wf (DeferDrain k g r)" "reg_wf (DrainCompleted k g r)"
    "reg_wf (snd (TakeScopeChanged k g r))" "reg_wf (DeleteFailed now k g reason r)"
    using assms
    by (auto simp: transition_defs entry_ok_def intro!: put split: option.split)
qed

lemma DeleteDone_wf [wf_intros]:
  assumes "reg_wf r"
  shows "reg_wf (DeleteDone k g r)"
proof (cases "current r k g")
  case None
  with assms show ?thesis by (simp add: DeleteDone_def)
next
  case (Some e)
  then have get: "get r k = Some e" by (simp add: current_Some)
  show ?thesis
  proof (cases "rec_state (e_record e) = StateRemoving")
    case False
    with Some assms show ?thesis by (simp add: DeleteDone_def)
  next
    case True
    then have off: "\<not> e_serving e" using reg_wf_entry [OF assms get] by (auto simp: entry_ok_def)
    have "count_entries e_serving (AList.delete k (reg_entries r))
            = count_entries e_serving (reg_entries r)"
      using count_entries_delete [OF _ get, of e_serving] assms off by (simp add: reg_wf_def)
    then have "reg_wf (r\<lparr>reg_entries := AList.delete k (reg_entries r)\<rparr>)"
      using assms by (auto simp: reg_wf_def delete_conv' distinct_delete split: if_splits)
    with True Some show ?thesis by (simp add: DeleteDone_def)
  qed
qed

lemma blank_entry_ok: "entry_ok k (blank_entry k now obj)"
  by (simp add: entry_ok_def blank_entry_def fresh_record_def)

lemma ensure_entry_wf:
  assumes "reg_wf r" and "ensure_entry now k r = (e, r')"
  shows "reg_wf r' \<and> get r' k = Some e"
proof (cases "get r k")
  case None
  with assms(2) have e: "e = blank_entry k now (reg_nextObj r)"
    and r': "r' = put k e (r\<lparr>reg_nextObj := reg_nextObj r + 1\<rparr>)"
    by (auto simp: ensure_entry_def Let_def)
  have "reg_wf r'"
    by (rule wf_fresh [OF assms(1) None blank_entry_ok [of k now "reg_nextObj r"]])
       (simp_all add: r' e put_def, simp_all add: blank_entry_def)
  with r' show ?thesis by simp
qed (use assms in \<open>simp add: ensure_entry_def\<close>)

lemma busy_wf:
  "reg_wf r \<Longrightarrow> get r k = Some e \<Longrightarrow> reg_wf (put k (e\<lparr>e_busy := b\<rparr>) r)"
  by (rule wf_put, assumption, assumption)
     (auto simp: entry_ok_def [of k "e\<lparr>e_busy := b\<rparr>"] entry_ok_def [of k e] dest: reg_wf_entry)

lemma Begin_wf [wf_intros]: "reg_wf r \<Longrightarrow> reg_wf (snd (Begin now k r))"
  using ensure_entry_wf [of r now k] by (auto simp: Begin_def busy_wf split: prod.splits)

lemma BeginDelete_wf [wf_intros]: "reg_wf r \<Longrightarrow> reg_wf (snd (BeginDelete k r))"
  by (auto simp: BeginDelete_def busy_wf split: option.splits)

lemma Release_wf [wf_intros]: "reg_wf r \<Longrightarrow> reg_wf (Release t r)"
  by (auto simp: Release_def busy_wf split: option.splits)

lemma take_change_wf [wf_intros]:
  "reg_wf r \<Longrightarrow> reg_wf (case take_change r of None \<Rightarrow> r | Some r' \<Rightarrow> r')"
  by (auto simp: take_change_def reg_wf_def split: option.splits if_splits)

lemma sync_member_wf:
  assumes "reg_wf r"
  shows "reg_wf (sync_member now m r)"
proof (cases "get r (m_key m)")
  case None
  have "reg_wf (put (m_key m) ((blank_entry (m_key m) now (reg_nextObj r))
      \<lparr>e_scope := m_scope m, e_scopeKnown := m_scopeKnown m, e_scopeFP := memberScopeFP m\<rparr>)
         (r\<lparr>reg_nextObj := reg_nextObj r + 1\<rparr>))"
    by (rule wf_fresh [OF assms None])
       (auto simp: put_def blank_entry_def entry_ok_def fresh_record_def memberScopeFP_def)
  with None show ?thesis by (simp add: sync_member_def Let_def)
next
  case (Some e)
  have ok: "entry_ok (m_key m) e" by (rule reg_wf_entry [OF assms Some])
  show ?thesis
    using entry_okD [OF ok] assms
    by (auto simp: sync_member_def Some Let_def memberScopeFP_def
        intro!: wf_put [OF assms Some] entry_okI [OF ok])
qed

lemma sync_leave_wf:
  assumes "reg_wf r"
  shows "reg_wf (sync_leave now k r)"
proof (cases "get r k")
  case None
  with assms show ?thesis by (simp add: sync_leave_def)
next
  case (Some e)
  have ok: "entry_ok k e" by (rule reg_wf_entry [OF assms Some])
  show ?thesis
    using entry_okD [OF ok] assms
    by (auto simp: sync_leave_def Some Let_def intro!: wf_put [OF assms Some] entry_okI [OF ok])
qed

lemma Sync_wf [wf_intros]: "reg_wf r \<Longrightarrow> reg_wf (Sync now ms r)"
proof -
  have "reg_wf (fold (sync_member now) ms r)" if "reg_wf r" for ms r
    using that by (induction ms arbitrary: r) (auto intro: sync_member_wf)
  moreover have "reg_wf (fold (sync_leave now) ks r)" if "reg_wf r" for ks r
    using that by (induction ks arbitrary: r) (auto intro: sync_leave_wf)
  ultimately show "reg_wf r \<Longrightarrow> reg_wf (Sync now ms r)" by (simp add: Sync_def Let_def)
qed

lemma regate_simps [simp]:
  "e_record (regate r e) = e_record e" "e_serving (regate r e) = e_serving e"
  "e_url (regate r e) = e_url e" "e_token (regate r e) = e_token e"
  "e_scopeFP (regate r e) = e_scopeFP e" "e_busy (regate r e) = e_busy e"
  "e_scope (regate r e) = e_scope e" "e_scopeKnown (regate r e) = e_scopeKnown e"
  "e_scopeChanged (regate r e) = e_scopeChanged e" "e_obj (regate r e) = e_obj e"
  by (auto simp: regate_def)

lemma regate_count:
  "count_entries e_serving (map (\<lambda>(k, e). (k, regate r e)) m) = count_entries e_serving m"
  by (induction m) (simp_all add: split_beta)

lemma regate_ok [simp]: "entry_ok k (regate r e) = entry_ok k e"
  by (simp add: entry_ok_def)

lemma UpdateSettings_get:
  "get (UpdateSettings s r) k = map_option (regate (with_settings s r)) (get r k)"
  by (simp add: UpdateSettings_def Let_def map_of_map, simp add: with_settings_def Let_def)

lemma UpdateSettings_frame [simp]:
  "map fst (reg_entries (UpdateSettings s r)) = map fst (reg_entries r)"
  "reg_nextObj (UpdateSettings s r) = reg_nextObj r"
  "reg_readyCount (UpdateSettings s r) = reg_readyCount r"
  "reg_seq (UpdateSettings s r) = reg_seq r" "reg_pending (UpdateSettings s r) = reg_pending r"
  "count_entries e_serving (reg_entries (UpdateSettings s r)) = count_entries e_serving (reg_entries r)"
  by (auto simp: UpdateSettings_def with_settings_def Let_def regate_count comp_def)

lemma UpdateSettings_wf [wf_intros]:
  assumes "reg_wf r"
  shows "reg_wf (UpdateSettings s r)"
proof (rule reg_wfI)
  have old: "\<exists>d. get r k = Some d \<and> e_obj d = e_obj e \<and> (entry_ok k e = entry_ok k d)"
    if e: "get (UpdateSettings s r) k = Some e" for k e
  proof -
    obtain d where "get r k = Some d" and "e = regate (with_settings s r) d"
      using e by (cases "get r k") (simp_all add: UpdateSettings_get)
    then show ?thesis by simp
  qed
  show "distinct (map fst (reg_entries (UpdateSettings s r)))"
    using reg_wf_distinct [OF assms] by simp
  show "cfg_ok (reg_cfg (UpdateSettings s r))"
    using reg_wf_cfg [OF assms]
    by (auto simp: UpdateSettings_def with_settings_def Let_def cfg_ok_def pick_positive_def)
  show "entry_ok k e" if "get (UpdateSettings s r) k = Some e" for k e
    using old [OF that] reg_wf_entry [OF assms] by metis
  show "e_obj e < reg_nextObj (UpdateSettings s r)" if "get (UpdateSettings s r) k = Some e" for k e
    using old [OF that] reg_wf_next [OF assms] by (metis UpdateSettings_frame(2))
  show "k1 = k2" if "get (UpdateSettings s r) k1 = Some e1" "get (UpdateSettings s r) k2 = Some e2"
    "e_obj e1 = e_obj e2" for k1 k2 e1 e2
    using old [OF that(1)] old [OF that(2)] that(3) reg_wf_obj [OF assms] by metis
  show "reg_readyCount (UpdateSettings s r)
      = int (count_entries e_serving (reg_entries (UpdateSettings s r)))"
    using reg_wf_count [OF assms] by simp
qed

lemma reg_apply_wf: "reg_wf r \<Longrightarrow> op_ok op \<Longrightarrow> reg_wf (reg_apply now op r)"
  by (cases op) (simp_all add: wf_intros)

lemma reg_run_wf: "reg_wf r \<Longrightarrow> \<forall>x \<in> set ops. op_ok (snd x) \<Longrightarrow> reg_wf (reg_run ops r)"
  by (induction ops arbitrary: r) (auto simp: reg_apply_wf)

end
