(* ===== verification/Registry_Laws.thy ===== *)
theory Registry_Laws
  imports Registry_Invariants
begin

text \<open>
  What the readiness registry promises to its clients. Everything the data plane can see
  of it is the map \<open>offer\<close>: which relay serves, under which URL, relay key and
  incarnation. The laws say which operations can widen it (only \<open>Ready\<close>), that each
  change of membership is announced, and how that carries to whole histories; the
  locale \<open>notifier\<close> states the part the applier's settle barrier rests on.
\<close>

section \<open>The serving map\<close>

definition entry_offer :: "entry \<Rightarrow> (string \<times> string \<times> nat) option" where
  "entry_offer e =
     (if e_serving e then Some (e_url e, e_token e, rec_generation (e_record e)) else None)"

definition offer :: "registry \<Rightarrow> relay_key \<Rightarrow> (string \<times> string \<times> nat) option" where
  "offer r k = (case get r k of None \<Rightarrow> None | Some e \<Rightarrow> entry_offer e)"

text \<open>Membership: the serving relays and their incarnations.\<close>

definition members :: "registry \<Rightarrow> relay_key \<Rightarrow> nat option" where
  "members r k = map_option (\<lambda>(u, t, g). g) (offer r k)"

lemma offer_put [simp]: "offer (put k e r) = (offer r)(k := entry_offer e)"
  by (auto simp: offer_def)

lemma offer_cong: "reg_entries r = reg_entries r' \<Longrightarrow> offer r = offer r'"
  by (auto simp: offer_def)

lemma offer_simps [simp]:
  "offer (notify r) = offer r" "offer (r\<lparr>reg_readyCount := n\<rparr>) = offer r"
  "offer (r\<lparr>reg_nextObj := m\<rparr>) = offer r" "offer (r\<lparr>reg_pending := b\<rparr>) = offer r"
  "offer (r\<lparr>reg_entries := AList.delete k (reg_entries r)\<rparr>) = (offer r)(k := None)"
  by (auto simp: offer_def delete_conv')

lemma offer_get: "get r k = Some e \<Longrightarrow> offer r k = entry_offer e"
  by (simp add: offer_def)

lemma offer_current: "current r k g = Some e \<Longrightarrow> offer r k = entry_offer e"
  by (simp add: current_Some offer_get)

lemma IsReady_offer: "IsReady r k \<longleftrightarrow> offer r k \<noteq> None"
  by (auto simp: IsReady_def offer_def entry_offer_def split: option.splits)

text \<open>
  Two ways an operation relates to the map: it can only withdraw rows, or every change of
  membership raises the notification count and leaves the signal pending.
\<close>

definition narrows :: "registry \<Rightarrow> registry \<Rightarrow> bool" where
  "narrows r r' \<longleftrightarrow> (\<forall>k. offer r' k = None \<or> offer r' k = offer r k)"

definition announces :: "registry \<Rightarrow> registry \<Rightarrow> bool" where
  "announces r r' \<longleftrightarrow>
     reg_seq r \<le> reg_seq r' \<and> (reg_seq r < reg_seq r' \<longrightarrow> reg_pending r')
     \<and> (reg_seq r = reg_seq r' \<longrightarrow> members r' = members r \<and> (reg_pending r \<longrightarrow> reg_pending r'))"

lemma narrows_refl [simp]: "narrows r r"
  by (simp add: narrows_def)

lemma narrows_trans: "narrows r s \<Longrightarrow> narrows s t \<Longrightarrow> narrows r t"
  unfolding narrows_def by metis

lemma announces_refl [simp]: "announces r r"
  by (simp add: announces_def)

lemma announces_trans: "announces r s \<Longrightarrow> announces s t \<Longrightarrow> announces r t"
  unfolding announces_def
  by (cases "reg_seq r = reg_seq s"; cases "reg_seq s = reg_seq t") auto

lemma fold_lift:
  assumes "\<And>r. P r r" and "\<And>r s t. P r s \<Longrightarrow> P s t \<Longrightarrow> P r t" and "\<And>x r. P r (f x r)"
  shows "P r (fold f xs r)"
proof (induction xs arbitrary: r)
  case Nil
  then show ?case by (simp add: assms(1))
next
  case (Cons x xs)
  show ?case using assms(2) [OF assms(3) Cons.IH] by simp
qed

lemma Sync_lift:
  assumes "\<And>r. P r r" and "\<And>r s t. P r s \<Longrightarrow> P s t \<Longrightarrow> P r t"
    and "\<And>m r. P r (sync_member now m r)" and "\<And>k r. P r (sync_leave now k r)"
  shows "P r (Sync now ms r)"
proof -
  have "P r (fold (sync_member now) ms r)"
    by (rule fold_lift [of P, OF assms(1) assms(2) assms(3)])
  moreover have "P s (fold (sync_leave now) ks s)" for ks s
    by (rule fold_lift [of P, OF assms(1) assms(2) assms(4)])
  ultimately show ?thesis unfolding Sync_def Let_def by (rule assms(2))
qed

section \<open>Which operations withdraw, and which announce\<close>

lemmas law_defs = narrows_def announces_def members_def entry_offer_def fun_eq_iff

lemma Ready_offer:
  "offer (Ready now k g url token dur r) =
     (if GenerationOf r k = Some g then (offer r)(k := Some (url, token, g)) else offer r)"
proof (cases "current r k g")
  case None
  then have "GenerationOf r k \<noteq> Some g" by (simp add: current_None)
  with None show ?thesis by (simp add: Ready_def)
next
  case (Some e)
  then have "GenerationOf r k = Some g" by (simp add: current_Some GenerationOf_def)
  moreover have "rec_generation (e_record e) = g" using Some by (simp add: current_Some)
  ultimately show ?thesis using Some by (auto simp: Ready_def Let_def entry_offer_def)
qed

lemma Ready_announces: "announces r (Ready now k g url token dur r)"
proof (cases "current r k g")
  case None
  then show ?thesis by (simp add: Ready_def)
next
  case (Some e)
  then show ?thesis by (auto simp: Ready_def Let_def law_defs offer_current)
qed

lemma single_laws:
  "narrows r (Enter now k g st reason r)" "announces r (Enter now k g st reason r)"
  "narrows r (DeferDrain k g r)" "announces r (DeferDrain k g r)"
  "narrows r (DrainCompleted k g r)" "announces r (DrainCompleted k g r)"
  "narrows r (snd (TakeScopeChanged k g r))" "announces r (snd (TakeScopeChanged k g r))"
  "narrows r (DeleteFailed now k g reason r)" "announces r (DeleteFailed now k g reason r)"
  "narrows r (Pause now k g reason r)" "announces r (Pause now k g reason r)"
  "narrows r (Failing now k g reason dur r)" "announces r (Failing now k g reason dur r)"
  "narrows r (Demote now k g reason r)" "announces r (Demote now k g reason r)"
  by (cases "current r k g"; auto simp: transition_defs law_defs offer_current)+

lemma flight_laws:
  "narrows r (snd (Begin now k r))" "announces r (snd (Begin now k r))"
  "narrows r (snd (BeginDelete k r))" "announces r (snd (BeginDelete k r))"
  "narrows r (Release t r)" "announces r (Release t r)"
proof -
  show "narrows r (snd (Begin now k r))" "announces r (snd (Begin now k r))"
    by (cases "get r k"; auto simp: Begin_def ensure_entry_def blank_entry_def Let_def law_defs offer_def)+
  show "narrows r (snd (BeginDelete k r))" "announces r (snd (BeginDelete k r))"
    by (cases "get r k"; auto simp: BeginDelete_def law_defs offer_get)+
  show "narrows r (Release t r)" "announces r (Release t r)"
    by (cases "get r (fst t)"; auto simp: Release_def law_defs offer_get)+
qed

lemma DeleteDone_laws:
  "narrows r (DeleteDone k g r)" "announces r (DeleteDone k g r)"
  by (cases "current r k g"; auto simp: DeleteDone_def law_defs)+

lemma sync_laws:
  "reg_wf r \<Longrightarrow> narrows r (sync_member now m r)" "announces r (sync_member now m r)"
  "narrows r (sync_leave now k r)" "announces r (sync_leave now k r)"
proof -
  have "announces r (sync_member now m r) \<and> (reg_wf r \<longrightarrow> narrows r (sync_member now m r))"
  proof (cases "get r (m_key m)")
    case None
    then have "offer r (m_key m) = None" by (simp add: offer_def)
    with None show ?thesis by (simp add: sync_member_def Let_def blank_entry_def law_defs)
  next
    case (Some e)
    have "reg_wf r \<Longrightarrow> e_serving e \<Longrightarrow> rec_state (e_record e) \<noteq> StateRemoving"
      using reg_wf_entry [OF _ Some] by (simp add: entry_ok_def)
    with Some show ?thesis by (auto simp: sync_member_def Let_def law_defs offer_get)
  qed
  then show "reg_wf r \<Longrightarrow> narrows r (sync_member now m r)" "announces r (sync_member now m r)"
    by auto
  show "narrows r (sync_leave now k r)" "announces r (sync_leave now k r)"
    by (cases "get r k"; auto simp: sync_leave_def Let_def law_defs offer_get)+
qed

lemma UpdateSettings_offer [simp]: "offer (UpdateSettings s r) = offer r"
proof
  fix k
  show "offer (UpdateSettings s r) k = offer r k"
    by (cases "get r k") (simp_all add: offer_def UpdateSettings_get entry_offer_def)
qed

fun is_ready_op :: "reg_op \<Rightarrow> bool" where
  "is_ready_op (OpReady k g u t d) \<longleftrightarrow> True"
| "is_ready_op _ \<longleftrightarrow> False"

lemma Sync_narrows:
  assumes "reg_wf r"
  shows "narrows r (Sync now ms r)"
proof -
  have "reg_wf r \<longrightarrow> reg_wf (Sync now ms r) \<and> narrows r (Sync now ms r)"
    by (rule Sync_lift [of "\<lambda>r s. reg_wf r \<longrightarrow> reg_wf s \<and> narrows r s"])
       (auto intro: narrows_trans sync_laws sync_member_wf sync_leave_wf)
  with assms show ?thesis by simp
qed

lemma narrows_apply: "reg_wf r \<Longrightarrow> \<not> is_ready_op op \<Longrightarrow> narrows r (reg_apply now op r)"
proof (cases op)
  case (OpSync ms)
  assume "reg_wf r"
  with OpSync show ?thesis by (simp add: Sync_narrows)
next
  case (OpUpdateSettings s)
  then show ?thesis by (simp add: narrows_def)
next
  case OpTakeChange
  then show ?thesis by (simp add: narrows_def take_change_def)
qed (simp_all add: single_laws flight_laws DeleteDone_laws)

lemma announces_apply: "op \<noteq> OpTakeChange \<Longrightarrow> announces r (reg_apply now op r)"
proof (cases op)
  case (OpSync ms)
  then show ?thesis
    using Sync_lift [of announces, OF announces_refl announces_trans sync_laws(2,4)] by simp
next
  case (OpUpdateSettings s)
  then show ?thesis by (simp add: announces_def members_def fun_eq_iff)
qed (simp_all add: single_laws flight_laws DeleteDone_laws Ready_announces)

end
