(* ===== verification/Registry_Histories.thy ===== *)
theory Registry_Histories
  imports Registry_Laws
begin

text \<open>
  Properties of the readiness registry over whole histories of calls: what the serving
  snapshot contains and where its rows come from, which calls a stale completion can
  still affect, and the single-flight, drain and removal protocols that the reconciler
  relies on between its calls.
\<close>

section \<open>Interface: change notification\<close>

text \<open>
  What the applier relies on: the sequence number never falls, and the view it publishes
  cannot change without it rising. So a view captured at a number that is still current
  is still exact.
\<close>

locale notifier =
  fixes seq :: "'s \<Rightarrow> nat" and view :: "'s \<Rightarrow> 'v" and step :: "'s \<Rightarrow> 's \<Rightarrow> bool"
  assumes seq_mono: "step s t \<Longrightarrow> seq s \<le> seq t"
    and view_pinned: "step s t \<Longrightarrow> seq s = seq t \<Longrightarrow> view s = view t"
begin

lemma run_mono: "step\<^sup>*\<^sup>* s t \<Longrightarrow> seq s \<le> seq t"
  by (induction rule: rtranclp_induct) (auto dest: seq_mono)

lemma run_pinned: "step\<^sup>*\<^sup>* s t \<Longrightarrow> seq s = seq t \<Longrightarrow> view s = view t"
proof (induction rule: rtranclp_induct)
  case base
  then show ?case by simp
next
  case (step t u)
  with seq_mono [OF step(2)] run_mono [OF step(1)] have "seq s = seq t" "seq t = seq u" by auto
  with step view_pinned show ?case by metis
qed

end

text \<open>One atomic call on the registry, whatever its arguments.\<close>

inductive reg_step :: "registry \<Rightarrow> registry \<Rightarrow> bool" where
  "reg_step r (reg_apply now op r)"

inductive_cases reg_stepE: "reg_step r r'"

lemma take_change_frame [simp]:
  "reg_seq (case take_change r of None \<Rightarrow> r | Some r' \<Rightarrow> r') = reg_seq r"
  "offer (case take_change r of None \<Rightarrow> r | Some r' \<Rightarrow> r') = offer r"
  by (auto simp: take_change_def)

lemma reg_step_announces: "reg_step r r' \<Longrightarrow> reg_seq r \<le> reg_seq r' \<and> (reg_seq r = reg_seq r' \<longrightarrow> members r = members r')"
proof (erule reg_stepE)
  fix now op
  assume r': "r' = reg_apply now op r"
  show ?thesis
  proof (cases "op = OpTakeChange")
    case True
    then show ?thesis by (simp add: r' members_def fun_eq_iff)
  next
    case False
    with announces_apply [OF this, of r now] show ?thesis by (simp add: r' announces_def)
  qed
qed

interpretation rn: notifier reg_seq members reg_step
  using reg_step_announces by unfold_locales auto

lemma reg_run_steps: "reg_step\<^sup>*\<^sup>* r (reg_run ops r)"
proof (induction ops arbitrary: r)
  case Nil
  then show ?case by simp
next
  case (Cons x ops)
  obtain now op where x: "x = (now, op)" by (cases x)
  have "reg_step r (reg_apply now op r)" by (rule reg_step.intros)
  with Cons.IH show ?case by (simp add: x converse_rtranclp_into_rtranclp)
qed

lemma reg_run_append: "reg_run (xs @ ys) r = reg_run ys (reg_run xs r)"
  by (induction xs r rule: reg_run.induct) auto

section \<open>The serving snapshot\<close>

lemma Serving_rows:
  assumes "reg_wf r"
  shows "s \<in> set (Serving r) \<longleftrightarrow>
    (\<exists>e. get r (sv_key s) = Some e \<and> e_serving e \<and> s = serving_of e)"
proof -
  have key: "sv_key (serving_of e) = k" if "get r k = Some e" for k e
    using reg_wf_entry [OF assms that] by (simp add: serving_of_def entry_ok_def)
  have "s \<in> set (Serving r) \<longleftrightarrow> (\<exists>k e. (k, e) \<in> set (reg_entries r) \<and> e_serving e \<and> s = serving_of e)"
  proof -
    have "set (Serving r) = serving_of ` {e \<in> snd ` set (reg_entries r). e_serving e}"
      by (simp add: Serving_def)
    then show ?thesis by (force simp: image_iff)
  qed
  also have "\<dots> \<longleftrightarrow> (\<exists>k e. get r k = Some e \<and> e_serving e \<and> s = serving_of e)"
    using reg_wf_distinct [OF assms] by (metis map_of_is_SomeI map_of_SomeD)
  also have "\<dots> \<longleftrightarrow> (\<exists>e. get r (sv_key s) = Some e \<and> e_serving e \<and> s = serving_of e)"
    using key by metis
  finally show ?thesis .
qed

lemma Serving_offer:
  assumes "reg_wf r"
  shows "s \<in> set (Serving r) \<Longrightarrow> offer r (sv_key s) = Some (sv_url s, sv_token s, sv_version s)"
    and "IsReady r k \<longleftrightarrow> k \<in> sv_key ` set (Serving r)"
proof -
  show "s \<in> set (Serving r) \<Longrightarrow> offer r (sv_key s) = Some (sv_url s, sv_token s, sv_version s)"
    using Serving_rows [OF assms, of s] by (auto simp: offer_def entry_offer_def serving_of_def)
  have key: "sv_key (serving_of e) = k" if "get r k = Some e" for e
    using reg_wf_entry [OF assms that] by (simp add: serving_of_def entry_ok_def)
  show "IsReady r k \<longleftrightarrow> k \<in> sv_key ` set (Serving r)"
  proof
    assume "IsReady r k"
    then obtain e where e: "get r k = Some e" "e_serving e" by (auto simp: IsReady_def split: option.splits)
    with key have "serving_of e \<in> set (Serving r)" by (simp add: Serving_rows [OF assms])
    with key [OF e(1)] show "k \<in> sv_key ` set (Serving r)" by force
  next
    assume "k \<in> sv_key ` set (Serving r)"
    then show "IsReady r k" by (auto simp: Serving_rows [OF assms] IsReady_def)
  qed
qed

lemma Serving_length: "reg_wf r \<Longrightarrow> int (length (Serving r)) = reg_readyCount r"
  by (simp add: reg_wf_count Serving_def count_entries_def filter_map comp_def)

lemma Serving_distinct:
  assumes "reg_wf r"
  shows "distinct (map sv_key (Serving r))"
proof -
  let ?rows = "map serving_of (filter e_serving (map snd (reg_entries r)))"
  have "map sv_key ?rows = map fst (filter (\<lambda>kv. e_serving (snd kv)) (reg_entries r))"
    using reg_wf_entry [OF assms] reg_wf_distinct [OF assms]
    by (auto simp: filter_map comp_def serving_of_def entry_ok_def)
  also have "distinct \<dots>" using reg_wf_distinct [OF assms] by (rule distinct_map_filter)
  finally have "distinct (map sv_key ?rows)" .
  moreover have "mset (map sv_key (Serving r)) = mset (map sv_key ?rows)"
    unfolding mset_map Serving_def mset_sort ..
  ultimately show ?thesis by (metis mset_eq_imp_distinct_iff)
qed

text \<open>Every offer comes from a recorded \<open>Ready\<close>.\<close>

lemma offer_recorded:
  assumes "reg_wf r" and "\<forall>x \<in> set ops. op_ok (snd x)"
    and "offer (reg_run ops r) k = Some (u, t, g)"
  shows "offer r k = Some (u, t, g) \<or> (\<exists>now d. (now, OpReady k g u t d) \<in> set ops)"
  using assms
proof (induction ops arbitrary: r)
  case Nil
  then show ?case by simp
next
  case (Cons x ops)
  obtain now op where x: "x = (now, op)" by (cases x)
  with Cons.prems have wf: "reg_wf (reg_apply now op r)" by (auto intro: reg_apply_wf)
  from Cons.IH [OF wf] Cons.prems x
  consider "\<exists>now d. (now, OpReady k g u t d) \<in> set ops"
    | "offer (reg_apply now op r) k = Some (u, t, g)" by auto
  then show ?case
  proof cases
    case 2
    show ?thesis
    proof (cases "is_ready_op op")
      case False
      with narrows_apply [OF Cons.prems(1) False, of now] 2 show ?thesis
        by (auto simp: narrows_def) (metis option.distinct(1))
    next
      case True
      then obtain k' g' u' t' d' where op: "op = OpReady k' g' u' t' d'" by (cases op) auto
      with 2 show ?thesis by (auto simp: Ready_offer x split: if_splits)
    qed
  qed auto
qed

end
