(* ===== verification/Registry_Properties.thy ===== *)
theory Registry_Properties
  imports Registry_Histories
begin

text \<open>
  The properties of the readiness registry, each with the concrete history that exercises
  it: one relay, deployed, verified and admitted.
\<close>

section \<open>A concrete history\<close>

definition w_relay_key :: relay_key where
  "w_relay_key = RelayKey ''deno'' ''edge''"

definition w_settings :: settings where
  "w_settings = \<lparr>rs_backoffBase = 0, rs_backoffMax = 0, rs_recoverMax = 0, rs_pauseRetry = 0,
                 rs_demoteAfter = 0\<rparr>"

definition w_scope :: "string \<Rightarrow> scope" where
  "w_scope org = \<lparr>sc_team = [], sc_account = [], sc_organization = org\<rparr>"

definition w_member :: "bool \<Rightarrow> string \<Rightarrow> member" where
  "w_member known org = \<lparr>m_key = w_relay_key, m_scope = w_scope org, m_scopeKnown = known\<rparr>"

definition w_admit :: "(instant \<times> reg_op) list" where
  "w_admit = [(1, OpSync [w_member False []]), (2, OpBegin w_relay_key),
              (3, OpEnter w_relay_key 1 StateDeploying []),
              (4, OpReady w_relay_key 1 ''https://edge.deno.dev'' ''secret'' 7)]"

lemmas w_registry_defs = w_admit_def w_member_def w_scope_def w_settings_def w_relay_key_def

text \<open>The registry after the admission, and the same registry before it.\<close>

definition w_admitted :: registry where
  "w_admitted = reg_run w_admit (New w_settings)"

definition w_entry :: entry where
  "w_entry =
     \<lparr>e_record = \<lparr>rec_key = w_relay_key, rec_state = StateReady, rec_reason = [], rec_generation = 1,
                  rec_since = 4, rec_lastAttempt = 4, rec_lastResult = 7, rec_failStreak = 0,
                  rec_drainPending = False\<rparr>,
      e_serving = True, e_url = ''https://edge.deno.dev'', e_token = ''secret'', e_scopeFP = [],
      e_busy = True, e_nextTry = 0, e_scope = w_scope [], e_scopeKnown = False,
      e_scopeChanged = False, e_obj = 0\<rparr>"

lemma w_admitted_eq:
  "w_admitted = \<lparr>reg_cfg = \<lparr>rs_backoffBase = 5000000000, rs_backoffMax = 300000000000,
                          rs_recoverMax = 15000000000, rs_pauseRetry = 600000000000, rs_demoteAfter = 3\<rparr>,
                 reg_entries = [(w_relay_key, w_entry)], reg_readyCount = 1, reg_pending = True,
                 reg_seq = 3, reg_nextObj = 1\<rparr>"
  by (simp add: w_admitted_def w_entry_def w_registry_defs New_def second_def Sync_def sync_member_def
      put_def notify_def blank_entry_def fresh_record_def Begin_def ensure_entry_def Enter_def Ready_def
      current_def memberScopeFP_def Let_def)

lemma w_admitted_wf: "reg_wf w_admitted"
  unfolding w_admitted_def
  by (rule reg_run_wf [OF New_wf]) (simp add: w_admit_def)

lemma w_admitted_get: "get w_admitted w_relay_key = Some w_entry"
  by (simp add: w_admitted_eq)

lemma w_admitted_current: "current w_admitted w_relay_key 1 = Some w_entry"
  by (simp add: current_Some w_admitted_get) (simp add: w_entry_def)

lemma w_admitted_current_Suc: "current w_admitted w_relay_key (Suc 0) = Some w_entry"
  using w_admitted_current by simp

lemma w_admitted_cfg [simp]:
  "rs_backoffBase (reg_cfg w_admitted) = 5000000000" "rs_backoffMax (reg_cfg w_admitted) = 300000000000"
  "rs_recoverMax (reg_cfg w_admitted) = 15000000000" "rs_pauseRetry (reg_cfg w_admitted) = 600000000000"
  "rs_demoteAfter (reg_cfg w_admitted) = 3" "reg_readyCount w_admitted = 1" "reg_seq w_admitted = 3"
  by (simp_all add: w_admitted_eq)

section \<open>The serving snapshot\<close>

text \<open>
  C25. After any history of calls from a fresh registry, the admission count \<open>/readyz\<close>
  reports is the number of rows of the serving snapshot, the rows are sorted by key with
  one row per relay, and \<open>IsReady\<close> holds exactly of the relays listed.
\<close>

theorem registry_consistent:
  assumes "\<forall>x \<in> set ops. op_ok (snd x)"
  shows "let r = reg_run ops (New cfg) in
           ReadyCount r = int (length (Serving r)) \<and> distinct (map sv_key (Serving r))
           \<and> sorted (map (\<lambda>s. key_string (sv_key s)) (Serving r))
           \<and> (\<forall>k. IsReady r k \<longleftrightarrow> k \<in> sv_key ` set (Serving r))"
proof -
  have wf: "reg_wf (reg_run ops (New cfg))"
    using assms by (intro reg_run_wf New_wf)
  then show ?thesis
    using Serving_length [OF wf] Serving_distinct [OF wf] Serving_offer(2) [OF wf]
    by (simp add: Let_def ReadyCount_def) (simp add: Serving_def)
qed

theorem registry_consistent_witness:
  "int (length (Serving w_admitted)) = 1 \<and> w_relay_key \<in> sv_key ` set (Serving w_admitted)"
proof -
  have "ReadyCount w_admitted = 1" and "IsReady w_admitted w_relay_key"
    by (simp_all add: w_admitted_eq ReadyCount_def IsReady_def w_entry_def)
  with registry_consistent [of w_admit w_settings] show ?thesis
    by (auto simp: w_admitted_def [symmetric] Let_def) (auto simp: w_admit_def)
qed

text \<open>
  No relay is ever served on trust: every row of the serving snapshot, its URL, relay
  key and incarnation, is the one a verification reported through \<open>Ready\<close>.
\<close>

theorem serving_was_verified:
  assumes "\<forall>x \<in> set ops. op_ok (snd x)" and "s \<in> set (Serving (reg_run ops (New cfg)))"
  shows "\<exists>now d. (now, OpReady (sv_key s) (sv_version s) (sv_url s) (sv_token s) d) \<in> set ops"
proof -
  have "reg_wf (reg_run ops (New cfg))"
    using assms(1) by (intro reg_run_wf New_wf)
  from Serving_offer(1) [OF this assms(2)] offer_recorded [OF New_wf assms(1)]
  have "offer (New cfg) (sv_key s) = Some (sv_url s, sv_token s, sv_version s)
      \<or> (\<exists>now d. (now, OpReady (sv_key s) (sv_version s) (sv_url s) (sv_token s) d) \<in> set ops)"
    by blast
  moreover have "offer (New cfg) (sv_key s) = None" by (simp add: offer_def New_def)
  ultimately show ?thesis by simp
qed

theorem serving_was_verified_witness:
  "\<exists>now d. (now, OpReady w_relay_key 1 ''https://edge.deno.dev'' ''secret'' d) \<in> set w_admit"
proof -
  have "serving_of w_entry \<in> set (Serving w_admitted)"
    using Serving_rows [OF w_admitted_wf, of "serving_of w_entry"] w_admitted_get
    by (simp add: serving_of_def w_entry_def)
  then have "serving_of w_entry \<in> set (Serving (reg_run w_admit (New w_settings)))"
    by (simp add: w_admitted_def)
  from serving_was_verified [OF _ this] show ?thesis
    by (simp add: serving_of_def w_entry_def) (simp add: w_admit_def)
qed

section \<open>Stale completions\<close>

text \<open>The incarnation a call claims to act for.\<close>

fun op_target :: "reg_op \<Rightarrow> (relay_key \<times> nat) option" where
  "op_target (OpTakeScopeChanged k g) = Some (k, g)"
| "op_target (OpEnter k g s reason) = Some (k, g)"
| "op_target (OpReady k g url token dur) = Some (k, g)"
| "op_target (OpFailing k g reason dur) = Some (k, g)"
| "op_target (OpDemote k g reason) = Some (k, g)"
| "op_target (OpPause k g reason) = Some (k, g)"
| "op_target (OpDeferDrain k g) = Some (k, g)"
| "op_target (OpDrainCompleted k g) = Some (k, g)"
| "op_target (OpDeleteDone k g) = Some (k, g)"
| "op_target (OpDeleteFailed k g reason) = Some (k, g)"
| "op_target _ = None"

lemma stale_void:
  "op_target op = Some (k, g) \<Longrightarrow> GenerationOf r k \<noteq> Some g \<Longrightarrow> reg_apply now op r = r"
  by (cases op) (auto simp: transition_defs Ready_def DeleteDone_def simp flip: current_None)

text \<open>
  A completion that arrives for an incarnation that is no longer current, or for a
  forgotten relay, leaves the registry exactly as it was, whichever call it makes.
\<close>

theorem stale_completion_void:
  assumes "op_target op = Some (k, g)" and "GenerationOf r k \<noteq> Some g"
  shows "reg_apply now op r = r"
  using assms by (rule stale_void)

theorem stale_completion_void_witness:
  "reg_apply 9 (OpReady w_relay_key 0 ''https://old'' ''old'' 1) w_admitted = w_admitted"
  by (rule stale_completion_void [of _ w_relay_key 0])
     (simp_all add: GenerationOf_def w_admitted_get, simp add: w_entry_def)

section \<open>Notification\<close>

text \<open>
  The settle barrier's premise: over any history, if the notification count is what
  it was, then so is the membership of the serving set, relay by relay and incarnation by
  incarnation. An unannounced admission or revocation is impossible.
\<close>

theorem unannounced_membership_fixed:
  assumes "NotifySeq (reg_run ops r) = NotifySeq r"
  shows "members (reg_run ops r) = members r"
  using rn.run_pinned [OF reg_run_steps, of r ops] assms by (simp add: NotifySeq_def)

theorem unannounced_membership_fixed_witness:
  "members (reg_run [(9, OpFailing w_relay_key 1 ReasonUnreachable 0), (9, OpRelease (w_relay_key, 0))]
      w_admitted) w_relay_key = Some 1"
proof -
  let ?ops = "[(9, OpFailing w_relay_key 1 ReasonUnreachable 0), (9, OpRelease (w_relay_key, 0))]"
  have "NotifySeq (reg_run ?ops w_admitted) = NotifySeq w_admitted"
    by (simp add: Failing_def w_admitted_current_Suc Let_def w_entry_def Release_def NotifySeq_def)
  from unannounced_membership_fixed [OF this] show ?thesis
    by (simp add: members_def offer_def w_admitted_get) (simp add: entry_offer_def w_entry_def)
qed

section \<open>Backoff\<close>

lemma shl64_doubling:
  assumes "0 < base" and "base * 2 ^ 30 < 2 ^ 63" and "j \<le> 30"
  shows "shl64 base j = base * 2 ^ j" and "0 < shl64 base j"
proof -
  have "base * 2 ^ j \<le> base * 2 ^ 30"
    using assms by (intro mult_left_mono power_increasing) auto
  then have "base * 2 ^ j < 2 ^ 63" using assms(2) by (rule le_less_trans)
  with assms(1) show "shl64 base j = base * 2 ^ j" by (intro shl64_id) auto
  with assms show "0 < shl64 base j" by simp
qed

text \<open>
  The retry gate: while the shifted base cannot overflow 64 bits, the wait after the
  n-th consecutive failure is the base doubled n - 1 times (30 at most), capped at
  \<open>BackoffMax\<close>, and at \<open>RecoverMax\<close> too while no relay serves. It is never zero.
\<close>

theorem backoff_wait_exact:
  assumes "0 < rs_backoffBase cfg" and "0 < rs_backoffMax cfg" and "0 < rs_recoverMax cfg"
    and "rs_backoffBase cfg * 2 ^ 30 < 2 ^ 63"
  shows "backoff_wait cfg n streak =
      (let w = min (rs_backoffBase cfg * 2 ^ nat (min (max (streak - 1) 0) 30)) (rs_backoffMax cfg)
       in if n = 0 then min w (rs_recoverMax cfg) else w)
    \<and> 0 < backoff_wait cfg n streak"
proof -
  have "nat (min (max (streak - 1) 0) 30) \<le> 30" by simp
  note shl = shl64_doubling [OF assms(1,4) this]
  have "\<not> shl64 (rs_backoffBase cfg) (nat (min (max (streak - 1) 0) 30)) \<le> 0"
    using shl(2) by simp
  with assms(2,3) shl show ?thesis by (auto simp: backoff_wait_def Let_def min_def)
qed

theorem backoff_wait_exact_witness:
  "backoff_wait (reg_cfg w_admitted) 1 4 = 40 * second \<and> backoff_wait (reg_cfg w_admitted) 1 9 = 300 * second
   \<and> backoff_wait (reg_cfg w_admitted) 0 9 = 15 * second"
  using backoff_wait_exact [of "reg_cfg w_admitted" 1 4] backoff_wait_exact [of "reg_cfg w_admitted" 1 9]
    backoff_wait_exact [of "reg_cfg w_admitted" 0 9]
  by (simp add: second_def min_def)






section \<open>Demotion\<close>

text \<open>A run of consecutive failing verifications of one relay: clock, reason and duration each.\<close>

definition failing_run :: "relay_key \<Rightarrow> nat \<Rightarrow> (instant \<times> string \<times> duration) list \<Rightarrow> registry \<Rightarrow> registry" where
  "failing_run k g fs = fold (\<lambda>(now, reason, dur). Failing now k g reason dur) fs"

lemma failing_below:
  assumes "current r k g = Some e" and "e_serving e"
    and "rec_failStreak (e_record e) + 1 < rs_demoteAfter (reg_cfg r)"
  obtains e' where "current (Failing now k g reason dur r) k g = Some e'" and "e_serving e'"
    and "rec_failStreak (e_record e') = rec_failStreak (e_record e) + 1"
    and "reg_cfg (Failing now k g reason dur r) = reg_cfg r"
    and "offer (Failing now k g reason dur r) = offer r"
    and "reg_seq (Failing now k g reason dur r) = reg_seq r"
proof
  let ?e = "arm r now (upd_rec (\<lambda>c. c\<lparr>rec_lastAttempt := now, rec_lastResult := dur,
                 rec_failStreak := rec_failStreak c + 1, rec_reason := reason\<rparr>) e)"
  have F: "Failing now k g reason dur r = put k ?e r"
    using assms by (simp add: Failing_def Let_def)
  show "current (Failing now k g reason dur r) k g = Some ?e"
    using assms(1) by (simp add: F current_Some)
  show "offer (Failing now k g reason dur r) = offer r"
    using offer_current [OF assms(1)] by (auto simp: F entry_offer_def fun_eq_iff)
qed (use assms in \<open>simp_all add: Failing_def Let_def\<close>)

lemma failing_last:
  assumes "current r k g = Some e" and "e_serving e"
    and "rs_demoteAfter (reg_cfg r) \<le> rec_failStreak (e_record e) + 1"
  shows "\<not> IsReady (Failing now k g reason dur r) k
    \<and> reg_seq (Failing now k g reason dur r) = Suc (reg_seq r)"
  using assms by (auto simp: Failing_def Let_def revoke_def IsReady_def)

lemma failing_run_below:
  "current r k g = Some e \<Longrightarrow> e_serving e \<Longrightarrow>
   rec_failStreak (e_record e) + int (length fs) < rs_demoteAfter (reg_cfg r) \<Longrightarrow>
   \<exists>e'. current (failing_run k g fs r) k g = Some e' \<and> e_serving e'
     \<and> rec_failStreak (e_record e') = rec_failStreak (e_record e) + int (length fs)
     \<and> reg_cfg (failing_run k g fs r) = reg_cfg r \<and> offer (failing_run k g fs r) = offer r
     \<and> reg_seq (failing_run k g fs r) = reg_seq r"
proof (induction fs arbitrary: r e)
  case Nil
  then show ?case by (simp add: failing_run_def)
next
  case (Cons f fs)
  obtain now reason dur where f: "f = (now, reason, dur)" by (cases f)
  from Cons.prems have "rec_failStreak (e_record e) + 1 < rs_demoteAfter (reg_cfg r)" by simp
  from failing_below [OF Cons.prems(1,2) this, of now reason dur] obtain e' where
    e': "current (Failing now k g reason dur r) k g = Some e'" "e_serving e'"
      "rec_failStreak (e_record e') = rec_failStreak (e_record e) + 1"
      "reg_cfg (Failing now k g reason dur r) = reg_cfg r"
      "offer (Failing now k g reason dur r) = offer r"
      "reg_seq (Failing now k g reason dur r) = reg_seq r" .
  have "rec_failStreak (e_record e') + int (length fs)
      < rs_demoteAfter (reg_cfg (Failing now k g reason dur r))"
    using Cons.prems(3) e' by simp
  from Cons.IH [OF e'(1,2) this] e' show ?case by (auto simp: failing_run_def f)
qed

text \<open>
  A serving relay survives blips and not more: a run of failing verifications shorter
  than what is left of \<open>DemoteAfter\<close> changes nothing the data plane sees, and the failure
  that completes it revokes admission and announces it.
\<close>

theorem demoted_after_exactly:
  assumes "current r k g = Some e" and "e_serving e"
    and "rec_failStreak (e_record e) + int (length fs) + 1 = rs_demoteAfter (reg_cfg r)"
  shows "offer (failing_run k g fs r) = offer r \<and> NotifySeq (failing_run k g fs r) = NotifySeq r
    \<and> \<not> IsReady (failing_run k g (fs @ [(now, reason, dur)]) r) k
    \<and> NotifySeq (failing_run k g (fs @ [(now, reason, dur)]) r) = NotifySeq r + 1"
proof -
  from failing_run_below [OF assms(1,2), of fs] assms(3) obtain e' where
    e': "current (failing_run k g fs r) k g = Some e'" "e_serving e'"
      "rec_failStreak (e_record e') = rec_failStreak (e_record e) + int (length fs)"
      "reg_cfg (failing_run k g fs r) = reg_cfg r" "offer (failing_run k g fs r) = offer r"
      "reg_seq (failing_run k g fs r) = reg_seq r" by auto
  from failing_last [OF e'(1,2), of now reason dur] e' assms(3) show ?thesis
    by (simp add: failing_run_def NotifySeq_def)
qed

theorem demoted_after_exactly_witness:
  "IsReady (failing_run w_relay_key 1 [(5, ReasonUnreachable, 0), (6, ReasonUnreachable, 0)] w_admitted)
     w_relay_key
   \<and> \<not> IsReady (failing_run w_relay_key 1 ([(5, ReasonUnreachable, 0), (6, ReasonUnreachable, 0)]
        @ [(7, ReasonUnreachable, 0)]) w_admitted) w_relay_key"
proof -
  have "e_serving w_entry" and "rec_failStreak (e_record w_entry) = 0"
    by (simp_all add: w_entry_def)
  moreover have "IsReady w_admitted w_relay_key"
    using w_admitted_get by (simp add: IsReady_def w_entry_def)
  ultimately show ?thesis
    using demoted_after_exactly [OF w_admitted_current, of "[(5, ReasonUnreachable, 0), (6, ReasonUnreachable, 0)]"
        7 ReasonUnreachable 0]
    by (simp only: IsReady_offer) simp
qed

end
