(* ===== verification/Probe.thy ===== *)
theory Probe
  imports Deploy_Identity Sanitize Prelude
begin

text \<open>
  The verification of one deployment: how \<open>internal/deploy/deploy.go\<close> words the answers of
  its probes and how \<open>verify\<close> and \<open>reasonFor\<close> of \<open>internal/reconcile/reconcile.go\<close> classify
  them. The two HTTP exchanges are inputs, each an error text or the classified answer.
\<close>

section \<open>Decimal rendering and status texts\<close>

text \<open>\<open>%d\<close> and \<open>strconv.Itoa\<close>.\<close>

fun dec_digits :: "nat \<Rightarrow> string" where
  "dec_digits n =
     (if n < 10 then [char_of (48 + n)] else dec_digits (n div 10) @ [char_of (48 + n mod 10)])"

declare dec_digits.simps [simp del]

definition itoa :: "int \<Rightarrow> string" where
  "itoa i = (if i < 0 then CHR ''-'' # dec_digits (nat (- i)) else dec_digits (nat i))"

text \<open>\<open>http.StatusText\<close>, empty for a code it does not know.\<close>

definition status_texts :: "(int \<times> string) list" where
  "status_texts =
     [(100, ''Continue''), (101, ''Switching Protocols''), (102, ''Processing''), (103, ''Early Hints''),
      (200, ''OK''), (201, ''Created''), (202, ''Accepted''), (203, ''Non-Authoritative Information''),
      (204, ''No Content''), (205, ''Reset Content''), (206, ''Partial Content''), (207, ''Multi-Status''),
      (208, ''Already Reported''), (226, ''IM Used''),
      (300, ''Multiple Choices''), (301, ''Moved Permanently''), (302, ''Found''), (303, ''See Other''),
      (304, ''Not Modified''), (305, ''Use Proxy''), (307, ''Temporary Redirect''),
      (308, ''Permanent Redirect''),
      (400, ''Bad Request''), (401, ''Unauthorized''), (402, ''Payment Required''), (403, ''Forbidden''),
      (404, ''Not Found''), (405, ''Method Not Allowed''), (406, ''Not Acceptable''),
      (407, ''Proxy Authentication Required''), (408, ''Request Timeout''), (409, ''Conflict''),
      (410, ''Gone''), (411, ''Length Required''), (412, ''Precondition Failed''),
      (413, ''Request Entity Too Large''), (414, ''Request URI Too Long''),
      (415, ''Unsupported Media Type''), (416, ''Requested Range Not Satisfiable''),
      (417, ''Expectation Failed''), (418, ''I'' @ [CHR 0x27] @ ''m a teapot''),
      (421, ''Misdirected Request''), (422, ''Unprocessable Entity''), (423, ''Locked''),
      (424, ''Failed Dependency''), (425, ''Too Early''), (426, ''Upgrade Required''),
      (428, ''Precondition Required''), (429, ''Too Many Requests''),
      (431, ''Request Header Fields Too Large''), (451, ''Unavailable For Legal Reasons''),
      (500, ''Internal Server Error''), (501, ''Not Implemented''), (502, ''Bad Gateway''),
      (503, ''Service Unavailable''), (504, ''Gateway Timeout''), (505, ''HTTP Version Not Supported''),
      (506, ''Variant Also Negotiates''), (507, ''Insufficient Storage''), (508, ''Loop Detected''),
      (510, ''Not Extended''), (511, ''Network Authentication Required'')]"

definition StatusText :: "int \<Rightarrow> string" where
  "StatusText code = (case map_of status_texts code of Some t \<Rightarrow> t | None \<Rightarrow> [])"

section \<open>Verdicts\<close>

definition NotWorkerErr :: "probe_answer \<Rightarrow> string option" where
  "NotWorkerErr a =
     (if pa_version a \<noteq> [] then None
      else if pa_marker a \<noteq> []
        then Some (''relay answered HTTP '' @ itoa (pa_status a) @ '', not a relay worker ('' @ pa_marker a @ '')'')
      else Some (''relay answered HTTP '' @ itoa (pa_status a) @ '', not a relay worker''))"

datatype verdict_kind =
    verifyOK | verifyUnreachable | verifySuspended | verifyMissing | verifyVersionMismatch
  | verifyAuthFailed | verifyProbeFailed

record verdict =
  v_kind :: verdict_kind
  v_dur :: duration
  v_detail :: string

text \<open>
  \<open>verify\<close>: \<open>version\<close> is the worker version this binary ships, \<open>dur\<close> the elapsed time when it
  returns, \<open>probe\<close> and \<open>fwd\<close> what \<open>Probe\<close> and \<open>ForwardProbe\<close> answered.
\<close>

definition verify ::
    "string \<Rightarrow> duration \<Rightarrow> string + probe_answer \<Rightarrow> string + forward_answer \<Rightarrow> verdict" where
  "verify version dur probe fwd =
    (let v = (\<lambda>k d. \<lparr>v_kind = k, v_dur = dur, v_detail = d\<rparr>) in
     case probe of
       Inl err \<Rightarrow> v verifyUnreachable (ErrorString (Some err))
     | Inr answer \<Rightarrow>
         if Suspended answer then v verifySuspended (ErrorString (NotWorkerErr answer))
         else if pa_version answer = [] then v verifyMissing (ErrorString (NotWorkerErr answer))
         else if pa_version answer \<noteq> version then
           v verifyVersionMismatch
             (''gateway worker version '' @ version @ '', relay reports '' @ pa_version answer)
         else (case fwd of
                 Inl err \<Rightarrow> v verifyUnreachable (ErrorString (Some err))
               | Inr f \<Rightarrow>
                   if fa_status f = 404 then v verifyAuthFailed ''relay key rejected''
                   else if fa_status f < 500 \<and> fa_json f then v verifyOK []
                   else v verifyProbeFailed
                          (''end-to-end probe did not round-trip (relay answered HTTP ''
                             @ StatusText (fa_status f) @ '')'')))"

end
