(* ===== verification/Reconcile.thy ===== *)
theory Reconcile
  imports Probe Config Registry
begin

text \<open>
  \<open>internal/reconcile/reconcile.go\<close>: the fleet worker. One goroutine that drives a relay
  (\<open>ensureRelay\<close> and \<open>rollout\<close>) or deletes its remote (the body of \<open>runDeletes\<close>) is a
  program counter with its locals, and a step of it is one registry call or one external
  call, so that any other thread may run between two steps. What the outside answers (the
  credential, the platform calls, the verification, the settle barrier, the drain wait) is
  the input of the step. \<open>memoCredentials\<close> and the start of a pass are functions.
\<close>

section \<open>Reasons\<close>

definition reasonFor :: "verdict \<Rightarrow> string" where
  "reasonFor v =
     (case v_kind v of
        verifyUnreachable \<Rightarrow> ReasonUnreachable
      | verifySuspended \<Rightarrow> ReasonPaused
      | verifyMissing \<Rightarrow> ReasonMissing
      | verifyVersionMismatch \<Rightarrow> ReasonVersionFailed
      | verifyAuthFailed \<Rightarrow> ReasonAuthFailed
      | _ \<Rightarrow> ReasonProbeFailed)"

section \<open>Program counters\<close>

text \<open>
  The point each constructor names is the call about to be made. The first number is the
  generation captured by \<open>Begin\<close> or \<open>BeginDelete\<close>; the flags are \<open>wasReady\<close> and
  \<open>drainPending\<close>. The flag of \<open>R_Deploying\<close>, \<open>R_Deploy\<close> and \<open>R_Verify\<close> is not in the code:
  it records whether this rollout went through the settle and drain barrier.
\<close>

datatype wpc =
    E_Allow | E_State | E_Begin
  | E_Recheck nat | E_Token nat | E_Client nat | E_WasReady nat | E_Marker nat bool
  | E_Enter nat bool bool | E_Discover nat bool bool | E_Missing nat bool bool
  | E_Verify nat bool bool string
  | E_Ready nat string duration | E_Failing nat string duration | E_Pause nat
  | R_Take nat bool bool | R_Demote nat | R_Settle nat | R_Settling nat nat | R_Defer nat
  | R_Drain nat | R_Straggler nat | R_Drained nat
  | R_Deploying nat bool | R_Deploy nat bool | R_Verify nat bool string | R_Revoke nat string
  | D_Allow | D_Begin
  | D_Settle nat | D_Settling nat nat | D_Drain nat | D_Credential nat | D_Client nat | D_Delete nat
  | D_Failed nat string | D_Done nat
  | W_Release | W_Done

text \<open>Inputs: the answer of an external call, or none.\<close>

datatype w_input =
    I_Tick
  | I_Token "cfg_error + string"
  | I_Client "string option"
  | I_Discover "deploy_error + discovery"
  | I_Verdict verdict
  | I_Settled bool
  | I_Idle bool
  | I_Deployed "deploy_error + result"
  | I_Memo "credential option"
  | I_Deleted "(deploy_error \<times> string) option"

record worker =
  wk_key :: relay_key
  wk_relayKey :: string
  wk_release :: release
  wk_pc :: wpc

abbreviation goto :: "worker \<Rightarrow> wpc \<Rightarrow> registry \<Rightarrow> (worker \<times> registry) option" where
  "goto w pc r \<equiv> Some (w\<lparr>wk_pc := pc\<rparr>, r)"

abbreviation on_tick :: "w_input \<Rightarrow> (worker \<times> registry) option \<Rightarrow> (worker \<times> registry) option" where
  "on_tick i x \<equiv> (if i = I_Tick then x else None)"

definition gone :: "registry \<Rightarrow> relay_key \<Rightarrow> bool" where
  "gone r k \<longleftrightarrow> (case StateOf r k of None \<Rightarrow> True | Some c \<Rightarrow> rec_state c = StateRemoving)"

definition marker :: "registry \<Rightarrow> relay_key \<Rightarrow> bool" where
  "marker r k = (case StateOf r k of None \<Rightarrow> False | Some c \<Rightarrow> rec_drainPending c)"

definition draining_text :: string where
  "draining_text = ''in-flight requests still draining''"

section \<open>ensureRelay\<close>

fun ensure_step :: "instant \<Rightarrow> w_input \<Rightarrow> wpc \<Rightarrow> worker \<Rightarrow> registry \<Rightarrow> (worker \<times> registry) option" where
  "ensure_step now i E_Allow w r =
     on_tick i ((if \<not> Allow now (wk_key w) r then goto w W_Done r else goto w E_State r))"
| "ensure_step now i E_State w r =
     on_tick i ((if gone r (wk_key w) then goto w W_Done r else goto w E_Begin r))"
| "ensure_step now i E_Begin w r =
     on_tick i ((case Begin now (wk_key w) r of
        (None, r') \<Rightarrow> goto w W_Done r'
      | (Some (t, gen), r') \<Rightarrow> goto (w\<lparr>wk_release := t\<rparr>) (E_Recheck gen) r'))"
| "ensure_step now i (E_Recheck gen) w r =
     on_tick i ((if gone r (wk_key w) then goto w W_Release r else goto w (E_Token gen) r))"
| "ensure_step now i (E_Token gen) w r =
     (case i of I_Token res \<Rightarrow> (case res of
        Inl _ \<Rightarrow> goto w (E_Failing gen ReasonCredentials 0) r
      | Inr _ \<Rightarrow> goto w (E_Client gen) r)
      | _ \<Rightarrow> None)"
| "ensure_step now i (E_Client gen) w r =
     (case i of I_Client err \<Rightarrow> (case err of
        Some _ \<Rightarrow> goto w (E_Failing gen ReasonCredentials 0) r
      | None \<Rightarrow> goto w (E_WasReady gen) r)
      | _ \<Rightarrow> None)"
| "ensure_step now i (E_WasReady gen) w r =
     on_tick i (goto w (E_Marker gen (IsReady r (wk_key w))) r)"
| "ensure_step now i (E_Marker gen wr) w r =
     on_tick i (goto w (E_Enter gen wr (marker r (wk_key w))) r)"
| "ensure_step now i (E_Enter gen wr dp) w r =
     on_tick i (goto w (E_Discover gen wr dp) (Enter now (wk_key w) gen StateDiscovering [] r))"
| "ensure_step now i (E_Discover gen wr dp) w r =
     (case i of I_Discover res \<Rightarrow> (case res of
        Inl ErrCredentials \<Rightarrow> goto w (E_Failing gen ReasonCredentials 0) r
      | Inl ErrAmbiguousScope \<Rightarrow> goto w (E_Failing gen ReasonCredentials 0) r
      | Inl (ErrOther _) \<Rightarrow> goto w (E_Failing gen ReasonUnreachable 0) r
      | Inr d \<Rightarrow> if \<not> d_exists d then goto w (E_Missing gen wr dp) r
                 else goto w (E_Verify gen wr dp (d_url d)) r)
      | _ \<Rightarrow> None)"
| "ensure_step now i (E_Missing gen wr dp) w r =
     on_tick i (goto w (R_Take gen wr dp) (Enter now (wk_key w) gen StateDiscovered ReasonMissing r))"
| "ensure_step now i (E_Verify gen wr dp url) w r =
     (case i of I_Verdict v \<Rightarrow> (case v_kind v of
        verifyOK \<Rightarrow> goto w (E_Ready gen url (v_dur v)) r
      | verifyVersionMismatch \<Rightarrow> goto w (R_Take gen wr dp) r
      | verifyAuthFailed \<Rightarrow> goto w (R_Take gen wr dp) r
      | verifyMissing \<Rightarrow> goto w (R_Take gen wr dp) r
      | verifySuspended \<Rightarrow> goto w (E_Pause gen) r
      | verifyUnreachable \<Rightarrow> goto w (E_Failing gen ReasonUnreachable (v_dur v)) r
      | verifyProbeFailed \<Rightarrow> goto w (E_Failing gen ReasonProbeFailed (v_dur v)) r)
      | _ \<Rightarrow> None)"
| "ensure_step now i (E_Ready gen url dur) w r =
     on_tick i (goto w W_Release (Ready now (wk_key w) gen url (wk_relayKey w) dur r))"
| "ensure_step now i (E_Failing gen reason dur) w r =
     on_tick i (goto w W_Release (Failing now (wk_key w) gen reason dur r))"
| "ensure_step now i (E_Pause gen) w r =
     on_tick i (goto w W_Release (Pause now (wk_key w) gen ReasonPaused r))"
| "ensure_step now i pc w r = None"

section \<open>rollout\<close>

text \<open>
  \<open>settle()\<close> reads the notification count before it waits (\<open>R_Settle\<close>), and reports whether
  the applier reached it (\<open>R_Settling\<close>).
\<close>

fun rollout_step :: "instant \<Rightarrow> w_input \<Rightarrow> wpc \<Rightarrow> worker \<Rightarrow> registry \<Rightarrow> (worker \<times> registry) option" where
  "rollout_step now i (R_Take gen wr dp) w r =
     on_tick i ((let (sc, r') = TakeScopeChanged (wk_key w) gen r in
      if wr then goto w (R_Demote gen) r'
      else if dp \<or> sc then goto w (R_Settle gen) r'
      else goto w (R_Deploying gen False) r'))"
| "rollout_step now i (R_Demote gen) w r =
     on_tick i (goto w (R_Settle gen) (Demote now (wk_key w) gen ReasonReplacing r))"
| "rollout_step now i (R_Settle gen) w r =
     on_tick i (goto w (R_Settling gen (NotifySeq r)) r)"
| "rollout_step now i (R_Settling gen target) w r =
     (case i of I_Settled ok \<Rightarrow> (if \<not> ok then goto w (R_Defer gen) r else goto w (R_Drain gen) r)
      | _ \<Rightarrow> None)"
| "rollout_step now i (R_Defer gen) w r =
     on_tick i (goto w W_Release (DeferDrain (wk_key w) gen r))"
| "rollout_step now i (R_Drain gen) w r =
     (case i of I_Idle ok \<Rightarrow> (if \<not> ok then goto w (R_Straggler gen) r else goto w (R_Drained gen) r)
      | _ \<Rightarrow> None)"
| "rollout_step now i (R_Straggler gen) w r =
     on_tick i (goto w (R_Defer gen) (Enter now (wk_key w) gen StateUnready ReasonReplacing r))"
| "rollout_step now i (R_Drained gen) w r =
     on_tick i (goto w (R_Deploying gen True) (DrainCompleted (wk_key w) gen r))"
| "rollout_step now i (R_Deploying gen b) w r =
     on_tick i (goto w (R_Deploy gen b) (Enter now (wk_key w) gen StateDeploying [] r))"
| "rollout_step now i (R_Deploy gen b) w r =
     (case i of I_Deployed res \<Rightarrow> (case res of
        Inl _ \<Rightarrow> goto w (E_Failing gen ReasonDeployFailed 0) r
      | Inr d \<Rightarrow> goto w (R_Verify gen b (res_url d)) r)
      | _ \<Rightarrow> None)"
| "rollout_step now i (R_Verify gen b url) w r =
     (case i of I_Verdict v \<Rightarrow> (if v_kind v = verifySuspended then goto w (E_Pause gen) r
      else if v_kind v \<noteq> verifyOK then goto w (R_Revoke gen (reasonFor v)) r
      else goto w (E_Ready gen url (v_dur v)) r)
      | _ \<Rightarrow> None)"
| "rollout_step now i (R_Revoke gen reason) w r =
     on_tick i (goto w W_Release (Demote now (wk_key w) gen reason r))"
| "rollout_step now i pc w r = None"

section \<open>runDeletes\<close>

fun delete_step :: "instant \<Rightarrow> w_input \<Rightarrow> wpc \<Rightarrow> worker \<Rightarrow> registry \<Rightarrow> (worker \<times> registry) option" where
  "delete_step now i D_Allow w r =
     on_tick i ((if \<not> Allow now (wk_key w) r then goto w W_Done r else goto w D_Begin r))"
| "delete_step now i D_Begin w r =
     on_tick i ((case BeginDelete (wk_key w) r of
        (None, r') \<Rightarrow> goto w W_Done r'
      | (Some (t, gen), r') \<Rightarrow> goto (w\<lparr>wk_release := t\<rparr>) (D_Settle gen) r'))"
| "delete_step now i (D_Settle gen) w r =
     on_tick i (goto w (D_Settling gen (NotifySeq r)) r)"
| "delete_step now i (D_Settling gen target) w r =
     (case i of I_Settled ok \<Rightarrow> (if \<not> ok then goto w W_Release r else goto w (D_Drain gen) r)
      | _ \<Rightarrow> None)"
| "delete_step now i (D_Drain gen) w r =
     (case i of I_Idle ok \<Rightarrow> (if \<not> ok then goto w (D_Failed gen draining_text) r else goto w (D_Credential gen) r)
      | _ \<Rightarrow> None)"
| "delete_step now i (D_Credential gen) w r =
     (case i of I_Memo cred \<Rightarrow> (case cred of None \<Rightarrow> goto w (D_Done gen) r | Some _ \<Rightarrow> goto w (D_Client gen) r)
      | _ \<Rightarrow> None)"
| "delete_step now i (D_Client gen) w r =
     (case i of I_Client err \<Rightarrow> (case err of
        Some e \<Rightarrow> goto w (D_Failed gen (ErrorString (Some e))) r
      | None \<Rightarrow> goto w (D_Delete gen) r)
      | _ \<Rightarrow> None)"
| "delete_step now i (D_Delete gen) w r =
     (case i of I_Deleted res \<Rightarrow> (case res of
        None \<Rightarrow> goto w (D_Done gen) r
      | Some (ErrAmbiguousScope, _) \<Rightarrow> goto w (D_Done gen) r
      | Some (_, text) \<Rightarrow> goto w (D_Failed gen (ErrorString (Some text))) r)
      | _ \<Rightarrow> None)"
| "delete_step now i (D_Failed gen reason) w r =
     on_tick i (goto w W_Release (DeleteFailed now (wk_key w) gen reason r))"
| "delete_step now i (D_Done gen) w r =
     on_tick i (goto w W_Release (DeleteDone (wk_key w) gen r))"
| "delete_step now i pc w r = None"

text \<open>One step of a goroutine, its deferred release included.\<close>

definition worker_step :: "instant \<Rightarrow> w_input \<Rightarrow> worker \<times> registry \<Rightarrow> (worker \<times> registry) option" where
  "worker_step now i wr =
    (let (w, r) = wr in
     if wk_pc w = W_Release \<and> i = I_Tick then goto w W_Done (Release (wk_release w) r)
     else (case ensure_step now i (wk_pc w) w r of
             Some res \<Rightarrow> Some res
           | None \<Rightarrow> (case rollout_step now i (wk_pc w) w r of
                       Some res \<Rightarrow> Some res
                     | None \<Rightarrow> delete_step now i (wk_pc w) w r)))"

section \<open>The start of a pass\<close>

record cred_entry =
  ce_cred :: credential
  ce_scope :: scope

definition credential_of :: "cfg_relay \<Rightarrow> string \<Rightarrow> credential" where
  "credential_of rel token =
     \<lparr>cr_token = token, cr_team = rl_team rel, cr_account = rl_account rel,
      cr_organization = rl_organization rel\<rparr>"

text \<open>
  \<open>memoCredentials\<close>: the memo, the members, and one warning (the key with the fingerprints
  of the previous and the new scope) per moved scope.
\<close>

fun memoCredentials ::
    "(string \<Rightarrow> string option) \<Rightarrow> cfg_relay list \<Rightarrow> (relay_key \<rightharpoonup> cred_entry)
      \<Rightarrow> member list \<times> (relay_key \<rightharpoonup> cred_entry) \<times> (relay_key \<times> string \<times> string) list" where
  "memoCredentials files [] memo = ([], memo, [])"
| "memoCredentials files (rel # rels) memo =
     (let key = relay_key_of rel in
      case ResolveToken files rel of
        Inl _ \<Rightarrow>
          (let (ms, memo', ws) = memoCredentials files rels memo
           in (\<lparr>m_key = key, m_scope = no_scope, m_scopeKnown = False\<rparr> # ms, memo', ws))
      | Inr token \<Rightarrow>
          (let cred = credential_of rel token;
               scope = cred_scope cred;
               warn = (case memo key of
                         Some prev \<Rightarrow> if ce_scope prev = scope then []
                                      else [(key, FP (ce_scope prev), FP scope)]
                       | None \<Rightarrow> []);
               (ms, memo', ws) = memoCredentials files rels
                                   (memo(key \<mapsto> \<lparr>ce_cred = cred, ce_scope = scope\<rparr>))
           in (\<lparr>m_key = key, m_scope = scope, m_scopeKnown = True\<rparr> # ms, memo', warn @ ws)))"

definition credentialFor :: "(relay_key \<rightharpoonup> cred_entry) \<Rightarrow> relay_key \<Rightarrow> credential option" where
  "credentialFor memo key = map_option ce_cred (memo key)"

definition ensure_worker :: "string \<Rightarrow> relay_key \<Rightarrow> worker" where
  "ensure_worker relayKey k =
     \<lparr>wk_key = k, wk_relayKey = relayKey, wk_release = (k, 0), wk_pc = E_Allow\<rparr>"

definition delete_worker :: "relay_key \<Rightarrow> worker" where
  "delete_worker k = \<lparr>wk_key = k, wk_relayKey = [], wk_release = (k, 0), wk_pc = D_Allow\<rparr>"

definition removing_keys :: "registry \<Rightarrow> relay_key list" where
  "removing_keys r = map rec_key (filter (\<lambda>c. rec_state c = StateRemoving) (Snapshot r))"

text \<open>
  \<open>pass\<close>: nothing without a desired state or a relay key; else credentials, \<open>Sync\<close>, then the
  deletes and afterwards the relays still configured. The workers it starts are listed in
  the order they are started, the deletes apart from the others: all deletes finish
  before the first relay is looked at.
\<close>

definition pass ::
    "(string \<Rightarrow> string option) \<Rightarrow> instant \<Rightarrow> config option \<Rightarrow> cfg_error + string
      \<Rightarrow> (relay_key \<rightharpoonup> cred_entry) \<Rightarrow> registry
      \<Rightarrow> worker list \<times> worker list \<times> (relay_key \<rightharpoonup> cred_entry) \<times> registry" where
  "pass files now desired relayKey memo r =
     (case desired of
        None \<Rightarrow> ([], [], memo, r)
      | Some cfg \<Rightarrow>
          (case relayKey of
             Inl _ \<Rightarrow> ([], [], memo, r)
           | Inr key \<Rightarrow>
               (let (members, memo', ws) = memoCredentials files (cf_relays cfg) memo;
                    r' = Sync now members r
                in (map delete_worker (removing_keys r'),
                    map (ensure_worker key)
                      (filter (\<lambda>k. Relay cfg (key_provider k) (key_name k) \<noteq> None) (Keys cfg)),
                    memo', r'))))"

end
