(* ===== verification/Registry_Protocol.thy ===== *)
theory Registry_Protocol
  imports Registry_Properties
begin

text \<open>
  The protocol between the reconciler and the registry: which calls move the fields a pass
  relies on between its own calls (the single-flight flag, the incarnation, the drain
  marker), and the properties of single flight, deferred drains, removal and scope moves.
\<close>

section \<open>What the calls keep\<close>

text \<open>The fields of an entry that identify the flight: allocation, busy flag, incarnation.\<close>

definition flight :: "entry \<Rightarrow> nat \<times> bool \<times> nat" where
  "flight e = (e_obj e, e_busy e, rec_generation (e_record e))"

definition same_flight :: "relay_key \<Rightarrow> registry \<Rightarrow> registry \<Rightarrow> bool" where
  "same_flight k r r' \<longleftrightarrow> map_option flight (get r' k) = map_option flight (get r k)"

lemma same_flight_refl [simp]: "same_flight k r r"
  by (simp add: same_flight_def)

lemma same_flight_put [simp]:
  "same_flight k' r (put k e r1) \<longleftrightarrow>
     (if k' = k then map_option flight (get r k) = Some (flight e) else same_flight k' r r1)"
  by (cases "get r k") (auto simp: same_flight_def)

lemma same_flight_frame [simp]:
  "same_flight k r (notify r1) = same_flight k r r1"
  "same_flight k r (r1\<lparr>reg_readyCount := n\<rparr>) = same_flight k r r1"
  by (simp_all add: same_flight_def)

lemma current_flight: "current r k g = Some e \<Longrightarrow> map_option flight (get r k) = Some (flight e)"
  by (simp add: current_Some)

lemma transitions_flight [frame_simps]:
  "same_flight k' r (Enter now k g st reason r)" "same_flight k' r (DeferDrain k g r)"
  "same_flight k' r (DrainCompleted k g r)" "same_flight k' r (snd (TakeScopeChanged k g r))"
  "same_flight k' r (DeleteFailed now k g reason r)" "same_flight k' r (Pause now k g reason r)"
  "same_flight k' r (Failing now k g reason dur r)" "same_flight k' r (Demote now k g reason r)"
  "same_flight k' r (Ready now k g url token dur r)"
  by (cases "current r k g"; auto simp: transition_defs flight_def dest: current_flight)+

lemma settings_flight [frame_simps]: "same_flight k r (UpdateSettings s r)"
  by (cases "get r k") (simp_all add: same_flight_def UpdateSettings_get flight_def)

lemma take_change_get [simp]: "get (case take_change r of None \<Rightarrow> r | Some r' \<Rightarrow> r') k = get r k"
  by (auto simp: take_change_def)

text \<open>An entry held by a flight: allocated as \<open>n\<close> and busy.\<close>

definition held :: "registry \<Rightarrow> relay_key \<Rightarrow> nat \<Rightarrow> bool" where
  "held r k n \<longleftrightarrow> (\<exists>e. get r k = Some e \<and> e_obj e = n \<and> e_busy e)"

lemma same_flight_held: "same_flight k r r' \<Longrightarrow> held r' k n = held r k n"
  by (auto simp: same_flight_def held_def flight_def map_option_case split: option.splits)

lemma sync_member_held: "held r k n \<Longrightarrow> held (sync_member now m r) k n"
  by (auto simp: held_def sync_member_def Let_def split: option.split)

lemma sync_leave_held: "held r k n \<Longrightarrow> held (sync_leave now k' r) k n"
  by (auto simp: held_def sync_leave_def Let_def split: option.split)

lemma Sync_held: "held r k n \<Longrightarrow> held (Sync now ms r) k n"
  by (rule Sync_lift [of "\<lambda>r s. held r k n \<longrightarrow> held s k n" now, THEN mp])
     (auto intro: sync_member_held sync_leave_held)

lemma Begin_held: "held r k n \<Longrightarrow> held (snd (Begin now k' r)) k n"
  by (auto simp: held_def Begin_def ensure_entry_def Let_def split: option.split)

lemma BeginDelete_held: "held r k n \<Longrightarrow> held (snd (BeginDelete k' r)) k n"
  by (auto simp: held_def BeginDelete_def split: option.split)

lemma Release_held: "held r k n \<Longrightarrow> t \<noteq> (k, n) \<Longrightarrow> held (Release t r) k n"
  by (cases t) (auto simp: held_def Release_def split: option.split)

lemma DeleteDone_held: "held r k n \<Longrightarrow> k' \<noteq> k \<Longrightarrow> held (DeleteDone k' g r) k n"
  by (auto simp: held_def DeleteDone_def delete_conv' split: option.split)

fun ends_flight :: "relay_key \<Rightarrow> nat \<Rightarrow> reg_op \<Rightarrow> bool" where
  "ends_flight k n (OpRelease t) \<longleftrightarrow> t = (k, n)"
| "ends_flight k n (OpDeleteDone k' g) \<longleftrightarrow> k' = k"
| "ends_flight k n _ \<longleftrightarrow> False"

lemma apply_held: "held r k n \<Longrightarrow> \<not> ends_flight k n op \<Longrightarrow> held (reg_apply now op r) k n"
proof (cases op)
  case OpTakeChange
  then show "held r k n \<Longrightarrow> ?thesis" by (simp add: held_def)
qed (simp_all add: same_flight_held [OF transitions_flight(1)] same_flight_held [OF transitions_flight(2)]
    same_flight_held [OF transitions_flight(3)] same_flight_held [OF transitions_flight(4)]
    same_flight_held [OF transitions_flight(5)] same_flight_held [OF transitions_flight(6)]
    same_flight_held [OF transitions_flight(7)] same_flight_held [OF transitions_flight(8)]
    same_flight_held [OF transitions_flight(9)] same_flight_held [OF settings_flight]
    Sync_held Begin_held BeginDelete_held Release_held DeleteDone_held)

lemma run_held:
  "held r k n \<Longrightarrow> \<forall>x \<in> set ops. \<not> ends_flight k n (snd x) \<Longrightarrow> held (reg_run ops r) k n"
  by (induction ops arbitrary: r) (auto simp: apply_held)

lemma held_blocks:
  "held r k n \<Longrightarrow> fst (Begin now k r) = None \<and> fst (BeginDelete k r) = None"
  by (auto simp: held_def Begin_def BeginDelete_def ensure_entry_def)

lemma Begin_holds:
  "fst (Begin now k r) = Some ((k', n), g) \<Longrightarrow> k' = k \<and> held (snd (Begin now k r)) k n"
  by (auto simp: held_def Begin_def split: prod.splits if_splits)

lemma BeginDelete_holds:
  "fst (BeginDelete k r) = Some ((k', n), g) \<Longrightarrow> k' = k \<and> held (snd (BeginDelete k r)) k n"
  by (auto simp: held_def BeginDelete_def split: option.splits if_splits)

section \<open>Single flight\<close>

text \<open>
  One flight per relay: from a successful \<open>Begin\<close> until its own release closure runs
  (or the entry is forgotten), whatever else is called in between, no second \<open>Begin\<close> or
  \<open>BeginDelete\<close> of that relay succeeds. Another flight's release cannot free it.
\<close>

theorem single_flight:
  assumes "Begin now k r = (Some ((k', n), g), r1)"
    and "\<forall>x \<in> set ops. \<not> ends_flight k n (snd x)"
  shows "fst (Begin now' k (reg_run ops r1)) = None \<and> fst (BeginDelete k (reg_run ops r1)) = None"
proof -
  from Begin_holds [of now k r k' n g] assms(1) have "held r1 k n" by simp
  from run_held [OF this assms(2)] show ?thesis by (rule held_blocks)
qed

theorem single_flight_witness:
  "let r1 = snd (Begin 1 w_relay_key (New w_settings))
   in fst (Begin 1 w_relay_key (New w_settings)) = Some ((w_relay_key, 0), 1)
      \<and> fst (Begin 9 w_relay_key (reg_run [(2, OpSync []), (3, OpRelease (w_relay_key, 7))] r1)) = None"
proof -
  let ?r1 = "snd (Begin 1 w_relay_key (New w_settings))"
  have eq: "Begin 1 w_relay_key (New w_settings) = (Some ((w_relay_key, 0), 1), ?r1)"
    by (simp add: Begin_def ensure_entry_def New_def blank_entry_def fresh_record_def Let_def)
  have "fst (Begin 1 w_relay_key (New w_settings)) = Some ((w_relay_key, 0), 1)"
    by (rule arg_cong [OF eq, of fst, simplified fst_conv])
  with single_flight [OF eq, of "[(2, OpSync []), (3, OpRelease (w_relay_key, 7))]" 9]
  show ?thesis by (simp add: Let_def)
qed

section \<open>Pausing\<close>

text \<open>
  A pause holds: on a paused relay the passes' own phases (\<open>discovering\<close>,
  \<open>verifying\<close>) change nothing, a failed re-probe keeps the pause and moves its gate to one
  \<open>PauseRetry\<close> after the attempt, never to the failure backoff, and a fresh pause revokes
  admission.
\<close>

theorem pause_sticky:
  assumes "current r k g = Some e" and "rec_state (e_record e) = StatePaused" and "\<not> e_serving e"
    and "st = StateDiscovering \<or> st = StateVerifying"
  shows "Enter now k g st reason r = r
    \<and> (\<exists>e'. get (Failing now k g reason' dur r) k = Some e' \<and> rec_state (e_record e') = StatePaused
          \<and> e_nextTry e' = now + rs_pauseRetry (reg_cfg r))
    \<and> NotifySeq (Failing now k g reason' dur r) = NotifySeq r
    \<and> \<not> IsReady (Pause now k g reason' r) k"
  using assms by (auto simp: Enter_def Failing_def Pause_def Let_def IsReady_def NotifySeq_def)

theorem pause_sticky_witness:
  "let r = Pause 5 w_relay_key 1 ReasonPaused w_admitted
   in Enter 6 w_relay_key 1 StateDiscovering [] r = r
      \<and> map_option e_nextTry (get (Failing 7 w_relay_key 1 ReasonUnreachable 0 r) w_relay_key)
          = Some (7 + 600 * second)"
proof -
  let ?r = "Pause 5 w_relay_key 1 ReasonPaused w_admitted"
  have "\<exists>e. get ?r w_relay_key = Some e \<and> rec_state (e_record e) = StatePaused \<and> \<not> e_serving e
      \<and> rec_generation (e_record e) = 1"
    by (simp add: Pause_def w_admitted_current_Suc Let_def w_entry_def)
  then obtain e where e: "current ?r w_relay_key 1 = Some e" "rec_state (e_record e) = StatePaused"
    "\<not> e_serving e"
    by (auto simp: current_Some)
  have pr: "rs_pauseRetry (reg_cfg ?r) = 600 * second"
    by (simp add: Pause_def w_admitted_current_Suc Let_def w_entry_def second_def)
  note sticky = pause_sticky [OF e, of StateDiscovering _ "[]" ReasonUnreachable 0]
  have "Enter 6 w_relay_key 1 StateDiscovering [] ?r = ?r" using sticky by blast
  moreover obtain e' where "get (Failing 7 w_relay_key 1 ReasonUnreachable 0 ?r) w_relay_key = Some e'"
    "e_nextTry e' = 7 + rs_pauseRetry (reg_cfg ?r)" using sticky by blast
  ultimately show ?thesis using pr by (simp only: Let_def option.map)
qed

section \<open>What one reload does to one relay\<close>

lemma sync_member_other: "k \<noteq> m_key m \<Longrightarrow> get (sync_member now m r) k = get r k"
  by (auto simp: sync_member_def Let_def split: option.split)

lemma sync_leave_other: "k \<noteq> k' \<Longrightarrow> get (sync_leave now k' r) k = get r k"
  by (auto simp: sync_leave_def Let_def split: option.split)

lemma fold_member_other: "k \<notin> m_key ` set ms \<Longrightarrow> get (fold (sync_member now) ms r) k = get r k"
  by (induction ms arbitrary: r) (auto simp: sync_member_other)

lemma fold_leave_other: "k \<notin> set ks \<Longrightarrow> get (fold (sync_leave now) ks r) k = get r k"
  by (induction ks arbitrary: r) (auto simp: sync_leave_other)

lemma sync_member_local: "get s (m_key m) = get r (m_key m) \<Longrightarrow> get r (m_key m) \<noteq> None \<Longrightarrow>
    get (sync_member now m s) (m_key m) = get (sync_member now m r) (m_key m)"
  by (auto simp: sync_member_def Let_def split: option.split)

lemma sync_leave_local: "get s k = get r k \<Longrightarrow> get (sync_leave now k s) k = get (sync_leave now k r) k"
  by (auto simp: sync_leave_def Let_def split: option.split)

lemma Sync_get_member:
  assumes "m \<in> set ms" and "distinct (map m_key ms)" and "get r (m_key m) \<noteq> None"
  shows "get (Sync now ms r) (m_key m) = get (sync_member now m r) (m_key m)"
proof -
  obtain xs ys where ms: "ms = xs @ m # ys" using assms(1) by (auto simp: in_set_conv_decomp)
  with assms(2) have out: "m_key m \<notin> m_key ` set xs" "m_key m \<notin> m_key ` set ys" by auto
  have "get (fold (sync_member now) ms r) (m_key m)
      = get (sync_member now m (fold (sync_member now) xs r)) (m_key m)"
    by (simp add: ms fold_member_other [OF out(2)])
  also have "\<dots> = get (sync_member now m r) (m_key m)"
    using fold_member_other [OF out(1)] assms(3) by (rule sync_member_local)
  finally show ?thesis
    using assms(1) by (simp add: Sync_def Let_def fold_leave_other)
qed

lemma Sync_get_leave:
  assumes "k \<notin> m_key ` set ms" and "distinct (map fst (reg_entries r))" and "get r k \<noteq> None"
  shows "get (Sync now ms r) k = get (sync_leave now k r) k"
proof -
  let ?r = "fold (sync_member now) ms r"
  let ?ks = "filter (\<lambda>k. k \<notin> set (map m_key ms)) (map fst (reg_entries ?r))"
  have same: "get ?r k = get r k" using assms(1) by (rule fold_member_other)
  have "distinct (map fst (reg_entries (sync_member now m s)))"
    if "distinct (map fst (reg_entries s))" for m s
    using that by (auto simp: sync_member_def Let_def put_def distinct_update split: option.split)
  then have "distinct (map fst (reg_entries ?r))"
    using assms(2) by (induction ms arbitrary: r) auto
  then have d: "distinct ?ks" by (rule distinct_filter)
  have "k \<in> fst ` set (reg_entries ?r)" using assms(3) same by (metis map_of_eq_None_iff)
  then have "k \<in> set ?ks" using assms(1) by simp
  then obtain xs ys where ks: "?ks = xs @ k # ys" and out1: "k \<notin> set xs"
    by (meson split_list_first)
  from d have out2: "k \<notin> set ys" unfolding ks by simp
  have "get (Sync now ms r) k = get (fold (sync_leave now) ?ks ?r) k"
    by (simp add: Sync_def Let_def)
  also have "\<dots> = get (sync_leave now k (fold (sync_leave now) xs ?r)) k"
    by (simp only: ks fold_append comp_def fold.simps fold_leave_other [OF out2])
  also have "\<dots> = get (sync_leave now k r) k"
    using fold_leave_other [OF out1] same by (metis sync_leave_local)
  finally show ?thesis .
qed

text \<open>
  A moved scope pin is a new incarnation: the reload that brings a known scope other
  than the recorded one revokes admission, bumps the generation, restarts the relay from
  \<open>configured\<close>, and leaves the barrier marker exactly when the relay was serving. A
  credential that does not resolve now leaves the relay's entry untouched.
\<close>

theorem scope_move_new_incarnation:
  assumes "m \<in> set ms" and "distinct (map m_key ms)" and "get r (m_key m) = Some e"
    and "e_scopeKnown e" and "rec_state (e_record e) \<noteq> StateRemoving"
  shows "(m_scopeKnown m \<and> m_scope m \<noteq> e_scope e \<longrightarrow>
      (\<exists>e'. get (Sync now ms r) (m_key m) = Some e' \<and> \<not> e_serving e'
        \<and> rec_generation (e_record e') = rec_generation (e_record e) + 1
        \<and> rec_state (e_record e') = StateConfigured \<and> e_nextTry e' = zero_time
        \<and> e_scope e' = m_scope m \<and> e_scopeChanged e' = e_serving e))
    \<and> (\<not> (m_scopeKnown m \<and> m_scope m \<noteq> e_scope e) \<longrightarrow> get (Sync now ms r) (m_key m) = Some e)"
  using assms(3-5) Sync_get_member [OF assms(1,2)] by (auto simp: sync_member_def Let_def)

text \<open>The admitted relay once its scope resolved to organization \<open>a\<close>.\<close>

definition w_scoped :: registry where
  "w_scoped = Sync 5 [w_member True ''a''] w_admitted"

lemma w_scoped_get:
  "get w_scoped w_relay_key
     = Some (w_entry\<lparr>e_scope := w_scope ''a'', e_scopeKnown := True, e_scopeFP := FP (w_scope ''a'')\<rparr>)"
  using Sync_get_member [of "w_member True ''a''" "[w_member True ''a'']" w_admitted 5] w_admitted_get
  by (simp add: w_scoped_def w_member_def sync_member_def Let_def memberScopeFP_def)
     (simp add: w_entry_def)

theorem scope_move_new_incarnation_witness:
  "\<exists>e'. get (Sync 6 [w_member True ''b''] w_scoped) w_relay_key = Some e' \<and> \<not> e_serving e'
     \<and> rec_generation (e_record e') = 2 \<and> e_scopeChanged e'"
  using scope_move_new_incarnation [of "w_member True ''b''" "[w_member True ''b'']" w_scoped _ 6,
      OF _ _ _ _ _, of "w_entry\<lparr>e_scope := w_scope ''a'', e_scopeKnown := True, e_scopeFP := FP (w_scope ''a'')\<rparr>"]
    w_scoped_get
  by (auto simp: w_member_def) (auto simp: w_entry_def w_scope_def)

lemma DeleteDone_stale_get:
  "GenerationOf r k \<noteq> Some g \<Longrightarrow> DeleteDone k g r = r \<and> DeleteFailed now k g reason r = r"
  using stale_void [of "OpDeleteDone k g" k g r now] stale_void [of "OpDeleteFailed k g reason" k g r now]
  by simp

text \<open>
  Removal and re-adding: the reload that drops a relay revokes its admission and
  opens incarnation g + 1 for the delete; the reload that brings it back opens g + 2 with a
  clean slate, and from then on the completion of the delete that ran under g + 1, success
  or failure, changes nothing.
\<close>

theorem readd_outruns_delete:
  assumes "reg_wf r" and "get r k = Some e" and "rec_state (e_record e) \<noteq> StateRemoving"
    and "k \<notin> m_key ` set ms" and "m \<in> set ms'" and "m_key m = k" and "distinct (map m_key ms')"
  shows "\<not> IsReady (Sync now ms r) k
    \<and> GenerationOf (Sync now ms r) k = Some (rec_generation (e_record e) + 1)
    \<and> (let r2 = Sync now' ms' (Sync now ms r); g = rec_generation (e_record e) + 1 in
         GenerationOf r2 k = Some (g + 1) \<and> \<not> IsReady r2 k
         \<and> map_option rec_state (StateOf r2 k) = Some StateConfigured
         \<and> DeleteDone k g r2 = r2 \<and> DeleteFailed t k g reason r2 = r2)"
proof -
  let ?r1 = "Sync now ms r"
  let ?r2 = "Sync now' ms' ?r1"
  obtain e1 where e1: "get ?r1 k = Some e1" "\<not> e_serving e1" "rec_state (e_record e1) = StateRemoving"
    "rec_generation (e_record e1) = rec_generation (e_record e) + 1"
    using Sync_get_leave [OF assms(4) reg_wf_distinct [OF assms(1)]] assms(2,3)
    by (auto simp: sync_leave_def Let_def)
  obtain e2 where e2: "get ?r2 k = Some e2" "\<not> e_serving e2" "rec_state (e_record e2) = StateConfigured"
    "rec_generation (e_record e2) = rec_generation (e_record e) + 2"
    using Sync_get_member [OF assms(5,7), of ?r1 now'] e1 assms(6)
    by (auto simp: sync_member_def Let_def)
  then have "GenerationOf ?r2 k \<noteq> Some (rec_generation (e_record e) + 1)"
    by (simp add: GenerationOf_def)
  from DeleteDone_stale_get [OF this, of t reason] e1 e2 show ?thesis
    by (simp add: Let_def GenerationOf_def IsReady_def StateOf_def)
qed

theorem readd_outruns_delete_witness:
  "let r2 = Sync 6 [w_member False []] (Sync 5 [] w_admitted)
   in GenerationOf r2 w_relay_key = Some 3 \<and> DeleteDone w_relay_key 2 r2 = r2"
  using readd_outruns_delete [OF w_admitted_wf w_admitted_get, of "[]" "w_member False []"
      "[w_member False []]" 5 6]
  by (simp add: w_member_def Let_def) (simp add: w_entry_def numeral_2_eq_2 numeral_3_eq_3)

section \<open>The drain marker\<close>

definition drain_due :: "registry \<Rightarrow> relay_key \<Rightarrow> nat \<Rightarrow> bool" where
  "drain_due r k g \<longleftrightarrow> (\<exists>e. current r k g = Some e \<and> rec_drainPending (e_record e))"

text \<open>The marker stands, or a later incarnation replaced the one it belonged to.\<close>

definition drain_or_later :: "relay_key \<Rightarrow> nat \<Rightarrow> registry \<Rightarrow> bool" where
  "drain_or_later k g r \<longleftrightarrow>
     (\<exists>e. get r k = Some e \<and> (rec_generation (e_record e) = g \<and> rec_drainPending (e_record e)
                             \<or> g < rec_generation (e_record e)))"

lemma drain_put [simp]:
  "drain_or_later k g (put k' e r) \<longleftrightarrow>
     (if k = k' then rec_generation (e_record e) = g \<and> rec_drainPending (e_record e)
                     \<or> g < rec_generation (e_record e)
      else drain_or_later k g r)"
  by (auto simp: drain_or_later_def)

lemma drain_frame [simp]:
  "drain_or_later k g (notify r) = drain_or_later k g r"
  "drain_or_later k g (r\<lparr>reg_readyCount := n\<rparr>) = drain_or_later k g r"
  "drain_or_later k g (r\<lparr>reg_nextObj := m\<rparr>) = drain_or_later k g r"
  "drain_or_later k g (r\<lparr>reg_pending := b\<rparr>) = drain_or_later k g r"
  by (simp_all add: drain_or_later_def)

lemma drain_get: "get r k = Some e \<Longrightarrow> drain_or_later k g r \<longleftrightarrow>
    rec_generation (e_record e) = g \<and> rec_drainPending (e_record e) \<or> g < rec_generation (e_record e)"
  by (simp add: drain_or_later_def)

lemma drain_none: "get r k = None \<Longrightarrow> \<not> drain_or_later k g r"
  by (simp add: drain_or_later_def)

lemma drain_current: "current r k g' = Some e \<Longrightarrow> drain_or_later k g r \<longleftrightarrow>
    g' = g \<and> rec_drainPending (e_record e) \<or> g < g'"
  by (auto simp: drain_or_later_def current_Some)

lemma current_gen: "current r k g = Some e \<Longrightarrow> rec_generation (e_record e) = g"
  by (simp add: current_Some)

lemma drain_transitions:
  assumes "drain_or_later k g r"
  shows "drain_or_later k g (Enter now k' g' st reason r)" "drain_or_later k g (DeferDrain k' g' r)"
    "drain_or_later k g (snd (TakeScopeChanged k' g' r))"
    "drain_or_later k g (DeleteFailed now k' g' reason r)" "drain_or_later k g (Pause now k' g' reason r)"
    "drain_or_later k g (Failing now k' g' reason dur r)" "drain_or_later k g (Demote now k' g' reason r)"
    "(k', g') \<noteq> (k, g) \<Longrightarrow> drain_or_later k g (Ready now k' g' url token dur r)"
    "(k', g') \<noteq> (k, g) \<Longrightarrow> drain_or_later k g (DrainCompleted k' g' r)"
  using assms
  by (cases "current r k' g'"; auto simp: transition_defs drain_current dest: current_gen)+

lemma drain_sync_member:
  assumes d: "drain_or_later k g r"
  shows "drain_or_later k g (sync_member now m r)"
proof (cases "get r (m_key m)")
  case None
  with d have "k \<noteq> m_key m" by (auto simp: drain_none)
  with None d show ?thesis by (simp add: sync_member_def Let_def)
next
  case (Some e)
  show ?thesis
  proof (cases "k = m_key m")
    case True
    with d Some show ?thesis by (auto simp: sync_member_def Let_def drain_get)
  next
    case False
    with d Some show ?thesis by (simp add: sync_member_def Let_def)
  qed
qed

lemma drain_sync_leave:
  assumes d: "drain_or_later k g r"
  shows "drain_or_later k g (sync_leave now k' r)"
proof (cases "get r k'")
  case None
  with d show ?thesis by (simp add: sync_leave_def)
next
  case (Some e)
  show ?thesis
  proof (cases "k = k'")
    case True
    with d Some show ?thesis by (auto simp: sync_leave_def Let_def drain_get)
  next
    case False
    with d Some show ?thesis by (simp add: sync_leave_def Let_def)
  qed
qed

lemma drain_Sync: "drain_or_later k g r \<Longrightarrow> drain_or_later k g (Sync now ms r)"
  by (rule Sync_lift [of "\<lambda>r s. drain_or_later k g r \<longrightarrow> drain_or_later k g s" now, THEN mp])
     (auto intro: drain_sync_member drain_sync_leave)

lemma drain_rest:
  assumes "drain_or_later k g r"
  shows "drain_or_later k g (snd (Begin now k' r))" "drain_or_later k g (snd (BeginDelete k' r))"
    "drain_or_later k g (Release t r)" "drain_or_later k g (UpdateSettings s r)"
    "k' \<noteq> k \<Longrightarrow> drain_or_later k g (DeleteDone k' g' r)"
    "drain_or_later k g (case take_change r of None \<Rightarrow> r | Some r' \<Rightarrow> r')"
proof -
  show "drain_or_later k g (snd (Begin now k' r))" "drain_or_later k g (snd (BeginDelete k' r))"
    "drain_or_later k g (Release t r)"
    using assms drain_none [of r k]
    by (auto simp: Begin_def BeginDelete_def Release_def ensure_entry_def Let_def drain_get split: option.split)
  show "drain_or_later k g (UpdateSettings s r)" "k' \<noteq> k \<Longrightarrow> drain_or_later k g (DeleteDone k' g' r)"
    "drain_or_later k g (case take_change r of None \<Rightarrow> r | Some r' \<Rightarrow> r')"
    using assms
    by (auto simp: drain_or_later_def UpdateSettings_get DeleteDone_def delete_conv' split: option.split)
qed

text \<open>The calls that may clear the marker of one incarnation.\<close>

fun clears_drain :: "relay_key \<Rightarrow> nat \<Rightarrow> reg_op \<Rightarrow> bool" where
  "clears_drain k g (OpReady k' g' u t d) \<longleftrightarrow> (k', g') = (k, g)"
| "clears_drain k g (OpDrainCompleted k' g') \<longleftrightarrow> (k', g') = (k, g)"
| "clears_drain k g (OpDeleteDone k' g') \<longleftrightarrow> k' = k"
| "clears_drain k g _ \<longleftrightarrow> False"

lemma drain_apply:
  "drain_or_later k g r \<Longrightarrow> \<not> clears_drain k g op \<Longrightarrow> drain_or_later k g (reg_apply now op r)"
  by (cases op) (auto simp: drain_transitions drain_Sync drain_rest)

lemma drain_run:
  "drain_or_later k g r \<Longrightarrow> \<forall>x \<in> set ops. \<not> clears_drain k g (snd x) \<Longrightarrow> drain_or_later k g (reg_run ops r)"
  by (induction ops arbitrary: r) (auto simp: drain_apply)

text \<open>
  A deferred drain is never forgotten: once \<open>DeferDrain\<close> marked an incarnation, no
  relabelling, failure, pause or reload clears the marker; it stands until the drain
  completes, the relay is verified again, or the incarnation is replaced or deleted.
\<close>

theorem deferred_drain_persists:
  assumes "GenerationOf r k = Some g" and "\<forall>x \<in> set ops. \<not> clears_drain k g (snd x)"
    and "GenerationOf (reg_run ops (DeferDrain k g r)) k = Some g"
  shows "drain_due (reg_run ops (DeferDrain k g r)) k g"
proof -
  have "drain_or_later k g (DeferDrain k g r)"
    using assms(1) by (auto simp: DeferDrain_def GenerationOf_def current_def split: option.split)
  from drain_run [OF this assms(2)] assms(3) show ?thesis
    by (auto simp: drain_or_later_def drain_due_def current_Some GenerationOf_def)
qed

theorem deferred_drain_persists_witness:
  "drain_due (reg_run [(5, OpPause w_relay_key 1 ReasonPaused), (6, OpFailing w_relay_key 1 ReasonUnreachable 0)]
     (DeferDrain w_relay_key 1 w_admitted)) w_relay_key 1"
proof (rule deferred_drain_persists)
  show "GenerationOf w_admitted w_relay_key = Some 1"
    by (simp add: GenerationOf_def w_admitted_get) (simp add: w_entry_def)
  have gen: "GenerationOf s w_relay_key = GenerationOf r w_relay_key" if "same_flight w_relay_key r s" for r s
    using that by (auto simp: same_flight_def GenerationOf_def flight_def map_option_case split: option.splits)
  have "GenerationOf (Failing 6 w_relay_key 1 ReasonUnreachable 0
          (Pause 5 w_relay_key 1 ReasonPaused (DeferDrain w_relay_key 1 w_admitted))) w_relay_key
      = GenerationOf w_admitted w_relay_key"
    using gen transitions_flight(2,6,7) by metis
  then show "GenerationOf (reg_run [(5, OpPause w_relay_key 1 ReasonPaused),
      (6, OpFailing w_relay_key 1 ReasonUnreachable 0)] (DeferDrain w_relay_key 1 w_admitted)) w_relay_key = Some 1"
    by (simp add: GenerationOf_def w_admitted_get) (simp add: w_entry_def)
qed simp

end
