(* ===== verification/Runs.thy ===== *)
theory Runs
  imports Main
begin

text \<open>
  Runs of a concurrent component: its step function takes an event, one atomic step of one goroutine
  or of the environment, and answers None where that event cannot happen. A list of events is a
  schedule, so that a statement over all lists is one over all interleavings and a concrete list can
  be evaluated.
\<close>

primrec run_events :: "('e \<Rightarrow> 's \<Rightarrow> 's option) \<Rightarrow> 'e list \<Rightarrow> 's \<Rightarrow> 's option" where
  "run_events step [] s = Some s"
| "run_events step (e # es) s = (case step e s of None \<Rightarrow> None | Some s' \<Rightarrow> run_events step es s')"

lemma run_events_append:
  "run_events step (es @ fs) s = (case run_events step es s of None \<Rightarrow> None | Some s' \<Rightarrow> run_events step fs s')"
  by (induction es arbitrary: s) (simp_all split: option.split)

lemma run_events_Cons:
  assumes "run_events step (e # es) s = Some s'"
  obtains m where "step e s = Some m" "run_events step es m = Some s'"
  using assms by (auto split: option.splits)

text \<open>What every event of a schedule keeps holds after it.\<close>

lemma run_events_inv:
  assumes "run_events step es s = Some s'" and "I s"
    and "\<And>e a b. e \<in> set es \<Longrightarrow> step e a = Some b \<Longrightarrow> I a \<Longrightarrow> I b"
  shows "I s'"
  using assms
proof (induction es arbitrary: s)
  case (Cons e es)
  from Cons.prems(1) obtain m where m: "step e s = Some m" "run_events step es m = Some s'"
    by (rule run_events_Cons)
  from Cons.prems(3) [OF _ m(1) Cons.prems(2)] have "I m" by simp
  show ?case by (rule Cons.IH [OF m(2) \<open>I m\<close>]) (rule Cons.prems(3), simp_all)
qed simp

text \<open>Progress: from a state of rank \<open>n\<close>, in which some chosen event always lowers the rank, \<open>n\<close> events lead to rank 0.\<close>

lemma run_events_rank:
  assumes "I s" and "rank s = n"
    and "\<And>s k. I s \<Longrightarrow> rank s = Suc k \<Longrightarrow> \<exists>e s'. e \<in> E \<and> step e s = Some s' \<and> I s' \<and> rank s' = k"
  shows "\<exists>es s'. length es = n \<and> set es \<subseteq> E \<and> run_events step es s = Some s' \<and> I s' \<and> rank s' = (0 :: nat)"
  using assms(1,2)
proof (induction n arbitrary: s)
  case 0
  then show ?case by (intro exI [of _ "[]"]) simp
next
  case (Suc n)
  from assms(3) [OF Suc.prems] obtain e m where m: "e \<in> E" "step e s = Some m" "I m" "rank m = n" by blast
  from Suc.IH [OF m(3,4)] obtain es s' where
    "length es = n" "set es \<subseteq> E" "run_events step es m = Some s'" "I s'" "rank s' = 0" by blast
  with m show ?case by (intro exI [of _ "e # es"] exI [of _ s']) simp
qed

text \<open>Bounded length: every event lowers a measure by one.\<close>

lemma run_events_measure:
  assumes "run_events step es s = Some s'" and "I s"
    and "\<And>e a b. step e a = Some b \<Longrightarrow> I a \<Longrightarrow> I b \<and> f a = Suc (f b)"
  shows "I s' \<and> f s = length es + (f s' :: nat)"
  using assms(1,2)
proof (induction es arbitrary: s)
  case (Cons e es)
  from Cons.prems(1) obtain m where m: "step e s = Some m" "run_events step es m = Some s'"
    by (rule run_events_Cons)
  with assms(3) [OF m(1) Cons.prems(2)] Cons.IH [OF m(2)] show ?case by simp
qed simp

end
