(* ===== verification/System.thy ===== *)
theory System
  imports Reconcile Registry_Protocol Runs
begin

text \<open>
  The whole control plane beside the data plane, as \<open>cmd/http-relay-gateway/main.go\<close> wires
  it: the registry, the applier (the loop that rebuilds and swaps the serving generation
  and publishes how far it got), the settle barrier, the worker goroutines of the
  reconciler, and the requests in flight per relay. Every event is one atomic step of one
  thread; a run is a list of events, so all interleavings are covered and a concrete one
  can be evaluated.

  In-flight requests are counted here per relay key; \<open>internal/gateway\<close> counts them under the
  rendered key, which on the hard-coded platforms is the same thing (the key order lemma
  of \<^theory_text>\<open>Deploy_Identity\<close>). \<open>s_poolSeq\<close> and \<open>s_verified\<close> are not in the code: the
  count captured for the swapped generation, and every (relay, URL, relay key) whose
  verification came back positive.
\<close>

section \<open>State\<close>

text \<open>\<open>apply\<close>: idle, woken, count captured, generation built, generation swapped in.\<close>

datatype apply_pc = A_Idle | A_Woken | A_Captured nat | A_Built nat "serving list" | A_Swapped nat

record sys =
  s_reg :: registry
  s_pool :: "serving list"
  s_poolSeq :: nat
  s_applied :: nat
  s_apply :: apply_pc
  s_shutting :: bool
  s_live :: "relay_key \<Rightarrow> nat"
  s_workers :: "(nat \<times> worker) list"
  s_verified :: "(relay_key \<times> string \<times> string) list"

definition sys_init :: "settings \<Rightarrow> sys" where
  "sys_init cfg =
     \<lparr>s_reg = New cfg, s_pool = Serving (New cfg), s_poolSeq = 0, s_applied = 0, s_apply = A_Idle,
      s_shutting = False, s_live = (\<lambda>_. 0), s_workers = [], s_verified = []\<rparr>"

section \<open>Events\<close>

datatype sys_event =
    EvSync instant "member list"
  | EvSettings settings
  | EvChange
  | EvReload
  | EvCapture
  | EvBuild
  | EvSwap
  | EvPublish
  | EvShutdown
  | EvBegin relay_key
  | EvEnd relay_key
  | EvSpawn nat worker
  | EvStep nat instant w_input
  | EvReap nat

text \<open>
  When an external answer is possible: \<open>settle\<close> returns true once the applier published the
  target and false only at shutdown; a drain succeeds when the relay carries no request.
\<close>

definition target :: "wpc \<Rightarrow> nat option" where
  "target pc = (case pc of R_Settling g t \<Rightarrow> Some t | D_Settling g t \<Rightarrow> Some t | _ \<Rightarrow> None)"

definition input_possible :: "sys \<Rightarrow> worker \<Rightarrow> w_input \<Rightarrow> bool" where
  "input_possible s w i =
     (case i of
        I_Settled b \<Rightarrow>
          (case target (wk_pc w) of
             None \<Rightarrow> False
           | Some t \<Rightarrow> if b then t \<le> s_applied s else s_shutting s \<and> s_applied s < t)
      | I_Idle b \<Rightarrow> b \<longrightarrow> s_live s (wk_key w) = 0
      | _ \<Rightarrow> True)"

text \<open>A positive verification, noted with the URL it was for.\<close>

definition note_verified :: "worker \<Rightarrow> w_input \<Rightarrow> (relay_key \<times> string \<times> string) list" where
  "note_verified w i =
     (case i of
        I_Verdict v \<Rightarrow>
          if v_kind v \<noteq> verifyOK then []
          else (case wk_pc w of
                  E_Verify g wr dp url \<Rightarrow> [(wk_key w, url, wk_relayKey w)]
                | R_Verify g b url \<Rightarrow> [(wk_key w, url, wk_relayKey w)]
                | _ \<Rightarrow> [])
      | _ \<Rightarrow> [])"

definition pool_keys :: "serving list \<Rightarrow> relay_key list" where
  "pool_keys l = map sv_key l"

definition fresh_worker :: "worker \<Rightarrow> bool" where
  "fresh_worker w \<longleftrightarrow> (wk_pc w = E_Allow \<or> wk_pc w = D_Allow) \<and> fst (wk_release w) = wk_key w"

fun sys_apply :: "sys_event \<Rightarrow> sys \<Rightarrow> sys option" where
  "sys_apply (EvSync now ms) s = Some (s\<lparr>s_reg := Sync now ms (s_reg s)\<rparr>)"
| "sys_apply (EvSettings c) s = Some (s\<lparr>s_reg := UpdateSettings c (s_reg s)\<rparr>)"
| "sys_apply EvChange s =
     (case (s_apply s, take_change (s_reg s)) of
        (A_Idle, Some r) \<Rightarrow> Some (s\<lparr>s_reg := r, s_apply := A_Woken\<rparr>)
      | _ \<Rightarrow> None)"
| "sys_apply EvReload s = (if s_apply s = A_Idle then Some (s\<lparr>s_apply := A_Woken\<rparr>) else None)"
| "sys_apply EvCapture s =
     (if s_apply s = A_Woken then Some (s\<lparr>s_apply := A_Captured (NotifySeq (s_reg s))\<rparr>) else None)"
| "sys_apply EvBuild s =
     (case s_apply s of
        A_Captured c \<Rightarrow> Some (s\<lparr>s_apply := A_Built c (Serving (s_reg s))\<rparr>)
      | _ \<Rightarrow> None)"
| "sys_apply EvSwap s =
     (case s_apply s of
        A_Built c l \<Rightarrow> Some (s\<lparr>s_pool := l, s_poolSeq := c, s_apply := A_Swapped c\<rparr>)
      | _ \<Rightarrow> None)"
| "sys_apply EvPublish s =
     (case s_apply s of
        A_Swapped c \<Rightarrow>
          Some (s\<lparr>s_applied := (if c > s_applied s then c else s_applied s), s_apply := A_Idle\<rparr>)
      | _ \<Rightarrow> None)"
| "sys_apply EvShutdown s = Some (s\<lparr>s_shutting := True\<rparr>)"
| "sys_apply (EvBegin k) s =
     (if k \<in> set (pool_keys (s_pool s)) then Some (s\<lparr>s_live := (s_live s)(k := s_live s k + 1)\<rparr>) else None)"
| "sys_apply (EvEnd k) s =
     (if s_live s k > 0 then Some (s\<lparr>s_live := (s_live s)(k := s_live s k - 1)\<rparr>) else None)"
| "sys_apply (EvSpawn j w) s =
     (if fresh_worker w \<and> map_of (s_workers s) j = None
      then Some (s\<lparr>s_workers := AList.update j w (s_workers s)\<rparr>) else None)"
| "sys_apply (EvStep j now i) s =
     (case map_of (s_workers s) j of
        None \<Rightarrow> None
      | Some w \<Rightarrow>
          if \<not> input_possible s w i then None
          else (case worker_step now i (w, s_reg s) of
                  None \<Rightarrow> None
                | Some (w', r') \<Rightarrow>
                    Some (s\<lparr>s_reg := r', s_workers := AList.update j w' (s_workers s),
                           s_verified := note_verified w i @ s_verified s\<rparr>)))"
| "sys_apply (EvReap j) s =
     (case map_of (s_workers s) j of
        None \<Rightarrow> None
      | Some w \<Rightarrow> if wk_pc w = W_Done then Some (s\<lparr>s_workers := AList.delete j (s_workers s)\<rparr>)
                  else None)"

abbreviation sys_exec :: "sys_event list \<Rightarrow> sys \<Rightarrow> sys option" where
  "sys_exec \<equiv> run_events sys_apply"

inductive reachable :: "settings \<Rightarrow> sys \<Rightarrow> bool" for cfg where
  init: "reachable cfg (sys_init cfg)"
| step: "reachable cfg s \<Longrightarrow> sys_apply e s = Some s' \<Longrightarrow> reachable cfg s'"

lemma reachable_exec: "reachable cfg s \<Longrightarrow> sys_exec es s = Some s' \<Longrightarrow> reachable cfg s'"
  by (rule run_events_inv [where I = "reachable cfg"]) (auto intro: reachable.step)

end
