(* ===== verification/System_Invariants.thy ===== *)
theory System_Invariants
  imports System
begin

text \<open>
  The invariant of the control plane. Its centre is \<open>worker_inv\<close>: what a goroutine between
  \<open>Begin\<close> and its release may rely on at each program point, in spite of reloads, the
  applier, the requests and every other goroutine.
\<close>

section \<open>What other threads can do to a relay\<close>

text \<open>
  A step that is not the work of the goroutine holding \<open>k\<close>: it keeps the registry well
  formed, announces membership changes, can only withdraw \<open>k\<close>, and leaves its flight alone.
\<close>

definition benign :: "relay_key set \<Rightarrow> registry \<Rightarrow> registry \<Rightarrow> bool" where
  "benign K r r' \<longleftrightarrow>
     reg_wf r' \<and> announces r r'
     \<and> (\<forall>k. k \<notin> K \<longrightarrow> (offer r' k = None \<or> offer r' k = offer r k) \<and> (\<forall>n. held r k n \<longrightarrow> held r' k n))"

text \<open>The relay a call is about.\<close>

fun op_key :: "reg_op \<Rightarrow> relay_key option" where
  "op_key (OpBegin k) = Some k"
| "op_key (OpBeginDelete k) = Some k"
| "op_key (OpRelease t) = Some (fst t)"
| "op_key op = map_option fst (op_target op)"

lemma benign_apply:
  assumes "reg_wf r" and "op_ok op" and "op \<noteq> OpTakeChange"
    and "op_key op = Some k \<or> (\<exists>ms. op = OpSync ms) \<or> (\<exists>c. op = OpUpdateSettings c)"
  shows "benign (set_option (op_key op)) r (reg_apply now op r)"
proof -
  have "held (reg_apply now op r) k' n" if "k' \<notin> set_option (op_key op)" "held r k' n" for k' n
    using that by (intro apply_held) (cases op; auto)+
  moreover have "offer (reg_apply now op r) k' = None \<or> offer (reg_apply now op r) k' = offer r k'"
    if "k' \<notin> set_option (op_key op)" for k'
  proof (cases "is_ready_op op")
    case True
    with that show ?thesis by (cases op) (auto simp: Ready_offer)
  next
    case False
    with narrows_apply [OF assms(1) False, of now] show ?thesis by (simp add: narrows_def)
  qed
  ultimately show ?thesis
    using assms by (simp add: benign_def reg_apply_wf announces_apply)
qed

lemma benign_refl: "reg_wf r \<Longrightarrow> benign K r r"
  by (simp add: benign_def)

text \<open>Every step of a goroutine is nothing or one call about its own relay.\<close>

definition own_step :: "instant \<Rightarrow> worker \<Rightarrow> registry \<Rightarrow> worker \<Rightarrow> registry \<Rightarrow> bool" where
  "own_step now w r w' r' \<longleftrightarrow>
     wk_key w' = wk_key w \<and> wk_relayKey w' = wk_relayKey w
     \<and> (fst (wk_release w) = wk_key w \<longrightarrow> fst (wk_release w') = wk_key w)
     \<and> (r' = r \<or> (\<exists>op. r' = reg_apply now op r \<and> op_ok op \<and> op \<noteq> OpTakeChange
                     \<and> (op_key op = Some (wk_key w) \<or> op_key op = Some (fst (wk_release w)))))"

lemma own_stepI:
  "op_ok op \<Longrightarrow> op \<noteq> OpTakeChange \<Longrightarrow> op_key op = Some (wk_key w) \<or> op_key op = Some (fst (wk_release w)) \<Longrightarrow>
   r' = reg_apply now op r \<Longrightarrow> wk_key w' = wk_key w \<Longrightarrow> wk_relayKey w' = wk_relayKey w \<Longrightarrow>
   (fst (wk_release w) = wk_key w \<longrightarrow> fst (wk_release w') = wk_key w) \<Longrightarrow> own_step now w r w' r'"
  unfolding own_step_def by blast

lemma own_step_id:
  "wk_key w' = wk_key w \<Longrightarrow> wk_relayKey w' = wk_relayKey w \<Longrightarrow> wk_release w' = wk_release w \<Longrightarrow>
   own_step now w r w' r"
  by (simp add: own_step_def)

lemma Begin_token: "Begin now k r = (Some (t, g), r') \<Longrightarrow> fst t = k"
  by (auto simp: Begin_def split: prod.splits if_splits)

lemma BeginDelete_token: "BeginDelete k r = (Some (t, g), r') \<Longrightarrow> fst t = k"
  by (auto simp: BeginDelete_def split: option.splits if_splits)

lemma own_calls [simp]:
  "own_step now w r (w\<lparr>wk_pc := p\<rparr>) r"
  "st \<noteq> StatePaused \<Longrightarrow> st \<noteq> StateRemoving \<Longrightarrow>
     own_step now w r (w\<lparr>wk_pc := p\<rparr>) (Enter now (wk_key w) g st reason r)"
  "own_step now w r (w\<lparr>wk_pc := p\<rparr>) (Ready now (wk_key w) g url tok dur r)"
  "own_step now w r (w\<lparr>wk_pc := p\<rparr>) (Failing now (wk_key w) g reason dur r)"
  "own_step now w r (w\<lparr>wk_pc := p\<rparr>) (Demote now (wk_key w) g reason r)"
  "own_step now w r (w\<lparr>wk_pc := p\<rparr>) (Pause now (wk_key w) g reason r)"
  "own_step now w r (w\<lparr>wk_pc := p\<rparr>) (DeferDrain (wk_key w) g r)"
  "own_step now w r (w\<lparr>wk_pc := p\<rparr>) (DrainCompleted (wk_key w) g r)"
  "own_step now w r (w\<lparr>wk_pc := p\<rparr>) (snd (TakeScopeChanged (wk_key w) g r))"
  "own_step now w r (w\<lparr>wk_pc := p\<rparr>) (DeleteFailed now (wk_key w) g reason r)"
  "own_step now w r (w\<lparr>wk_pc := p\<rparr>) (DeleteDone (wk_key w) g r)"
  "own_step now w r (w\<lparr>wk_pc := p\<rparr>) (Release (wk_release w) r)"
  "own_step now w r (w\<lparr>wk_pc := p\<rparr>) (snd (Begin now (wk_key w) r))"
  "own_step now w r (w\<lparr>wk_pc := p\<rparr>) (snd (BeginDelete (wk_key w) r))"
  by (rule own_step_id own_stepI [where op = "OpEnter (wk_key w) g st reason"]
        own_stepI [where op = "OpReady (wk_key w) g url tok dur"]
        own_stepI [where op = "OpFailing (wk_key w) g reason dur"]
        own_stepI [where op = "OpDemote (wk_key w) g reason"]
        own_stepI [where op = "OpPause (wk_key w) g reason"]
        own_stepI [where op = "OpDeferDrain (wk_key w) g"]
        own_stepI [where op = "OpDrainCompleted (wk_key w) g"]
        own_stepI [where op = "OpTakeScopeChanged (wk_key w) g"]
        own_stepI [where op = "OpDeleteFailed (wk_key w) g reason"]
        own_stepI [where op = "OpDeleteDone (wk_key w) g"]
        own_stepI [where op = "OpRelease (wk_release w)"]
        own_stepI [where op = "OpBegin (wk_key w)"]
        own_stepI [where op = "OpBeginDelete (wk_key w)"]; simp; fail)+

lemma own_begins:
  "Begin now (wk_key w) r = (b, r') \<Longrightarrow> own_step now w r (w\<lparr>wk_pc := p\<rparr>) r'"
  "Begin now (wk_key w) r = (Some (t, g), r') \<Longrightarrow> own_step now w r (w\<lparr>wk_release := t, wk_pc := p\<rparr>) r'"
  "BeginDelete (wk_key w) r = (b, r') \<Longrightarrow> own_step now w r (w\<lparr>wk_pc := p\<rparr>) r'"
  "BeginDelete (wk_key w) r = (Some (t, g), r') \<Longrightarrow> own_step now w r (w\<lparr>wk_release := t, wk_pc := p\<rparr>) r'"
  by (rule own_stepI [where op = "OpBegin (wk_key w)"] own_stepI [where op = "OpBeginDelete (wk_key w)"];
      simp add: Begin_token BeginDelete_token; fail)+

lemma TakeScopeChanged_pair: "TakeScopeChanged k g r = (b, r') \<Longrightarrow> r' = snd (TakeScopeChanged k g r)"
  by simp

lemma ensure_own: "ensure_step now i pc w r = Some (w', r') \<Longrightarrow> own_step now w r w' r'"
  by (cases pc)
     (auto split: if_splits w_input.splits sum.splits option.splits prod.splits deploy_error.splits
        verdict_kind.splits simp: own_begins)

lemma rollout_own: "rollout_step now i pc w r = Some (w', r') \<Longrightarrow> own_step now w r w' r'"
  by (cases pc)
     (auto split: if_splits w_input.splits sum.splits prod.splits simp: Let_def dest!: TakeScopeChanged_pair)

lemma delete_own: "delete_step now i pc w r = Some (w', r') \<Longrightarrow> own_step now w r w' r'"
  by (cases pc)
     (auto split: if_splits w_input.splits sum.splits option.splits prod.splits deploy_error.splits
        simp: own_begins)

lemma worker_own: "worker_step now i (w, r) = Some (w', r') \<Longrightarrow> own_step now w r w' r'"
  by (auto simp: worker_step_def Let_def split: if_splits option.splits
      dest: ensure_own rollout_own delete_own)

lemma own_benign:
  assumes "own_step now w r w' r'" and "reg_wf r" and "fst (wk_release w) = wk_key w"
  shows "benign {wk_key w} r r'"
proof (cases "r' = r")
  case True
  with assms show ?thesis by (simp add: benign_refl)
next
  case False
  with assms obtain op where op: "r' = reg_apply now op r" "op_ok op" "op \<noteq> OpTakeChange"
    "op_key op = Some (wk_key w)"
    by (auto simp: own_step_def)
  from benign_apply [OF assms(2) op(2,3), of "wk_key w" now] op show ?thesis by simp
qed

section \<open>Allocation numbers are not reused\<close>

text \<open>The entry allocated as \<open>n\<close> has been purged.\<close>

definition dead :: "registry \<Rightarrow> nat \<Rightarrow> bool" where
  "dead r n \<longleftrightarrow> n < reg_nextObj r \<and> (\<forall>k e. get r k = Some e \<longrightarrow> e_obj e \<noteq> n)"

definition objs_from :: "registry \<Rightarrow> registry \<Rightarrow> bool" where
  "objs_from r r' \<longleftrightarrow>
     reg_nextObj r \<le> reg_nextObj r'
     \<and> (\<forall>k e'. get r' k = Some e' \<longrightarrow>
          (\<exists>e. get r k = Some e \<and> e_obj e = e_obj e') \<or> reg_nextObj r \<le> e_obj e')"

lemma objs_from_refl [simp]: "objs_from r r"
  by (auto simp: objs_from_def)

lemma objs_from_trans:
  assumes rs: "objs_from r s" and st: "objs_from s t"
  shows "objs_from r t"
  unfolding objs_from_def
proof (intro conjI allI impI)
  show "reg_nextObj r \<le> reg_nextObj t" using rs st by (simp add: objs_from_def)
  fix k e'
  assume "get t k = Some e'"
  with st consider e where "get s k = Some e" "e_obj e = e_obj e'" | "reg_nextObj s \<le> e_obj e'"
    unfolding objs_from_def by blast
  then show "(\<exists>e. get r k = Some e \<and> e_obj e = e_obj e') \<or> reg_nextObj r \<le> e_obj e'"
  proof cases
    case (1 e)
    then show ?thesis using rs unfolding objs_from_def by fastforce
  next
    case 2
    then show ?thesis using rs by (simp add: objs_from_def)
  qed
qed

lemma objs_from_dead: "objs_from r r' \<Longrightarrow> dead r n \<Longrightarrow> dead r' n"
  unfolding objs_from_def dead_def by (elim conjE) (intro conjI allI impI, linarith, fastforce)

lemma same_flight_obj:
  "same_flight k r r' \<Longrightarrow> get r' k = Some e' \<Longrightarrow> \<exists>e. get r k = Some e \<and> e_obj e = e_obj e'"
  by (cases "get r k") (auto simp: same_flight_def flight_def)

lemma objs_from_flight:
  assumes "\<And>k. same_flight k r r'" and "reg_nextObj r' = reg_nextObj r"
  shows "objs_from r r'"
  using same_flight_obj [OF assms(1)] by (simp add: objs_from_def assms(2))

lemma nextObj_transitions [simp]:
  "reg_nextObj (Enter now k g st reason r) = reg_nextObj r" "reg_nextObj (DeferDrain k g r) = reg_nextObj r"
  "reg_nextObj (DrainCompleted k g r) = reg_nextObj r"
  "reg_nextObj (snd (TakeScopeChanged k g r)) = reg_nextObj r"
  "reg_nextObj (DeleteFailed now k g reason r) = reg_nextObj r"
  "reg_nextObj (Pause now k g reason r) = reg_nextObj r"
  "reg_nextObj (Failing now k g reason dur r) = reg_nextObj r"
  "reg_nextObj (Demote now k g reason r) = reg_nextObj r"
  "reg_nextObj (Ready now k g url token dur r) = reg_nextObj r"
  by (cases "current r k g"; simp add: transition_defs Ready_def)+

lemma objs_from_rest:
  "objs_from r (snd (Begin now k r))" "objs_from r (snd (BeginDelete k r))" "objs_from r (Release t r)"
  "objs_from r (DeleteDone k g r)" "objs_from r (sync_member now m r)" "objs_from r (sync_leave now k r)"
proof -
  show "objs_from r (snd (Begin now k r))"
    by (cases "get r k") (auto simp: objs_from_def Begin_def ensure_entry_def blank_entry_def Let_def)
  show "objs_from r (snd (BeginDelete k r))"
    by (cases "get r k") (auto simp: objs_from_def BeginDelete_def)
  show "objs_from r (Release t r)"
    by (cases "get r (fst t)") (auto simp: objs_from_def Release_def)
  show "objs_from r (DeleteDone k g r)"
    by (cases "current r k g") (auto simp: objs_from_def DeleteDone_def delete_conv')
  show "objs_from r (sync_member now m r)"
    by (cases "get r (m_key m)") (auto simp: objs_from_def sync_member_def blank_entry_def Let_def)
  show "objs_from r (sync_leave now k r)"
    by (cases "get r k") (auto simp: objs_from_def sync_leave_def Let_def)
qed

lemma objs_from_apply: "objs_from r (reg_apply now op r)"
proof (cases op)
  case (OpSync ms)
  then show ?thesis
    using Sync_lift [of objs_from, OF objs_from_refl objs_from_trans objs_from_rest(5,6)] by simp
next
  case OpTakeChange
  then show ?thesis by (auto simp: take_change_def objs_from_def)
qed (auto simp: objs_from_rest intro!: objs_from_flight transitions_flight settings_flight)

lemma held_unique: "held r k n \<Longrightarrow> held r k n' \<Longrightarrow> n = n'"
  by (auto simp: held_def)

lemma held_not_dead: "held r k n \<Longrightarrow> \<not> dead r n"
  by (auto simp: held_def dead_def)

section \<open>What a goroutine may rely on\<close>

text \<open>Program points between \<open>Begin\<close> and the deferred release, with the captured generation.\<close>

fun active :: "wpc \<Rightarrow> bool" where
  "active E_Allow = False" | "active E_State = False" | "active E_Begin = False"
| "active D_Allow = False" | "active D_Begin = False" | "active W_Done = False"
| "active pc = True"

fun pc_gen :: "wpc \<Rightarrow> nat option" where
  "pc_gen (E_Recheck g) = Some g" | "pc_gen (E_Token g) = Some g" | "pc_gen (E_Client g) = Some g"
| "pc_gen (E_WasReady g) = Some g" | "pc_gen (E_Marker g wr) = Some g"
| "pc_gen (E_Enter g wr dp) = Some g" | "pc_gen (E_Discover g wr dp) = Some g"
| "pc_gen (E_Missing g wr dp) = Some g" | "pc_gen (E_Verify g wr dp url) = Some g"
| "pc_gen (R_Take g wr dp) = Some g" | "pc_gen (R_Demote g) = Some g"
| "pc_gen pc = None"

text \<open>Points at which the relay is known to be out of admission.\<close>

fun off :: "wpc \<Rightarrow> bool" where
  "off (E_Marker g wr) = (\<not> wr)" | "off (E_Enter g wr dp) = (\<not> wr)"
| "off (E_Discover g wr dp) = (\<not> wr)" | "off (E_Missing g wr dp) = (\<not> wr)"
| "off (E_Verify g wr dp url) = (\<not> wr)" | "off (R_Take g wr dp) = (\<not> wr)"
| "off (R_Settle g) = True" | "off (R_Settling g t) = True" | "off (R_Drain g) = True"
| "off (R_Drained g) = True" | "off (R_Deploying g b) = True" | "off (R_Deploy g b) = True"
| "off (R_Verify g b url) = True"
| "off (D_Settle g) = True" | "off (D_Settling g t) = True" | "off (D_Drain g) = True"
| "off (D_Credential g) = True" | "off (D_Client g) = True" | "off (D_Delete g) = True"
| "off pc = False"

text \<open>Points behind the settle barrier, and behind the drain as well.\<close>

fun drained :: "wpc \<Rightarrow> bool" where
  "drained (R_Drained g) = True" | "drained (R_Deploying g b) = b" | "drained (R_Deploy g b) = b"
| "drained (R_Verify g b url) = b"
| "drained (D_Credential g) = True" | "drained (D_Client g) = True" | "drained (D_Delete g) = True"
| "drained pc = False"

fun settled :: "wpc \<Rightarrow> bool" where
  "settled (R_Drain g) = True" | "settled (D_Drain g) = True" | "settled pc = drained pc"

text \<open>The rows that are, or are about to be, the serving generation, with their count.\<close>

definition generations :: "sys \<Rightarrow> (nat \<times> relay_key set) set" where
  "generations s =
     insert (s_poolSeq s, sv_key ` set (s_pool s))
       (case s_apply s of A_Built c l \<Rightarrow> {(c, sv_key ` set l)} | _ \<Rightarrow> {})"

text \<open>The flight is held from \<open>Begin\<close> on; only a completed delete may have purged the entry.\<close>

definition flight_inv :: "registry \<Rightarrow> worker \<Rightarrow> bool" where
  "flight_inv r w \<longleftrightarrow>
     fst (wk_release w) = wk_key w
     \<and> (active (wk_pc w) \<longrightarrow> held r (wk_key w) (snd (wk_release w))
                             \<or> wk_pc w = W_Release \<and> dead r (snd (wk_release w)))"

text \<open>A relay served under a captured generation can only be served under that one.\<close>

definition offer_inv :: "(string \<times> string \<times> nat) option \<Rightarrow> wpc \<Rightarrow> bool" where
  "offer_inv ofr pc \<longleftrightarrow>
     (case ofr of
        None \<Rightarrow> True
      | Some (u, t, g') \<Rightarrow> \<not> off pc \<and> (case pc_gen pc of None \<Rightarrow> True | Some g \<Rightarrow> g' = g))"

definition barrier_inv :: "(nat \<times> relay_key set) set \<Rightarrow> nat \<Rightarrow> relay_key \<Rightarrow> wpc \<Rightarrow> bool" where
  "barrier_inv gens seq k pc \<longleftrightarrow>
     (case target pc of None \<Rightarrow> True | Some t \<Rightarrow> t \<le> seq \<and> (\<forall>(c, ks) \<in> gens. k \<in> ks \<longrightarrow> c < t))
     \<and> (settled pc \<longrightarrow> (\<forall>(c, ks) \<in> gens. k \<notin> ks))"

definition quiet_inv :: "(relay_key \<Rightarrow> nat) \<Rightarrow> worker \<Rightarrow> bool" where
  "quiet_inv live w \<longleftrightarrow> (drained (wk_pc w) \<longrightarrow> live (wk_key w) = 0)"

definition admit_inv :: "(relay_key \<times> string \<times> string) list \<Rightarrow> worker \<Rightarrow> bool" where
  "admit_inv vs w \<longleftrightarrow>
     (case wk_pc w of E_Ready g url d \<Rightarrow> (wk_key w, url, wk_relayKey w) \<in> set vs | _ \<Rightarrow> True)"

definition worker_inv :: "sys \<Rightarrow> worker \<Rightarrow> bool" where
  "worker_inv s w \<longleftrightarrow>
     flight_inv (s_reg s) w \<and> offer_inv (offer (s_reg s) (wk_key w)) (wk_pc w)
     \<and> barrier_inv (generations s) (reg_seq (s_reg s)) (wk_key w) (wk_pc w)
     \<and> quiet_inv (s_live s) w \<and> admit_inv (s_verified s) w"

definition applier_inv :: "sys \<Rightarrow> bool" where
  "applier_inv s \<longleftrightarrow>
     s_applied s \<le> s_poolSeq s \<and> s_poolSeq s \<le> reg_seq (s_reg s)
     \<and> (case s_apply s of
          A_Idle \<Rightarrow> s_applied s = s_poolSeq s \<and> (s_applied s < reg_seq (s_reg s) \<longrightarrow> reg_pending (s_reg s))
        | A_Woken \<Rightarrow> True
        | A_Captured c \<Rightarrow> s_poolSeq s \<le> c \<and> c \<le> reg_seq (s_reg s)
            \<and> (c < reg_seq (s_reg s) \<longrightarrow> reg_pending (s_reg s))
        | A_Built c l \<Rightarrow> s_poolSeq s \<le> c \<and> c \<le> reg_seq (s_reg s)
            \<and> (c < reg_seq (s_reg s) \<longrightarrow> reg_pending (s_reg s))
        | A_Swapped c \<Rightarrow> s_poolSeq s = c \<and> (c < reg_seq (s_reg s) \<longrightarrow> reg_pending (s_reg s)))
     \<and> (\<forall>(c, ks) \<in> generations s. c = reg_seq (s_reg s) \<longrightarrow> ks = {k. offer (s_reg s) k \<noteq> None})"

definition rows_verified :: "sys \<Rightarrow> bool" where
  "rows_verified s \<longleftrightarrow>
     (\<forall>k u t g. offer (s_reg s) k = Some (u, t, g) \<longrightarrow> (k, u, t) \<in> set (s_verified s))
     \<and> (\<forall>x \<in> set (s_pool s). (sv_key x, sv_url x, sv_token x) \<in> set (s_verified s))
     \<and> (\<forall>c l. s_apply s = A_Built c l \<longrightarrow>
          (\<forall>x \<in> set l. (sv_key x, sv_url x, sv_token x) \<in> set (s_verified s)))"

definition flights_apart :: "sys \<Rightarrow> bool" where
  "flights_apart s \<longleftrightarrow>
     (\<forall>i j v w. map_of (s_workers s) i = Some v \<longrightarrow> map_of (s_workers s) j = Some w \<longrightarrow> i \<noteq> j \<longrightarrow>
        active (wk_pc v) \<longrightarrow> active (wk_pc w) \<longrightarrow> wk_release v \<noteq> wk_release w)"

definition sys_inv :: "sys \<Rightarrow> bool" where
  "sys_inv s \<longleftrightarrow>
     reg_wf (s_reg s) \<and> applier_inv s \<and> rows_verified s \<and> flights_apart s
     \<and> distinct (map fst (s_workers s))
     \<and> (\<forall>j w. map_of (s_workers s) j = Some w \<longrightarrow> worker_inv s w)"

lemma sys_inv_init: "sys_inv (sys_init cfg)"
proof -
  have "Serving (New cfg) = []" by (simp add: Serving_def New_def)
  moreover have "offer (New cfg) k = None" "reg_seq (New cfg) = 0" for k
    by (simp_all add: New_def offer_def)
  ultimately show ?thesis
    by (simp add: sys_inv_def sys_init_def New_wf applier_inv_def rows_verified_def flights_apart_def
        generations_def)
qed

section \<open>Steps of other threads\<close>

text \<open>What a step must spare of a relay so that the goroutine holding it keeps its facts.\<close>

definition spares :: "relay_key \<Rightarrow> registry \<Rightarrow> registry \<Rightarrow> bool" where
  "spares k r r' \<longleftrightarrow>
     (offer r' k = None \<or> offer r' k = offer r k) \<and> (\<forall>n. held r k n \<longrightarrow> held r' k n)"

lemma benign_spares: "benign K r r' \<Longrightarrow> k \<notin> K \<Longrightarrow> spares k r r'"
  by (simp add: benign_def spares_def)

lemma spares_refl [simp]: "spares k r r"
  by (simp add: spares_def)

lemma flight_inv_other:
  "flight_inv r w \<Longrightarrow> spares (wk_key w) r r' \<Longrightarrow> objs_from r r' \<Longrightarrow> flight_inv r' w"
  using objs_from_dead [of r r'] by (auto simp: flight_inv_def spares_def)

lemma offer_inv_other: "offer_inv (offer r k) pc \<Longrightarrow> spares k r r' \<Longrightarrow> offer_inv (offer r' k) pc"
  unfolding spares_def by (metis offer_inv_def option.case(1))

lemma benign_seq: "benign K r r' \<Longrightarrow> reg_seq r \<le> reg_seq r'"
  by (simp add: benign_def announces_def)

lemma barrier_inv_seq: "barrier_inv gens n k pc \<Longrightarrow> n \<le> m \<Longrightarrow> barrier_inv gens m k pc"
  by (auto simp: barrier_inv_def split: option.splits)

lemma admit_inv_more: "admit_inv vs w \<Longrightarrow> set vs \<subseteq> set vs' \<Longrightarrow> admit_inv vs' w"
  by (auto simp: admit_inv_def split: wpc.splits)

lemma worker_inv_spared:
  assumes "worker_inv s w" and "spares (wk_key w) (s_reg s) (s_reg s')" and "objs_from (s_reg s) (s_reg s')"
    and "reg_seq (s_reg s) \<le> reg_seq (s_reg s')" and "set (s_verified s) \<subseteq> set (s_verified s')"
    and "generations s' = generations s" and "s_live s' = s_live s"
  shows "worker_inv s' w"
  using assms(1) flight_inv_other [OF _ assms(2,3)] offer_inv_other [OF _ assms(2)]
    barrier_inv_seq [OF _ assms(4)] admit_inv_more [OF _ assms(5)]
  by (simp add: worker_inv_def assms(6,7))

text \<open>Outside its flight, and after its entry was purged, a goroutine relies on nothing.\<close>

lemma worker_inv_idle:
  assumes "fst (wk_release w) = wk_key w"
    and "\<not> active (wk_pc w) \<or> wk_pc w = W_Release \<and> dead (s_reg s) (snd (wk_release w))"
  shows "worker_inv s w"
  using assms
  by (cases "wk_pc w")
     (auto simp: worker_inv_def flight_inv_def offer_inv_def barrier_inv_def quiet_inv_def admit_inv_def
        target_def split: option.split)

lemma applier_inv_other:
  assumes "applier_inv s" and "benign K (s_reg s) r'"
  shows "applier_inv (s\<lparr>s_reg := r'\<rparr>)"
proof -
  have gens: "generations (s\<lparr>s_reg := r'\<rparr>) = generations s" by (simp add: generations_def)
  have ann: "announces (s_reg s) r'" using assms(2) by (simp add: benign_def)
  then have seq: "reg_seq (s_reg s) \<le> reg_seq r'"
    and pend: "c < reg_seq r' \<Longrightarrow> (c < reg_seq (s_reg s) \<Longrightarrow> reg_pending (s_reg s)) \<Longrightarrow> c \<le> reg_seq (s_reg s)
        \<Longrightarrow> reg_pending r'" for c
    by (auto simp: announces_def le_less)
  have pinned: "ks = {k. offer r' k \<noteq> None}" if "(c, ks) \<in> generations s" "c = reg_seq r'" for c ks
  proof -
    have "c \<le> reg_seq (s_reg s)"
      using that(1) assms(1) by (auto simp: applier_inv_def generations_def split: apply_pc.splits)
    with seq that(2) have same: "reg_seq (s_reg s) = reg_seq r'" by simp
    with ann have "members r' k = members (s_reg s) k" for k by (simp add: announces_def)
    then have "(offer r' k = None) = (offer (s_reg s) k = None)" for k by (metis members_def option.map_disc_iff)
    moreover have "ks = {k. offer (s_reg s) k \<noteq> None}"
      using assms(1) that same by (auto simp: applier_inv_def)
    ultimately show ?thesis by simp
  qed
  then have pin': "\<forall>(c, ks) \<in> generations s. c = reg_seq r' \<longrightarrow> ks = {k. offer r' k \<noteq> None}"
    by blast
  have "s_applied s \<le> s_poolSeq s \<and> s_poolSeq s \<le> reg_seq r'"
    using assms(1) seq by (simp add: applier_inv_def)
  moreover have "case s_apply s of
        A_Idle \<Rightarrow> s_applied s = s_poolSeq s \<and> (s_applied s < reg_seq r' \<longrightarrow> reg_pending r')
      | A_Woken \<Rightarrow> True
      | A_Captured c \<Rightarrow> s_poolSeq s \<le> c \<and> c \<le> reg_seq r' \<and> (c < reg_seq r' \<longrightarrow> reg_pending r')
      | A_Built c l \<Rightarrow> s_poolSeq s \<le> c \<and> c \<le> reg_seq r' \<and> (c < reg_seq r' \<longrightarrow> reg_pending r')
      | A_Swapped c \<Rightarrow> s_poolSeq s = c \<and> (c < reg_seq r' \<longrightarrow> reg_pending r')"
    using assms(1) seq pend by (cases "s_apply s") (simp_all add: applier_inv_def)
  moreover have fields: "s_reg (s\<lparr>s_reg := r'\<rparr>) = r'" "s_applied (s\<lparr>s_reg := r'\<rparr>) = s_applied s"
    "s_poolSeq (s\<lparr>s_reg := r'\<rparr>) = s_poolSeq s" "s_apply (s\<lparr>s_reg := r'\<rparr>) = s_apply s"
    by simp_all
  ultimately show ?thesis
    unfolding applier_inv_def gens fields using pin' by (intro conjI; simp only:)
qed

end
