(* ===== verification/System_Steps.thy ===== *)
theory System_Steps
  imports System_Invariants
begin

text \<open>
  A goroutine's own step re-establishes what it may rely on at its next program point, and
  with the lemmas on the other threads every event of the system keeps the invariant.
\<close>

section \<open>Own steps\<close>

lemmas pc_splits = if_splits w_input.splits sum.splits option.splits prod.splits deploy_error.splits
  verdict_kind.splits

lemma DeleteDone_flight:
  assumes "reg_wf r" and "held r k n"
  shows "held (DeleteDone k g r) k n \<or> dead (DeleteDone k g r) n"
proof (cases "\<exists>e. current r k g = Some e \<and> rec_state (e_record e) = StateRemoving")
  case False
  then have "DeleteDone k g r = r" by (auto simp: DeleteDone_def split: option.split)
  with assms show ?thesis by simp
next
  case True
  then have "DeleteDone k g r = notify (r\<lparr>reg_entries := AList.delete k (reg_entries r)\<rparr>)"
    by (auto simp: DeleteDone_def)
  moreover obtain e where e: "get r k = Some e" "e_obj e = n" using assms(2) by (auto simp: held_def)
  moreover have "n < reg_nextObj r" using reg_wf_next [OF assms(1) e(1)] e(2) by simp
  moreover have "e_obj e' \<noteq> n" if "get r k' = Some e'" "k' \<noteq> k" for k' e'
    using reg_wf_obj [OF assms(1) that(1) e(1)] that(2) e(2) by auto
  ultimately show ?thesis by (auto simp: dead_def delete_conv' split: if_splits)
qed

lemma calls_held:
  assumes "held r k n"
  shows "held (Enter now k g st reason r) k n" "held (DrainCompleted k g r) k n"
    "held (snd (TakeScopeChanged k g r)) k n" "held (Demote now k g reason r) k n"
    "held (Failing now k g reason dur r) k n" "held (Pause now k g reason r) k n"
    "held (Ready now k g url token dur r) k n" "held (DeferDrain k g r) k n"
    "held (DeleteFailed now k g reason r) k n"
  using assms
  by (simp_all add: same_flight_held [OF transitions_flight(1)] same_flight_held [OF transitions_flight(2)]
    same_flight_held [OF transitions_flight(3)] same_flight_held [OF transitions_flight(4)]
    same_flight_held [OF transitions_flight(5)] same_flight_held [OF transitions_flight(6)]
    same_flight_held [OF transitions_flight(7)] same_flight_held [OF transitions_flight(8)]
    same_flight_held [OF transitions_flight(9)])

lemma Begin_flight: "Begin now k r = (Some (t, g), r') \<Longrightarrow> fst t = k \<and> held r' k (snd t)"
  using Begin_holds [of now k r "fst t" "snd t" g] by simp

lemma BeginDelete_flight: "BeginDelete k r = (Some (t, g), r') \<Longrightarrow> fst t = k \<and> held r' k (snd t)"
  using BeginDelete_holds [of k r "fst t" "snd t" g] by simp

lemma own_flight:
  assumes "worker_step now i (w, r) = Some (w', r')" and "flight_inv r w" and "reg_wf r"
  shows "flight_inv r' w'"
proof -
  have purge: "held r (wk_key w) n \<Longrightarrow> \<not> held (DeleteDone (wk_key w) g r) (wk_key w) n \<Longrightarrow>
      dead (DeleteDone (wk_key w) g r) n" for g n
    using DeleteDone_flight [OF assms(3), of "wk_key w" n g] by blast
  from assms(1,2) show ?thesis
    by (cases "wk_pc w")
       (auto simp: worker_step_def Let_def flight_inv_def calls_held split: pc_splits intro: purge
         dest: Begin_flight BeginDelete_flight TakeScopeChanged_pair)
qed

text \<open>What one call on a relay leaves of its row in the serving map.\<close>

definition narrower :: "(string \<times> string \<times> nat) option \<Rightarrow> (string \<times> string \<times> nat) option \<Rightarrow> bool" where
  "narrower a b \<longleftrightarrow> b = None \<or> b = a"

lemma narrower_refl [simp]: "narrower a a"
  by (simp add: narrower_def)

lemma calls_narrow [simp]:
  "narrower (offer r k') (offer (Enter now k g st reason r) k')"
  "narrower (offer r k') (offer (DrainCompleted k g r) k')"
  "narrower (offer r k') (offer (snd (TakeScopeChanged k g r)) k')"
  "narrower (offer r k') (offer (Demote now k g reason r) k')"
  "narrower (offer r k') (offer (snd (Begin now k r)) k')"
  "narrower (offer r k') (offer (snd (BeginDelete k r)) k')"
  using single_laws(1,5,7,15) [of r] flight_laws(1,3) [of r]
  by (simp_all add: narrows_def narrower_def)

lemma offer_inv_narrow: "offer_inv a pc \<Longrightarrow> narrower a b \<Longrightarrow> offer_inv b pc"
  by (auto simp: offer_inv_def narrower_def)

lemma offer_inv_None [simp]: "offer_inv None pc"
  by (simp add: offer_inv_def)

lemma Begin_offer:
  "Begin now k r = (Some (t, g), r') \<Longrightarrow> offer_inv (offer r' k) (E_Recheck g)"
  by (auto simp: Begin_def offer_inv_def entry_offer_def split: prod.splits if_splits)

lemma BeginDelete_offer:
  "BeginDelete k r = (Some (t, g), r') \<Longrightarrow> reg_wf r \<Longrightarrow> offer r' k = None"
  by (auto simp: BeginDelete_def entry_offer_def entry_ok_def dest: reg_wf_entry split: option.splits if_splits)

lemma Demote_offer:
  assumes "offer_inv (offer r k) (R_Demote g)"
  shows "offer (Demote now k g reason r) k = None"
proof (cases "current r k g")
  case None
  then have "offer r k = None"
    using assms
    by (auto simp: offer_inv_def offer_def entry_offer_def current_def split: option.splits if_splits)
  with None show ?thesis by (simp add: Demote_def)
next
  case (Some e)
  then show ?thesis
    by (simp add: Demote_def Let_def label_failed_def revoke_def entry_offer_def)
qed

lemma offer_inv_simps:
  "offer_inv a (E_Marker g (a \<noteq> None)) = offer_inv a (E_WasReady g)"
  "offer_inv a (E_Enter g wr dp) = offer_inv a (E_Marker g wr)"
  "offer_inv a (E_Discover g wr dp) = offer_inv a (E_Marker g wr)"
  "offer_inv a (E_Missing g wr dp) = offer_inv a (E_Marker g wr)"
  "offer_inv a (E_Verify g wr dp url) = offer_inv a (E_Marker g wr)"
  "offer_inv a (R_Take g wr dp) = offer_inv a (E_Marker g wr)"
  "offer_inv a (R_Demote g) = offer_inv a (E_Marker g True)"
  "offer_inv a (E_Token g) = offer_inv a (E_Marker g True)"
  "offer_inv a (E_Client g) = offer_inv a (E_Marker g True)"
  "offer_inv a (E_WasReady g) = offer_inv a (E_Marker g True)"
  "offer_inv a (E_Recheck g) = offer_inv a (E_Marker g True)"
  "off pc \<Longrightarrow> pc_gen pc = None \<Longrightarrow> offer_inv a pc = (a = None)"
  "\<not> off pc \<Longrightarrow> pc_gen pc = None \<Longrightarrow> offer_inv a pc"
  "offer_inv a (E_Marker g False) = (a = None)"
  by (cases a; simp add: offer_inv_def split: option.split)+

lemma offer_inv_marker [simp]:
  "offer_inv (offer r k) (E_Marker g (IsReady r k)) = offer_inv (offer r k) (E_Marker g True)"
  by (cases "offer r k") (simp_all add: IsReady_offer offer_inv_def)

lemma offer_inv_calls:
  assumes "offer_inv (offer r k) pc"
  shows "offer_inv (offer (Enter now k g st reason r) k) pc"
    "offer_inv (offer (snd (TakeScopeChanged k g r)) k) pc"
    "offer_inv (offer (DrainCompleted k g r) k) pc"
  by (rule offer_inv_narrow [OF assms]; simp)+

lemma offer_None_calls:
  assumes "offer r k = None"
  shows "offer (Enter now k g st reason r) k = None" "offer (snd (TakeScopeChanged k g r)) k = None"
    "offer (DrainCompleted k g r) k = None"
  using calls_narrow(1) [of r k now k g st reason] calls_narrow(2,3) [of r k k g] assms
  by (simp_all add: narrower_def)

lemma own_offer:
  assumes "worker_step now i (w, r) = Some (w', r')" and "offer_inv (offer r (wk_key w)) (wk_pc w)"
    and "reg_wf r"
  shows "offer_inv (offer r' (wk_key w)) (wk_pc w')"
proof (cases "\<exists>g wr dp. wk_pc w = R_Take g wr dp")
  case True
  then obtain g wr dp where "wk_pc w = R_Take g wr dp" by blast
  with assms show ?thesis
    by (cases "TakeScopeChanged (wk_key w) g r"; cases wr)
       (auto simp: worker_step_def offer_inv_simps offer_inv_calls offer_None_calls split: if_splits
         dest!: TakeScopeChanged_pair)
next
  case False
  with assms show ?thesis
    by (cases "wk_pc w")
       (auto simp: worker_step_def Let_def offer_inv_simps Demote_offer offer_inv_calls offer_None_calls
         split: pc_splits dest: Begin_offer BeginDelete_offer)
qed

lemma generations_bounds:
  assumes "applier_inv s" and "(c, ks) \<in> generations s"
  shows "s_applied s \<le> c" and "c \<le> reg_seq (s_reg s)"
    and "c = reg_seq (s_reg s) \<Longrightarrow> k \<in> ks \<Longrightarrow> offer (s_reg s) k \<noteq> None"
proof -
  show "s_applied s \<le> c" "c \<le> reg_seq (s_reg s)"
    using assms by (auto simp: applier_inv_def generations_def split: apply_pc.splits)
  show "c = reg_seq (s_reg s) \<Longrightarrow> k \<in> ks \<Longrightarrow> offer (s_reg s) k \<noteq> None"
    using assms unfolding applier_inv_def by blast
qed

lemma barrier_weaken:
  "barrier_inv gens n k pc \<Longrightarrow> target pc' = None \<Longrightarrow> (settled pc' \<longrightarrow> settled pc) \<Longrightarrow> barrier_inv gens m k pc'"
  by (auto simp: barrier_inv_def)

text \<open>The count \<open>settle\<close> reads is above that of every generation that still lists the relay.\<close>

lemma barrier_arm:
  assumes "applier_inv s" and "offer (s_reg s) k = None" and "\<not> settled pc"
    and "target pc = Some (NotifySeq (s_reg s))" and "reg_seq (s_reg s) \<le> m"
  shows "barrier_inv (generations s) m k pc"
proof -
  have "c < reg_seq (s_reg s)" if "(c, ks) \<in> generations s" "k \<in> ks" for c ks
    using generations_bounds(2,3) [OF assms(1) that(1)] that(2) assms(2) by (metis le_neq_implies_less)
  with assms(3-5) show ?thesis by (auto simp: barrier_inv_def NotifySeq_def)
qed

text \<open>Once the applier published that count, no generation lists the relay.\<close>

lemma barrier_pass:
  assumes "applier_inv s" and "barrier_inv (generations s) n k pc" and "target pc = Some t"
    and "t \<le> s_applied s" and "target pc' = None"
  shows "barrier_inv (generations s) m k pc'"
proof -
  have "k \<notin> ks" if g: "(c, ks) \<in> generations s" for c ks
  proof
    assume "k \<in> ks"
    with assms(2,3) g have "c < t" by (auto simp: barrier_inv_def)
    with generations_bounds(1) [OF assms(1) g] assms(4) show False by linarith
  qed
  then show ?thesis by (auto simp: barrier_inv_def assms(5))
qed

lemma own_barrier:
  assumes step: "worker_step now i (w, s_reg s) = Some (w', r')" and inv: "worker_inv s w"
    and ap: "applier_inv s" and possible: "input_possible s w i" and seq: "reg_seq (s_reg s) \<le> reg_seq r'"
  shows "barrier_inv (generations s) (reg_seq r') (wk_key w) (wk_pc w')"
proof -
  have bar: "barrier_inv (generations s) (reg_seq (s_reg s)) (wk_key w) (wk_pc w)"
    and ofr: "offer_inv (offer (s_reg s) (wk_key w)) (wk_pc w)"
    using inv by (auto simp: worker_inv_def)
  note weaken = barrier_weaken [OF bar, of "wk_pc w'" "reg_seq r'"]
  show ?thesis
  proof (cases "wk_pc w")
    case (R_Settle g)
    with step ofr show ?thesis
      by (auto simp: worker_step_def offer_inv_simps target_def split: if_splits
          intro!: barrier_arm [OF ap])
  next
    case (D_Settle g)
    with step ofr show ?thesis
      by (auto simp: worker_step_def offer_inv_simps target_def split: if_splits
          intro!: barrier_arm [OF ap])
  next
    case (R_Settling g t)
    with step possible barrier_pass [OF ap bar, of t "wk_pc w'" "reg_seq r'"] weaken show ?thesis
      by (auto simp: worker_step_def target_def input_possible_def split: w_input.splits if_splits)
  next
    case (D_Settling g t)
    with step possible barrier_pass [OF ap bar, of t "wk_pc w'" "reg_seq r'"] weaken show ?thesis
      by (auto simp: worker_step_def target_def input_possible_def split: w_input.splits if_splits)
  qed (use step weaken in \<open>auto simp: worker_step_def Let_def target_def split: pc_splits\<close>)
qed

lemma own_quiet:
  assumes "worker_step now i (w, s_reg s) = Some (w', r')" and "quiet_inv (s_live s) w"
    and "input_possible s w i"
  shows "quiet_inv (s_live s) w'"
  using assms
  by (cases "wk_pc w")
     (auto simp: worker_step_def Let_def quiet_inv_def input_possible_def split: pc_splits)

lemma own_admit:
  assumes "worker_step now i (w, r) = Some (w', r')" and "admit_inv vs w"
  shows "admit_inv (note_verified w i @ vs) w'"
  using assms
  by (cases "wk_pc w")
     (auto simp: worker_step_def Let_def admit_inv_def note_verified_def split: pc_splits)

lemma own_keys: "worker_step now i (w, r) = Some (w', r') \<Longrightarrow> wk_key w' = wk_key w \<and> wk_relayKey w' = wk_relayKey w"
  by (drule worker_own) (simp add: own_step_def)

lemma worker_inv_own:
  assumes step: "worker_step now i (w, s_reg s) = Some (w', r')" and inv: "worker_inv s w"
    and ap: "applier_inv s" and wf: "reg_wf (s_reg s)" and possible: "input_possible s w i"
    and s': "s_reg s' = r'" "generations s' = generations s" "s_live s' = s_live s"
      "s_verified s' = note_verified w i @ s_verified s"
  shows "worker_inv s' w'"
proof -
  have fl: "flight_inv (s_reg s) w" and qu: "quiet_inv (s_live s) w" and ad: "admit_inv (s_verified s) w"
    and ofr: "offer_inv (offer (s_reg s) (wk_key w)) (wk_pc w)"
    using inv by (auto simp: worker_inv_def)
  have "fst (wk_release w) = wk_key w" using fl by (simp add: flight_inv_def)
  from benign_seq [OF own_benign [OF worker_own [OF step] wf this]]
  have seq: "reg_seq (s_reg s) \<le> reg_seq r'" .
  show ?thesis
    using own_flight [OF step fl wf] own_offer [OF step ofr wf] own_barrier [OF step inv ap possible seq]
      own_quiet [OF step qu possible] own_admit [OF step ad] own_keys [OF step]
    by (simp add: worker_inv_def s')
qed

end
