(* ===== verification/System_Safety.thy ===== *)
theory System_Safety
  imports System_Steps
begin

text \<open>
  Every event keeps the system invariant, hence it holds in every reachable state; and the
  properties of the control plane that follow: the remote of a relay is touched only while
  the relay is quiet, traffic goes only to verified endpoints, the settle barrier cannot
  hang. The one way a deploy can run beside requests is in \<^theory_text>\<open>System_Properties\<close>.
\<close>

section \<open>Goroutines beside each other\<close>

lemma settled_if_drained: "drained pc \<Longrightarrow> settled pc"
  by (cases pc) auto

lemma off_at_barrier: "target pc = Some t \<Longrightarrow> off pc" "settled pc \<Longrightarrow> off pc"
  by (cases pc; simp add: target_def)+

lemma Begin_blocked: "held r k n \<Longrightarrow> Begin now k r = (None, r)"
  by (auto simp: held_def Begin_def ensure_entry_def)

lemma BeginDelete_blocked: "held r k n \<Longrightarrow> BeginDelete k r = (None, r)"
  by (auto simp: held_def BeginDelete_def)

lemma dead_get: "get r k = Some e \<Longrightarrow> \<not> dead r (e_obj e)"
  unfolding dead_def by blast

lemma dead_next: "\<not> dead r (reg_nextObj r)"
  by (simp add: dead_def)

lemma Begin_fresh:
  "Begin now k r = (Some (t, g), r') \<Longrightarrow> \<not> held r k (snd t) \<and> \<not> dead r (snd t)"
  by (auto simp: Begin_def ensure_entry_def held_def dead_get dead_next blank_entry_def Let_def
      split: option.splits if_splits)

lemma BeginDelete_fresh:
  "BeginDelete k r = (Some (t, g), r') \<Longrightarrow> \<not> held r k (snd t) \<and> \<not> dead r (snd t)"
  by (auto simp: BeginDelete_def held_def dead_get split: option.splits if_splits)

lemma Release_dead: "dead r (snd t) \<Longrightarrow> Release t r = r"
  by (auto simp: Release_def dead_def split: option.split)

lemma own_idle_step:
  assumes "worker_step now i (w, r) = Some (w', r')"
    and "\<not> active (wk_pc w) \<or> wk_pc w = W_Release \<and> dead r (snd (wk_release w))"
    and "held r (wk_key w) n"
  shows "r' = r"
  using assms
  by (cases "wk_pc w")
     (auto simp: worker_step_def Let_def Release_dead Begin_blocked BeginDelete_blocked
       split: pc_splits)

lemma own_release:
  assumes "worker_step now i (w, r) = Some (w', r')" and "active (wk_pc w')"
  shows "if active (wk_pc w) then wk_release w' = wk_release w
         else \<not> held r (wk_key w) (snd (wk_release w')) \<and> \<not> dead r (snd (wk_release w'))"
  using assms
  by (cases "wk_pc w")
     (auto simp: worker_step_def Let_def split: pc_splits dest: Begin_fresh BeginDelete_fresh)

lemma own_objs: "own_step now w r w' r' \<Longrightarrow> objs_from r r'"
  by (auto simp: own_step_def objs_from_apply)

lemma held_or_idle:
  "flight_inv r w \<Longrightarrow>
     held r (wk_key w) (snd (wk_release w))
     \<or> (\<not> active (wk_pc w) \<or> wk_pc w = W_Release \<and> dead r (snd (wk_release w)))"
  by (auto simp: flight_inv_def)

lemma worker_inv_beside:
  assumes step: "worker_step now i (w, s_reg s) = Some (w', r')"
    and w: "worker_inv s w" and u: "worker_inv s u" and wf: "reg_wf (s_reg s)"
    and apart: "active (wk_pc w) \<Longrightarrow> active (wk_pc u) \<Longrightarrow> wk_release w \<noteq> wk_release u"
    and s': "s_reg s' = r'" "set (s_verified s) \<subseteq> set (s_verified s')" "generations s' = generations s"
      "s_live s' = s_live s"
  shows "worker_inv s' u"
proof -
  have fw: "flight_inv (s_reg s) w" and fu: "flight_inv (s_reg s) u"
    using w u by (simp_all add: worker_inv_def)
  note own = worker_own [OF step]
  have kw: "fst (wk_release w) = wk_key w" and ku: "fst (wk_release u) = wk_key u"
    using fw fu by (simp_all add: flight_inv_def)
  show ?thesis
  proof (cases "held (s_reg s) (wk_key u) (snd (wk_release u)) \<and> active (wk_pc u)")
    case False
    with held_or_idle [OF fu] fu have
      "\<not> active (wk_pc u) \<or> wk_pc u = W_Release \<and> dead (s_reg s) (snd (wk_release u))"
      by (auto simp: flight_inv_def)
    with objs_from_dead [OF own_objs [OF own]] s'(1) show ?thesis
      by (intro worker_inv_idle [OF ku]) auto
  next
    case True
    have "spares (wk_key u) (s_reg s) r'"
    proof (cases "wk_key u = wk_key w")
      case False
      with benign_spares [OF own_benign [OF own wf kw]] show ?thesis by simp
    next
      case same: True
      have "\<not> (held (s_reg s) (wk_key w) (snd (wk_release w)) \<and> active (wk_pc w))"
      proof
        assume h: "held (s_reg s) (wk_key w) (snd (wk_release w)) \<and> active (wk_pc w)"
        with True same have "snd (wk_release w) = snd (wk_release u)"
          by (metis held_unique)
        with kw ku same have "wk_release w = wk_release u" by (simp add: prod_eq_iff)
        with apart h True show False by blast
      qed
      with fw have "\<not> active (wk_pc w) \<or> wk_pc w = W_Release \<and> dead (s_reg s) (snd (wk_release w))"
        by (auto simp: flight_inv_def)
      from own_idle_step [OF step this, of "snd (wk_release u)"] True same have "r' = s_reg s" by metis
      then show ?thesis by simp
    qed
    moreover have "reg_seq (s_reg s) \<le> reg_seq r'"
      by (rule benign_seq [OF own_benign [OF own wf kw]])
    ultimately show ?thesis
      using own_objs [OF own] s' u by (intro worker_inv_spared [of s u s']) simp_all
  qed
qed

section \<open>Rows come from verifications\<close>

lemma calls_narrow_rest:
  "narrower (offer r k') (offer (Failing now k g reason dur r) k')"
  "narrower (offer r k') (offer (Pause now k g reason r) k')"
  "narrower (offer r k') (offer (DeferDrain k g r) k')"
  "narrower (offer r k') (offer (DeleteFailed now k g reason r) k')"
  "narrower (offer r k') (offer (DeleteDone k g r) k')"
  "narrower (offer r k') (offer (Release t r) k')"
  using single_laws(3,9,11,13) [of r] flight_laws(5) [of r] DeleteDone_laws(1) [of r]
  by (simp_all add: narrows_def narrower_def)

lemma own_narrow:
  assumes "worker_step now i (w, r) = Some (w', r')" and "\<And>g u d. wk_pc w \<noteq> E_Ready g u d"
  shows "narrower (offer r k) (offer r' k)"
proof -
  have pair: "narrower (offer r k) (offer r2 k)" if "TakeScopeChanged k' g r = (b, r2)" for k' g b r2
    using calls_narrow(3) [of r k k' g] that by simp
  have pair': "narrower (offer r k) (offer r2 k)" if "Begin now k' r = (b, r2)" for k' b r2
    using calls_narrow(5) [of r k now k'] that by simp
  have pair'': "narrower (offer r k) (offer r2 k)" if "BeginDelete k' r = (b, r2)" for k' b r2
    using calls_narrow(6) [of r k k'] that by simp
  from assms show ?thesis
    by (cases "wk_pc w")
       (auto simp: worker_step_def Let_def calls_narrow_rest split: pc_splits intro: pair pair' pair'')
qed

lemma own_rows:
  assumes "worker_step now i (w, r) = Some (w', r')" and "admit_inv vs w" and "offer r' k = Some (u, t, g)"
  shows "offer r k = Some (u, t, g) \<or> (k, u, t) \<in> set vs"
proof (cases "\<exists>g u d. wk_pc w = E_Ready g u d")
  case True
  with assms show ?thesis
    by (auto simp: worker_step_def admit_inv_def Ready_offer split: if_splits)
next
  case False
  with own_narrow [OF assms(1), of k] assms(3) show ?thesis by (auto simp: narrower_def)
qed

lemma rows_verified_mono:
  assumes "rows_verified s"
    and "\<And>k u t g. offer (s_reg s') k = Some (u, t, g) \<Longrightarrow>
           offer (s_reg s) k = Some (u, t, g) \<or> (k, u, t) \<in> set (s_verified s)"
    and "s_pool s' = s_pool s" and "s_apply s' = s_apply s" and "set (s_verified s) \<subseteq> set (s_verified s')"
  shows "rows_verified s'"
proof -
  have "(k, u, t) \<in> set (s_verified s')" if "offer (s_reg s') k = Some (u, t, g)" for k u t g
    using assms(2) [OF that] assms(1,5) unfolding rows_verified_def by blast
  with assms(1,3-5) show ?thesis unfolding rows_verified_def by (simp only:) blast
qed

section \<open>Every event keeps the invariant\<close>

lemma applier_inv_cong:
  assumes "s_reg s' = s_reg s" "s_apply s' = s_apply s" "s_poolSeq s' = s_poolSeq s"
    "s_applied s' = s_applied s" "s_pool s' = s_pool s"
  shows "applier_inv s' = applier_inv s"
  unfolding applier_inv_def generations_def assms ..

lemma rows_verified_cong:
  assumes "s_reg s' = s_reg s" "s_apply s' = s_apply s" "s_pool s' = s_pool s"
    "s_verified s' = s_verified s"
  shows "rows_verified s' = rows_verified s"
  unfolding rows_verified_def assms ..

lemma sys_invD:
  "sys_inv s \<Longrightarrow> reg_wf (s_reg s) \<and> applier_inv s \<and> rows_verified s \<and> flights_apart s"
  by (simp add: sys_inv_def)

lemma generations_reg [simp]: "generations (s\<lparr>s_reg := r\<rparr>) = generations s"
  by (simp add: generations_def)

lemma sys_invI:
  "reg_wf (s_reg s) \<Longrightarrow> applier_inv s \<Longrightarrow> rows_verified s \<Longrightarrow> flights_apart s \<Longrightarrow>
   distinct (map fst (s_workers s)) \<Longrightarrow> (\<And>j w. map_of (s_workers s) j = Some w \<Longrightarrow> worker_inv s w) \<Longrightarrow>
   sys_inv s"
  by (simp add: sys_inv_def)

lemma inv_registry:
  assumes inv: "sys_inv s" and b: "benign {} (s_reg s) r'" and o: "objs_from (s_reg s) r'"
  shows "sys_inv (s\<lparr>s_reg := r'\<rparr>)"
proof (rule sys_invI)
  let ?s = "s\<lparr>s_reg := r'\<rparr>"
  show "reg_wf (s_reg ?s)" using b by (simp add: benign_def)
  show "applier_inv ?s" by (rule applier_inv_other [OF _ b]) (simp add: sys_invD [OF inv])
  have row: "offer (s_reg s) k = Some x" if x: "offer r' k = Some x" for k x
  proof -
    have "offer r' k = None \<or> offer r' k = offer (s_reg s) k" using b by (simp add: benign_def)
    with x show ?thesis by (elim disjE) (simp_all only: option.distinct)
  qed
  show "rows_verified ?s"
  proof (rule rows_verified_mono)
    show "rows_verified s" by (simp add: sys_invD [OF inv])
    show "offer (s_reg s) k = Some (u, t, g) \<or> (k, u, t) \<in> set (s_verified s)"
      if "offer (s_reg ?s) k = Some (u, t, g)" for k u t g
    proof (rule disjI1 [OF row])
      show "offer r' k = Some (u, t, g)" using that by simp
    qed
  qed simp_all
  show "flights_apart ?s" "distinct (map fst (s_workers ?s))"
    using inv by (simp_all add: sys_inv_def flights_apart_def)
  show "worker_inv ?s w" if w: "map_of (s_workers ?s) j = Some w" for j w
  proof -
    have "worker_inv s w" using w inv by (simp add: sys_inv_def)
    moreover have "spares (wk_key w) (s_reg s) (s_reg ?s)"
      by (simp add: benign_spares [OF b])
    ultimately show ?thesis
      by (rule worker_inv_spared) (use o benign_seq [OF b] in \<open>simp_all add: generations_def\<close>)
  qed
qed

text \<open>Events that leave the registry and the goroutines alone.\<close>

lemma inv_frame:
  assumes inv: "sys_inv s" and "applier_inv s'" and "rows_verified s'"
    and "s_reg s' = s_reg s" and "s_workers s' = s_workers s" and "s_verified s' = s_verified s"
    and "\<And>k pc. offer (s_reg s) k = None \<or> \<not> off pc \<Longrightarrow> barrier_inv (generations s) (reg_seq (s_reg s)) k pc \<Longrightarrow>
           barrier_inv (generations s') (reg_seq (s_reg s)) k pc"
    and "\<And>w. barrier_inv (generations s) (reg_seq (s_reg s)) (wk_key w) (wk_pc w) \<Longrightarrow>
           quiet_inv (s_live s) w \<Longrightarrow> quiet_inv (s_live s') w"
  shows "sys_inv s'"
proof -
  have "worker_inv s' w" if w: "worker_inv s w" for w
  proof -
    have "offer (s_reg s) (wk_key w) = None \<or> \<not> off (wk_pc w)"
      using w by (auto simp: worker_inv_def offer_inv_def split: option.splits)
    with w assms(7) [of "wk_key w" "wk_pc w"] assms(8) [of w] show ?thesis
      by (simp add: worker_inv_def assms(4,6))
  qed
  with inv assms(2,3) show ?thesis by (simp add: sys_inv_def flights_apart_def assms(4,5))
qed

lemma take_change_frame2:
  "take_change r = Some r' \<Longrightarrow> reg_wf r' = reg_wf r \<and> offer r' = offer r \<and> reg_seq r' = reg_seq r
     \<and> get r' = get r \<and> reg_nextObj r' = reg_nextObj r"
  by (auto simp: take_change_def reg_wf_def split: if_splits)

lemma inv_change:
  assumes inv: "sys_inv s" and idle: "s_apply s = A_Idle" and t: "take_change (s_reg s) = Some r'"
  shows "sys_inv (s\<lparr>s_reg := r', s_apply := A_Woken\<rparr>)"
proof -
  let ?s = "s\<lparr>s_reg := r', s_apply := A_Woken\<rparr>"
  note fr = take_change_frame2 [OF t]
  have gens: "generations ?s = generations s" by (simp add: generations_def idle)
  have held: "held r' k n = held (s_reg s) k n" and dead: "dead r' n = dead (s_reg s) n" for k n
    using fr by (simp_all add: held_def dead_def)
  have "worker_inv ?s w" if "worker_inv s w" for w
    using that fr by (simp add: worker_inv_def gens flight_inv_def held dead)
  moreover have "applier_inv ?s"
    using inv fr idle unfolding sys_inv_def applier_inv_def gens by simp
  moreover have "rows_verified ?s"
    using inv fr idle unfolding sys_inv_def rows_verified_def by simp
  ultimately show ?thesis
    using inv fr by (simp add: sys_inv_def flights_apart_def)
qed

lemma barrier_more:
  "barrier_inv gens n k pc \<Longrightarrow> (\<not> off pc \<or> k \<notin> ks) \<Longrightarrow> barrier_inv (insert (c, ks) gens) n k pc"
  using off_at_barrier [of pc] by (auto simp: barrier_inv_def split: option.splits)

lemma barrier_fewer: "barrier_inv gens n k pc \<Longrightarrow> gens' \<subseteq> gens \<Longrightarrow> barrier_inv gens' n k pc"
  by (auto simp: barrier_inv_def split: option.splits)

lemma inv_build:
  assumes inv: "sys_inv s" and c: "s_apply s = A_Captured c"
  shows "sys_inv (s\<lparr>s_apply := A_Built c (Serving (s_reg s))\<rparr>)"
proof (rule inv_frame [OF inv])
  let ?l = "Serving (s_reg s)"
  let ?s = "s\<lparr>s_apply := A_Built c ?l\<rparr>"
  have wf: "reg_wf (s_reg s)" and ap: "applier_inv s" and rows: "rows_verified s"
    using inv by (auto simp: sys_inv_def)
  have row: "offer (s_reg s) (sv_key x) = Some (sv_url x, sv_token x, sv_version x)" if "x \<in> set ?l" for x
    using Serving_offer(1) [OF wf that] .
  have exact: "sv_key ` set ?l = {k. offer (s_reg s) k \<noteq> None}"
    using Serving_offer(2) [OF wf] by (auto simp: IsReady_offer)
  have gens: "generations ?s = insert (c, sv_key ` set ?l) (generations s)"
    by (auto simp: generations_def c)
  show "applier_inv ?s"
    using ap exact unfolding applier_inv_def gens by (auto simp: c)
  show "rows_verified ?s"
    using rows row unfolding rows_verified_def by auto
  show "barrier_inv (generations ?s) (reg_seq (s_reg s)) k pc"
    if "offer (s_reg s) k = None \<or> \<not> off pc" "barrier_inv (generations s) (reg_seq (s_reg s)) k pc" for k pc
    unfolding gens using that row by (intro barrier_more) auto
qed simp_all

lemma inv_swap:
  assumes inv: "sys_inv s" and c: "s_apply s = A_Built c l"
  shows "sys_inv (s\<lparr>s_pool := l, s_poolSeq := c, s_apply := A_Swapped c\<rparr>)"
proof (rule inv_frame [OF inv])
  let ?s = "s\<lparr>s_pool := l, s_poolSeq := c, s_apply := A_Swapped c\<rparr>"
  have ap: "applier_inv s" and rows: "rows_verified s" using inv by (auto simp: sys_inv_def)
  have gens: "generations ?s \<subseteq> generations s" by (auto simp: generations_def c)
  have "\<forall>(c, ks) \<in> generations ?s. c = reg_seq (s_reg s) \<longrightarrow> ks = {k. offer (s_reg s) k \<noteq> None}"
    using ap gens unfolding applier_inv_def by blast
  then show "applier_inv ?s"
    using ap unfolding applier_inv_def by (simp add: c)
  show "rows_verified ?s"
    using rows unfolding rows_verified_def by (auto simp: c)
  show "barrier_inv (generations ?s) (reg_seq (s_reg s)) k pc"
    if "barrier_inv (generations s) (reg_seq (s_reg s)) k pc" for k pc
    using barrier_fewer [OF that gens] .
qed simp_all

lemma inv_apply_pc:
  assumes inv: "sys_inv s"
    and "s_apply s = A_Idle \<and> a = A_Woken \<and> n = s_applied s
       \<or> s_apply s = A_Woken \<and> a = A_Captured (NotifySeq (s_reg s)) \<and> n = s_applied s
       \<or> s_apply s = A_Swapped c \<and> a = A_Idle \<and> n = (if c > s_applied s then c else s_applied s)"
  shows "sys_inv (s\<lparr>s_applied := n, s_apply := a\<rparr>)"
proof (rule inv_frame [OF inv])
  let ?s = "s\<lparr>s_applied := n, s_apply := a\<rparr>"
  have ap: "applier_inv s" and rows: "rows_verified s" using inv by (auto simp: sys_inv_def)
  have gens: "generations ?s = generations s" using assms(2) by (auto simp: generations_def)
  show "applier_inv ?s"
    using ap assms(2) unfolding applier_inv_def gens by (auto simp: NotifySeq_def)
  show "rows_verified ?s"
    using rows assms(2) unfolding rows_verified_def by auto
  show "barrier_inv (generations ?s) (reg_seq (s_reg s)) k pc"
    if "barrier_inv (generations s) (reg_seq (s_reg s)) k pc" for k pc
    using that by (simp add: gens)
qed simp_all

lemma inv_live:
  assumes inv: "sys_inv s" and "\<And>k. live k \<le> s_live s k \<or> k \<in> sv_key ` set (s_pool s)"
  shows "sys_inv (s\<lparr>s_live := live\<rparr>)"
proof (rule inv_frame [OF inv])
  let ?s = "s\<lparr>s_live := live\<rparr>"
  have ap: "applier_inv s" and rows: "rows_verified s" using inv by (auto simp: sys_inv_def)
  have gens: "generations ?s = generations s" by (simp add: generations_def)
  show "applier_inv ?s" using ap by (subst applier_inv_cong [of _ s]) simp_all
  show "rows_verified ?s" using rows by (subst rows_verified_cong [of _ s]) simp_all
  show "barrier_inv (generations ?s) (reg_seq (s_reg s)) k pc"
    if "barrier_inv (generations s) (reg_seq (s_reg s)) k pc" for k pc
    using that by (simp add: gens)
  show "quiet_inv (s_live ?s) w"
    if bar: "barrier_inv (generations s) (reg_seq (s_reg s)) (wk_key w) (wk_pc w)" and q: "quiet_inv (s_live s) w" for w
  proof (cases "drained (wk_pc w)")
    case False
    then show ?thesis by (simp add: quiet_inv_def)
  next
    case True
    with settled_if_drained [OF True] bar have "wk_key w \<notin> sv_key ` set (s_pool s)"
      by (auto simp: barrier_inv_def generations_def)
    with assms(2) [of "wk_key w"] q True show ?thesis by (auto simp: quiet_inv_def)
  qed
qed simp_all

lemma inv_spawn:
  assumes inv: "sys_inv s" and w: "fresh_worker w" and j: "map_of (s_workers s) j = None"
  shows "sys_inv (s\<lparr>s_workers := AList.update j w (s_workers s)\<rparr>)"
proof -
  let ?s = "s\<lparr>s_workers := AList.update j w (s_workers s)\<rparr>"
  have idle: "\<not> active (wk_pc w)" using w by (auto simp: fresh_worker_def)
  have gens: "generations ?s = generations s" by (simp add: generations_def)
  have "worker_inv ?s w" using w idle by (intro worker_inv_idle) (simp_all add: fresh_worker_def)
  moreover have "worker_inv ?s u" if "worker_inv s u" for u
    using that by (simp add: worker_inv_def gens)
  moreover have "applier_inv ?s" using sys_invD [OF inv] by (subst applier_inv_cong [of _ s]) simp_all
  moreover have "rows_verified ?s" using sys_invD [OF inv] by (subst rows_verified_cong [of _ s]) simp_all
  moreover have "flights_apart ?s"
    using inv idle by (auto simp: sys_inv_def flights_apart_def update_conv')
  ultimately show ?thesis
    using inv by (auto simp: sys_inv_def update_conv' distinct_update split: if_splits)
qed

lemma inv_reap:
  assumes inv: "sys_inv s"
  shows "sys_inv (s\<lparr>s_workers := AList.delete j (s_workers s)\<rparr>)"
proof -
  let ?s = "s\<lparr>s_workers := AList.delete j (s_workers s)\<rparr>"
  have gens: "generations ?s = generations s" by (simp add: generations_def)
  have "worker_inv ?s u" if "worker_inv s u" for u
    using that by (simp add: worker_inv_def gens)
  moreover have "applier_inv ?s" using sys_invD [OF inv] by (subst applier_inv_cong [of _ s]) simp_all
  moreover have "rows_verified ?s" using sys_invD [OF inv] by (subst rows_verified_cong [of _ s]) simp_all
  moreover have "flights_apart ?s"
    using inv by (auto simp: sys_inv_def flights_apart_def delete_conv' split: if_splits)
  ultimately show ?thesis
    using inv by (auto simp: sys_inv_def delete_conv' distinct_delete split: if_splits)
qed

lemma inv_step:
  assumes inv: "sys_inv s" and w: "map_of (s_workers s) j = Some w" and possible: "input_possible s w i"
    and step: "worker_step now i (w, s_reg s) = Some (w', r')"
  shows "sys_inv (s\<lparr>s_reg := r', s_workers := AList.update j w' (s_workers s),
                  s_verified := note_verified w i @ s_verified s\<rparr>)"
proof -
  let ?s = "s\<lparr>s_reg := r', s_workers := AList.update j w' (s_workers s),
             s_verified := note_verified w i @ s_verified s\<rparr>"
  have wf: "reg_wf (s_reg s)" and ap: "applier_inv s" and rows: "rows_verified s" and apart: "flights_apart s"
    and wi: "\<And>j u. map_of (s_workers s) j = Some u \<Longrightarrow> worker_inv s u"
    using inv by (auto simp: sys_inv_def)
  have gens: "generations ?s = generations s" by (simp add: generations_def)
  have fw: "flight_inv (s_reg s) w" and ad: "admit_inv (s_verified s) w"
    using wi [OF w] by (auto simp: worker_inv_def)
  have kw: "fst (wk_release w) = wk_key w" using fw by (simp add: flight_inv_def)
  note own = worker_own [OF step]
  have b: "benign {wk_key w} (s_reg s) r'" by (rule own_benign [OF own wf kw])
  have w': "worker_inv ?s w'"
    using worker_inv_own [OF step wi [OF w] ap wf possible] gens by simp
  have other: "worker_inv ?s u" if u: "map_of (s_workers s) l = Some u" and "l \<noteq> j" for l u
  proof (rule worker_inv_beside [OF step wi [OF w] wi [OF u] wf])
    show "wk_release w \<noteq> wk_release u" if "active (wk_pc w)" "active (wk_pc u)"
      using apart u w \<open>l \<noteq> j\<close> that unfolding flights_apart_def by metis
  qed (use gens in auto)
  have clash: "wk_release w' \<noteq> wk_release u"
    if u: "map_of (s_workers s) l = Some u" and l: "l \<noteq> j" and act: "active (wk_pc w')" "active (wk_pc u)" for l u
  proof (cases "active (wk_pc w)")
    case True
    with own_release [OF step act(1)] apart u w l act(2) show ?thesis
      unfolding flights_apart_def by metis
  next
    case False
    with own_release [OF step act(1)] have free: "\<not> held (s_reg s) (wk_key w) (snd (wk_release w'))"
      "\<not> dead (s_reg s) (snd (wk_release w'))" by auto
    have "flight_inv (s_reg s) u" using wi [OF u] by (simp add: worker_inv_def)
    moreover have "fst (wk_release w') = wk_key w" using own kw by (simp add: own_step_def)
    ultimately show ?thesis using free act(2) unfolding flight_inv_def by metis
  qed
  have "applier_inv (s\<lparr>s_reg := r'\<rparr>)" by (rule applier_inv_other [OF ap b])
  then have "applier_inv ?s" by (subst applier_inv_cong [of _ "s\<lparr>s_reg := r'\<rparr>"]) simp_all
  moreover have "rows_verified ?s"
    using own_rows [OF step ad] by (intro rows_verified_mono [OF rows]) auto
  moreover have "flights_apart ?s"
    using apart clash unfolding flights_apart_def by (auto simp: update_conv') metis
  moreover have "reg_wf r'" using b by (simp add: benign_def)
  ultimately show ?thesis
    using inv w' other by (auto simp: sys_inv_def update_conv' distinct_update split: if_splits)
qed

lemma sys_inv_apply:
  assumes inv: "sys_inv s" and ev: "sys_apply e s = Some s'"
  shows "sys_inv s'"
proof -
  have wf: "reg_wf (s_reg s)" using inv by (simp add: sys_inv_def)
  show ?thesis
  proof (cases e)
    case (EvSync now ms)
    have "benign {} (s_reg s) (Sync now ms (s_reg s))"
      using benign_apply [of "s_reg s" "OpSync ms" undefined now] wf by simp
    from inv_registry [OF inv this] objs_from_apply [of "s_reg s" now "OpSync ms"] ev EvSync
    show ?thesis by simp
  next
    case (EvSettings c)
    have "benign {} (s_reg s) (UpdateSettings c (s_reg s))"
      using benign_apply [of "s_reg s" "OpUpdateSettings c" undefined 0] wf by simp
    from inv_registry [OF inv this] objs_from_apply [of "s_reg s" 0 "OpUpdateSettings c"] ev EvSettings
    show ?thesis by simp
  next
    case EvChange
    with ev inv_change [OF inv] show ?thesis by (auto split: apply_pc.splits option.splits)
  next
    case EvReload
    with ev inv_apply_pc [OF inv, of A_Woken "s_applied s"] show ?thesis by (auto split: if_splits)
  next
    case EvCapture
    with ev inv_apply_pc [OF inv, of "A_Captured (NotifySeq (s_reg s))" "s_applied s"] show ?thesis
      by (auto split: if_splits)
  next
    case EvBuild
    with ev inv_build [OF inv] show ?thesis by (auto split: apply_pc.splits)
  next
    case EvSwap
    with ev inv_swap [OF inv] show ?thesis by (auto split: apply_pc.splits)
  next
    case EvPublish
    with ev obtain c where c: "s_apply s = A_Swapped c" by (auto split: apply_pc.splits)
    with ev EvPublish
      inv_apply_pc [OF inv, of A_Idle "if c > s_applied s then c else s_applied s" c] show ?thesis
      by auto
  next
    case EvShutdown
    have "sys_inv (s\<lparr>s_shutting := True\<rparr>)"
    proof (rule inv_frame [OF inv])
      show "applier_inv (s\<lparr>s_shutting := True\<rparr>)"
        using sys_invD [OF inv] by (subst applier_inv_cong [of _ s]) simp_all
      show "rows_verified (s\<lparr>s_shutting := True\<rparr>)"
        using sys_invD [OF inv] by (subst rows_verified_cong [of _ s]) simp_all
    qed (simp_all add: generations_def)
    with ev EvShutdown show ?thesis by simp
  next
    case (EvBegin k)
    then show ?thesis
      using ev by (auto simp: pool_keys_def split: if_splits intro!: inv_live [OF inv])
  next
    case (EvEnd k)
    then show ?thesis
      using ev by (auto split: if_splits intro!: inv_live [OF inv])
  next
    case (EvSpawn j w)
    with ev inv_spawn [OF inv] show ?thesis by (auto split: if_splits)
  next
    case (EvStep j now i)
    with ev inv_step [OF inv] show ?thesis by (auto split: option.splits if_splits)
  next
    case (EvReap j)
    with ev inv_reap [OF inv] show ?thesis by (auto split: option.splits if_splits)
  qed
qed

theorem reachable_inv: "reachable cfg s \<Longrightarrow> sys_inv s"
  by (induction rule: reachable.induct) (auto simp: sys_inv_init sys_inv_apply)

end
