(* ===== verification/System_Passes.thy ===== *)
theory System_Passes
  imports System_Safety
begin

text \<open>
  Whole passes of one goroutine over a relay, for any registry: from the start to the verdict,
  the demotion a failed verification ends in, and the rollout that finds nothing to wait for.
  Used for the run in which a deploy happens beside requests.
\<close>

section \<open>A goroutine by itself\<close>

abbreviation worker_exec :: "instant \<Rightarrow> w_input list \<Rightarrow> worker \<times> registry \<Rightarrow> (worker \<times> registry) option" where
  "worker_exec now \<equiv> run_events (worker_step now)"

text \<open>Inputs that neither the barrier nor the drain gates.\<close>

fun ungated :: "w_input \<Rightarrow> bool" where
  "ungated (I_Settled b) = False"
| "ungated (I_Idle b) = False"
| "ungated _ = True"

lemma ungated_possible: "ungated i \<Longrightarrow> input_possible s w i"
  by (cases i) (simp_all add: input_possible_def)

lemma worker_in_system:
  assumes "worker_exec now is (w, s_reg s) = Some (w', r')" and "list_all ungated is"
    and "map_of (s_workers s) j = Some w"
  shows "\<exists>s'. sys_exec (map (EvStep j now) is) s = Some s' \<and> s_reg s' = r' \<and> s_live s' = s_live s
     \<and> map_of (s_workers s') = (map_of (s_workers s))(j \<mapsto> w')"
  using assms
proof (induction "is" arbitrary: s w)
  case Nil
  then show ?case by (simp add: fun_upd_idem)
next
  case (Cons i "is")
  from Cons.prems(1) obtain m where "worker_step now i (w, s_reg s) = Some m" "worker_exec now is m = Some (w', r')"
    by (rule run_events_Cons)
  then obtain w1 r1 where step: "worker_step now i (w, s_reg s) = Some (w1, r1)"
    and rest: "worker_exec now is (w1, r1) = Some (w', r')" by (cases m) simp
  let ?s = "s\<lparr>s_reg := r1, s_workers := AList.update j w1 (s_workers s), s_verified := note_verified w i @ s_verified s\<rparr>"
  have one: "sys_apply (EvStep j now i) s = Some ?s"
    using step Cons.prems(2,3) by (simp add: ungated_possible)
  from rest have "worker_exec now is (w1, s_reg ?s) = Some (w', r')" by simp
  from Cons.IH [OF this] Cons.prems(2) obtain s' where "sys_exec (map (EvStep j now) is) ?s = Some s'" "s_reg s' = r'"
    "s_live s' = s_live s" "map_of (s_workers s') = (map_of (AList.update j w1 (s_workers s)))(j \<mapsto> w')"
    by (auto simp: update_conv' fun_upd_same simp del: fun_upd_apply)
  with one show ?case by (intro exI [of _ s']) (simp add: update_conv' del: sys_apply.simps fun_upd_apply)
qed

lemma spawned_in_system:
  assumes "worker_exec now is (w, s_reg s) = Some (w', r')" and "list_all ungated is"
    and "map_of (s_workers s) j = None" and "fresh_worker w"
  shows "\<exists>s'. sys_exec (EvSpawn j w # map (EvStep j now) is) s = Some s' \<and> s_reg s' = r' \<and> s_live s' = s_live s
     \<and> map_of (s_workers s') = (map_of (s_workers s))(j \<mapsto> w')"
proof -
  let ?s = "s\<lparr>s_workers := AList.update j w (s_workers s)\<rparr>"
  have one: "sys_apply (EvSpawn j w) s = Some ?s" using assms(3,4) by simp
  have "worker_exec now is (w, s_reg ?s) = Some (w', r')" "map_of (s_workers ?s) j = Some w"
    using assms(1) by (simp_all add: update_conv')
  from worker_in_system [OF this(1) assms(2) this(2)] one show ?thesis
    by (auto simp: update_conv' fun_upd_same simp del: sys_apply.simps fun_upd_apply)
qed

section \<open>Passes\<close>

text \<open>The inputs of a pass that finds a deployment at \<open>url\<close>, up to the verdict of the verification.\<close>

definition found_inputs :: "string \<Rightarrow> string \<Rightarrow> w_input list" where
  "found_inputs token url =
     [I_Tick, I_Tick, I_Tick, I_Tick, I_Token (Inr token), I_Client None, I_Tick, I_Tick, I_Tick,
      I_Discover (Inr \<lparr>d_exists = True, d_url = url\<rparr>)]"

text \<open>A relay that is configured, due and not worked on.\<close>

definition workable :: "instant \<Rightarrow> relay_key \<Rightarrow> registry \<Rightarrow> entry \<Rightarrow> bool" where
  "workable now k r e \<longleftrightarrow> get r k = Some e \<and> \<not> e_busy e \<and> rec_state (e_record e) \<noteq> StateRemoving
     \<and> \<not> now < e_nextTry e"

abbreviation gen_of :: "entry \<Rightarrow> nat" where
  "gen_of e \<equiv> rec_generation (e_record e)"

definition discovering :: "instant \<Rightarrow> entry \<Rightarrow> entry" where
  "discovering now e =
     (if rec_state (e_record e) = StatePaused then e\<lparr>e_busy := True\<rparr>
      else upd_rec (\<lambda>c. c\<lparr>rec_state := StateDiscovering, rec_reason := [], rec_since := now\<rparr>) (e\<lparr>e_busy := True\<rparr>))"

lemma discovering_frame [simp]:
  "e_serving (discovering now e) = e_serving e" "gen_of (discovering now e) = gen_of e"
  "rec_drainPending (e_record (discovering now e)) = rec_drainPending (e_record e)"
  "rec_failStreak (e_record (discovering now e)) = rec_failStreak (e_record e)"
  "e_scopeChanged (discovering now e) = e_scopeChanged e" "e_obj (discovering now e) = e_obj e"
  by (simp_all add: discovering_def)

lemma pass_to_verdict:
  assumes "workable now k r e"
  shows "\<exists>w r'. worker_exec now (found_inputs token url) (ensure_worker key k, r) = Some (w, r')
     \<and> wk_key w = k \<and> wk_release w = (k, e_obj e)
     \<and> wk_pc w = E_Verify (gen_of e) (e_serving e) (rec_drainPending (e_record e)) url
     \<and> get r' k = Some (discovering now e) \<and> reg_cfg r' = reg_cfg r"
  using assms
  by (simp add: workable_def found_inputs_def ensure_worker_def worker_step_def Allow_def gone_def StateOf_def
      Begin_def ensure_entry_def IsReady_def marker_def Enter_def current_def discovering_def Let_def)

text \<open>A verification that fails without calling for a new deployment, of a relay that serves.\<close>

definition fails :: "verdict_kind \<Rightarrow> bool" where
  "fails v \<longleftrightarrow> v = verifyUnreachable \<or> v = verifyProbeFailed"

definition outdated :: "verdict_kind \<Rightarrow> bool" where
  "outdated v \<longleftrightarrow> v = verifyVersionMismatch \<or> v = verifyAuthFailed \<or> v = verifyMissing"

lemma failed_verdict:
  assumes "wk_key w = k" "wk_release w = (k, e_obj e)" "wk_pc w = E_Verify (gen_of e) wr dp url"
    and "get r k = Some e" "e_serving e" "rs_demoteAfter (reg_cfg r) \<le> rec_failStreak (e_record e) + 1"
    and "fails (v_kind v)"
  shows "\<exists>w' r' e'. worker_exec now [I_Verdict v, I_Tick, I_Tick] (w, r) = Some (w', r') \<and> get r' k = Some e'
     \<and> \<not> e_serving e' \<and> \<not> e_busy e' \<and> rec_state (e_record e') = StateUnready \<and> gen_of e' = gen_of e
     \<and> rec_drainPending (e_record e') = rec_drainPending (e_record e) \<and> e_scopeChanged e' = e_scopeChanged e"
proof -
  obtain reason where "ensure_step now (I_Verdict v) (wk_pc w) w r = Some (w\<lparr>wk_pc := E_Failing (gen_of e) reason (v_dur v)\<rparr>, r)"
    using assms(3,7) by (auto simp: fails_def)
  then have 1: "worker_step now (I_Verdict v) (w, r) = Some (w\<lparr>wk_pc := E_Failing (gen_of e) reason (v_dur v)\<rparr>, r)"
    using assms(3) by (simp add: worker_step_def)
  from assms 1 show ?thesis
    by (simp add: worker_step_def Failing_def current_def revoke_def Release_def Let_def del: ensure_step.simps(11))
qed

text \<open>An outdated verdict on a relay that does not serve, with nothing to drain on record.\<close>

lemma outdated_verdict:
  assumes "wk_key w = k" "wk_pc w = E_Verify (gen_of e) False False url"
    and "get r k = Some e" "\<not> e_scopeChanged e" and "outdated (v_kind v)"
  shows "\<exists>w' r'. worker_exec now [I_Verdict v, I_Tick, I_Tick] (w, r) = Some (w', r')
     \<and> wk_key w' = k \<and> wk_pc w' = R_Deploy (gen_of e) False"
proof -
  have 1: "worker_step now (I_Verdict v) (w, r) = Some (w\<lparr>wk_pc := R_Take (gen_of e) False False\<rparr>, r)"
    using assms(2,5) by (auto simp: worker_step_def outdated_def)
  from assms 1 show ?thesis
    by (simp add: worker_step_def TakeScopeChanged_def current_def Let_def del: ensure_step.simps(11))
qed

text \<open>The two passes.\<close>

definition pass_events :: "nat \<Rightarrow> relay_key \<Rightarrow> string \<Rightarrow> instant \<Rightarrow> string \<Rightarrow> string \<Rightarrow> verdict \<Rightarrow> sys_event list" where
  "pass_events j k key now token url v =
     EvSpawn j (ensure_worker key k)
     # map (EvStep j now) (found_inputs token url @ [I_Verdict v, I_Tick, I_Tick])"

lemma pass_ungated: "list_all ungated (found_inputs token url @ [I_Verdict v, I_Tick, I_Tick])"
  by (simp add: found_inputs_def)

lemma ensure_fresh: "fresh_worker (ensure_worker key k)"
  by (simp add: fresh_worker_def ensure_worker_def)

lemma failing_pass:
  assumes "workable now k (s_reg s) e" and "e_serving e"
    and "rs_demoteAfter (reg_cfg (s_reg s)) \<le> rec_failStreak (e_record e) + 1" and "fails (v_kind v)"
    and "map_of (s_workers s) j = None"
  shows "\<exists>s' e'. sys_exec (pass_events j k key now token url v) s = Some s' \<and> s_live s' = s_live s
     \<and> (\<forall>i. i \<noteq> j \<longrightarrow> map_of (s_workers s') i = map_of (s_workers s) i)
     \<and> get (s_reg s') k = Some e' \<and> \<not> e_serving e' \<and> \<not> e_busy e' \<and> rec_state (e_record e') = StateUnready
     \<and> gen_of e' = gen_of e \<and> rec_drainPending (e_record e') = rec_drainPending (e_record e)
     \<and> e_scopeChanged e' = e_scopeChanged e"
proof -
  obtain w r where 1: "worker_exec now (found_inputs token url) (ensure_worker key k, s_reg s) = Some (w, r)"
    and w: "wk_key w = k" "wk_release w = (k, e_obj e)"
      "wk_pc w = E_Verify (gen_of e) (e_serving e) (rec_drainPending (e_record e)) url"
    and r: "get r k = Some (discovering now e)" "reg_cfg r = reg_cfg (s_reg s)"
    using pass_to_verdict [OF assms(1), of token url key] by blast
  obtain w' r' e' where 2: "worker_exec now [I_Verdict v, I_Tick, I_Tick] (w, r) = Some (w', r')"
    and e': "get r' k = Some e'" "\<not> e_serving e'" "\<not> e_busy e'" "rec_state (e_record e') = StateUnready"
      "gen_of e' = gen_of e" "rec_drainPending (e_record e') = rec_drainPending (e_record e)"
      "e_scopeChanged e' = e_scopeChanged e"
    using failed_verdict [of w k "discovering now e" "e_serving e" "rec_drainPending (e_record e)" url r v now]
      w r assms(2,3,4) by auto
  have "worker_exec now (found_inputs token url @ [I_Verdict v, I_Tick, I_Tick]) (ensure_worker key k, s_reg s) = Some (w', r')"
    using 1 2 by (simp add: run_events_append)
  from spawned_in_system [OF this pass_ungated assms(5) ensure_fresh] obtain s' where
    "sys_exec (pass_events j k key now token url v) s = Some s'" "s_reg s' = r'" "s_live s' = s_live s"
    "map_of (s_workers s') = (map_of (s_workers s))(j \<mapsto> w')" unfolding pass_events_def by blast
  with e' show ?thesis by (intro exI [of _ s'] exI [of _ e']) simp
qed

lemma outdated_pass:
  assumes "workable now k (s_reg s) e" and "\<not> e_serving e" and "\<not> rec_drainPending (e_record e)"
    and "\<not> e_scopeChanged e" and "outdated (v_kind v)" and "map_of (s_workers s) j = None"
  shows "\<exists>s' w. sys_exec (pass_events j k key now token url v) s = Some s' \<and> s_live s' = s_live s
     \<and> map_of (s_workers s') j = Some w \<and> wk_key w = k \<and> wk_pc w = R_Deploy (gen_of e) False"
proof -
  obtain w r where 1: "worker_exec now (found_inputs token url) (ensure_worker key k, s_reg s) = Some (w, r)"
    and w: "wk_key w = k" "wk_pc w = E_Verify (gen_of e) False False url" and r: "get r k = Some (discovering now e)"
    using pass_to_verdict [OF assms(1), of token url key] assms(2,3) by auto
  obtain w' r' where 2: "worker_exec now [I_Verdict v, I_Tick, I_Tick] (w, r) = Some (w', r')"
    and w': "wk_key w' = k" "wk_pc w' = R_Deploy (gen_of e) False"
    using outdated_verdict [of w k "discovering now e" url r v now] w r assms(4,5) by auto
  have "worker_exec now (found_inputs token url @ [I_Verdict v, I_Tick, I_Tick]) (ensure_worker key k, s_reg s) = Some (w', r')"
    using 1 2 by (simp add: run_events_append)
  from spawned_in_system [OF this pass_ungated assms(6) ensure_fresh] obtain s' where
    "sys_exec (pass_events j k key now token url v) s = Some s'" "s_live s' = s_live s"
    "map_of (s_workers s') = (map_of (s_workers s))(j \<mapsto> w')" unfolding pass_events_def by blast
  with w' show ?thesis by (intro exI [of _ s'] exI [of _ w']) simp
qed

text \<open>Events of the applier and of requests: they leave entries and goroutines alone.\<close>

fun between :: "sys_event \<Rightarrow> bool" where
  "between EvChange = True"
| "between EvReload = True"
| "between EvCapture = True"
| "between EvBuild = True"
| "between EvSwap = True"
| "between EvPublish = True"
| "between (EvBegin k) = True"
| "between (EvEnd k) = True"
| "between _ = False"

lemma between_step:
  assumes "sys_apply e a = Some b" and "between e"
  shows "reg_entries (s_reg b) = reg_entries (s_reg a) \<and> s_workers b = s_workers a"
  using assms by (cases e) (auto simp: take_change_def split: apply_pc.splits if_splits option.splits)

lemma between_keeps:
  assumes "sys_exec es s = Some s'" and "list_all between es"
  shows "reg_entries (s_reg s') = reg_entries (s_reg s) \<and> s_workers s' = s_workers s"
proof (rule run_events_inv [OF assms(1)])
  show "reg_entries (s_reg b) = reg_entries (s_reg s) \<and> s_workers b = s_workers s"
    if "e \<in> set es" "sys_apply e a = Some b" "reg_entries (s_reg a) = reg_entries (s_reg s) \<and> s_workers a = s_workers s"
    for e a b
  proof -
    have "between e" using assms(2) that(1) by (simp add: list_all_iff)
    from between_step [OF that(2) this] that(3) show ?thesis by simp
  qed
qed simp

end
