(* ===== verification/System_Properties.thy ===== *)
theory System_Properties
  imports System_Passes
begin

text \<open>
  What the composed control plane promises, each with the run that exercises it: one relay
  is admitted and carries a request, is found outdated, demoted, drained and replaced. The
  last theorem shows how a deploy happens beside requests.
\<close>

section \<open>A concrete run\<close>

definition w_edge :: relay_key where
  "w_edge = RelayKey ''deno'' ''edge''"

definition w_cfg :: settings where
  "w_cfg = \<lparr>rs_backoffBase = 1, rs_backoffMax = 2, rs_recoverMax = 2, rs_pauseRetry = 5, rs_demoteAfter = 1\<rparr>"

text \<open>A goroutine of a pass at time \<open>t\<close> up to its verdict, and a round of the applier.\<close>

definition w_check :: "nat \<Rightarrow> instant \<Rightarrow> verdict_kind \<Rightarrow> sys_event list" where
  "w_check j t v =
     EvSpawn j (ensure_worker ''key'' w_edge)
     # map (EvStep j t)
         [I_Tick, I_Tick, I_Tick, I_Tick, I_Token (Inr ''token''), I_Client None, I_Tick, I_Tick, I_Tick,
          I_Discover (Inr \<lparr>d_exists = True, d_url = ''https://edge.deno.dev''\<rparr>),
          I_Verdict \<lparr>v_kind = v, v_dur = 1, v_detail = []\<rparr>]"

definition w_apply :: "sys_event list" where
  "w_apply = [EvChange, EvCapture, EvBuild, EvSwap, EvPublish]"

definition w_end :: "nat \<Rightarrow> instant \<Rightarrow> sys_event list" where
  "w_end j t = [EvStep j t I_Tick, EvStep j t I_Tick, EvReap j]"

text \<open>Verified, admitted, swapped in; then a request begins.\<close>

definition w_served :: "sys_event list" where
  "w_served =
     EvSync 1 [\<lparr>m_key = w_edge, m_scope = no_scope, m_scopeKnown = False\<rparr>]
     # w_check 0 2 verifyOK @ w_end 0 3 @ w_apply @ [EvBegin w_edge]"

text \<open>Found outdated: demoted, at the settle barrier; then settled, drained, at the deploy.\<close>

definition w_waiting :: "sys_event list" where
  "w_waiting =
     w_served @ w_check 1 10 verifyVersionMismatch
     @ [EvStep 1 11 I_Tick, EvStep 1 12 I_Tick, EvStep 1 13 I_Tick]"

definition w_replaced :: "sys_event list" where
  "w_replaced =
     w_waiting @ w_apply
     @ [EvStep 1 14 (I_Settled True), EvEnd w_edge, EvStep 1 15 (I_Idle True), EvStep 1 16 I_Tick,
        EvStep 1 17 I_Tick]"

definition w_run :: "sys_event list \<Rightarrow> sys" where
  "w_run es = the (sys_exec es (sys_init w_cfg))"

lemma w_run_reachable: "\<not> Option.is_none (sys_exec es (sys_init w_cfg)) \<Longrightarrow> reachable w_cfg (w_run es)"
  by (auto simp: w_run_def Option.is_none_def intro: reachable_exec [OF reachable.init])

lemma w_served_reachable: "reachable w_cfg (w_run w_served)"
  by (rule w_run_reachable) code_simp

lemma w_replaced_reachable: "reachable w_cfg (w_run w_replaced)"
  by (rule w_run_reachable) code_simp

section \<open>Rollouts and deletes\<close>

text \<open>
  C1. In every reachable state, a goroutine about to delete the remote of a relay, or to
  redeploy it behind the barrier, has the relay to itself: the relay carries no request, no
  pool lists it, so none can begin, and the registry does not serve it.
\<close>

theorem remote_touched_quiet:
  assumes "reachable cfg s" and "map_of (s_workers s) j = Some w"
    and "wk_pc w = D_Delete g \<or> wk_pc w = R_Deploy g True"
  shows "s_live s (wk_key w) = 0 \<and> sys_apply (EvBegin (wk_key w)) s = None \<and> \<not> IsReady (s_reg s) (wk_key w)"
proof -
  have "worker_inv s w" using reachable_inv [OF assms(1)] assms(2) by (simp add: sys_inv_def)
  then have "quiet_inv (s_live s) w" "barrier_inv (generations s) (reg_seq (s_reg s)) (wk_key w) (wk_pc w)"
    "offer_inv (offer (s_reg s) (wk_key w)) (wk_pc w)"
    by (simp_all add: worker_inv_def)
  then show ?thesis
    using assms(3)
    by (auto simp: quiet_inv_def barrier_inv_def offer_inv_def generations_def pool_keys_def IsReady_offer)
qed

lemma w_replaced_worker:
  "map_option (\<lambda>w. (wk_key w, wk_pc w)) (map_of (s_workers (w_run w_replaced)) 1) = Some (w_edge, R_Deploy 1 True)"
  by code_simp

theorem remote_touched_quiet_witness:
  "s_live (w_run w_replaced) w_edge = 0 \<and> \<not> IsReady (s_reg (w_run w_replaced)) w_edge"
proof -
  obtain w where "map_of (s_workers (w_run w_replaced)) 1 = Some w" "wk_key w = w_edge" "wk_pc w = R_Deploy 1 True"
    using w_replaced_worker by auto
  with remote_touched_quiet [OF w_replaced_reachable this(1), of 1] show ?thesis by simp
qed

section \<open>What is served\<close>

text \<open>
  C2. Traffic goes to verified endpoints only: each row of the generation being served was
  the subject of a positive verification with exactly this URL and relay key.
\<close>

theorem pool_rows_verified:
  assumes "reachable cfg s" and "x \<in> set (s_pool s)"
  shows "(sv_key x, sv_url x, sv_token x) \<in> set (s_verified s)"
  using reachable_inv [OF assms(1)] assms(2) by (simp add: sys_inv_def rows_verified_def)

lemma w_served_pool:
  "map (\<lambda>x. (sv_key x, sv_url x, sv_token x)) (s_pool (w_run w_served)) = [(w_edge, ''https://edge.deno.dev'', ''key'')]"
  by code_simp

theorem pool_rows_verified_witness:
  "(w_edge, ''https://edge.deno.dev'', ''key'') \<in> set (s_verified (w_run w_served))"
proof -
  obtain x where "x \<in> set (s_pool (w_run w_served))" "sv_key x = w_edge" "sv_url x = ''https://edge.deno.dev''"
    "sv_token x = ''key''"
    using w_served_pool by (auto simp: map_eq_Cons_conv)
  with pool_rows_verified [OF w_served_reachable this(1)] show ?thesis by simp
qed

text \<open>
  The serving generation refines the registry: whenever the applier rests and no
  notification is pending, it has published every notification and the pool lists exactly
  the relays the registry admits.
\<close>

theorem pool_converges:
  assumes "reachable cfg s" and "s_apply s = A_Idle" and "\<not> reg_pending (s_reg s)"
  shows "s_applied s = NotifySeq (s_reg s) \<and> set (pool_keys (s_pool s)) = {k. IsReady (s_reg s) k}"
proof
  have ap: "applier_inv s" using reachable_inv [OF assms(1)] by (simp add: sys_inv_def)
  with assms(2,3) have seq: "s_poolSeq s = reg_seq (s_reg s)" "s_applied s = reg_seq (s_reg s)"
    by (auto simp: applier_inv_def)
  then show "s_applied s = NotifySeq (s_reg s)" by (simp add: NotifySeq_def)
  have "(s_poolSeq s, sv_key ` set (s_pool s)) \<in> generations s" by (simp add: generations_def)
  from bspec [OF ap [unfolded applier_inv_def, THEN conjunct2, THEN conjunct2, THEN conjunct2] this]
  have "sv_key ` set (s_pool s) = {k. offer (s_reg s) k \<noteq> None}"
    by (simp only: prod.case seq(1) simp_thms)
  then show "set (pool_keys (s_pool s)) = {k. IsReady (s_reg s) k}"
    by (simp add: pool_keys_def IsReady_offer)
qed

theorem pool_converges_witness:
  "s_applied (w_run w_served) = NotifySeq (s_reg (w_run w_served))
   \<and> set (pool_keys (s_pool (w_run w_served))) = {k. IsReady (s_reg (w_run w_served)) k}"
proof -
  have "s_apply (w_run w_served) = A_Idle" and "\<not> reg_pending (s_reg (w_run w_served))"
    by (code_simp, code_simp)
  from pool_converges [OF w_served_reachable this] show ?thesis by simp
qed

section \<open>The settle barrier\<close>

definition applier_events :: "sys_event set" where
  "applier_events = {EvChange, EvCapture, EvBuild, EvSwap, EvPublish}"

lemma woken_round:
  assumes "s_apply s = A_Woken"
  shows "\<exists>s'. sys_exec [EvCapture, EvBuild, EvSwap, EvPublish] s = Some s' \<and> NotifySeq (s_reg s) \<le> s_applied s'
           \<and> s_reg s' = s_reg s"
  using assms by simp

lemma idle_round:
  assumes "applier_inv s" and "s_apply s = A_Idle"
  shows "\<exists>es s'. set es \<subseteq> applier_events \<and> length es \<le> 5 \<and> sys_exec es s = Some s'
           \<and> NotifySeq (s_reg s) \<le> s_applied s'"
proof (cases "s_applied s < reg_seq (s_reg s)")
  case True
  with assms have p: "reg_pending (s_reg s)" by (simp add: applier_inv_def)
  let ?s = "s\<lparr>s_reg := (s_reg s)\<lparr>reg_pending := False\<rparr>, s_apply := A_Woken\<rparr>"
  have "sys_apply EvChange s = Some ?s" using p assms(2) by (simp add: take_change_def)
  moreover obtain s' where "sys_exec [EvCapture, EvBuild, EvSwap, EvPublish] ?s = Some s'"
    "NotifySeq (s_reg ?s) \<le> s_applied s'"
    using woken_round [of ?s] by auto
  ultimately have "sys_exec [EvChange, EvCapture, EvBuild, EvSwap, EvPublish] s = Some s'"
    "NotifySeq (s_reg s) \<le> s_applied s'"
    by (simp_all add: NotifySeq_def del: sys_apply.simps)
  then show ?thesis
    by (intro exI [of _ "[EvChange, EvCapture, EvBuild, EvSwap, EvPublish]"] exI [of _ s'])
       (simp add: applier_events_def)
next
  case False
  with assms show ?thesis by (intro exI [of _ "[]"] exI [of _ s]) (simp add: NotifySeq_def)
qed

text \<open>A round under way ends with the applier at rest and the registry untouched.\<close>

lemma finish_round:
  assumes "s_apply s \<noteq> A_Woken"
  shows "\<exists>es s'. set es \<subseteq> applier_events \<and> length es \<le> 3 \<and> sys_exec es s = Some s'
           \<and> s_reg s' = s_reg s \<and> s_apply s' = A_Idle"
proof (cases "s_apply s")
  case A_Idle
  then show ?thesis by (intro exI [of _ "[]"] exI [of _ s]) simp
next
  case (A_Captured c)
  then show ?thesis by (intro exI [of _ "[EvBuild, EvSwap, EvPublish]"]) (simp add: applier_events_def)
next
  case (A_Built c l)
  then show ?thesis by (intro exI [of _ "[EvSwap, EvPublish]"]) (simp add: applier_events_def)
next
  case (A_Swapped c)
  then show ?thesis by (intro exI [of _ "[EvPublish]"]) (simp add: applier_events_def)
qed (use assms in simp)

text \<open>
  C4. The settle barrier cannot hang on a lost wakeup: from every reachable state at most
  eight steps of the applier alone publish the current notification count, and with it the
  target of every rollout and delete waiting at the barrier.
\<close>

theorem settle_cannot_hang:
  assumes "reachable cfg s"
  shows "\<exists>es s'. set es \<subseteq> applier_events \<and> length es \<le> 8 \<and> sys_exec es s = Some s'
           \<and> NotifySeq (s_reg s) \<le> s_applied s'
           \<and> (\<forall>j w t. map_of (s_workers s) j = Some w \<and> target (wk_pc w) = Some t \<longrightarrow> t \<le> s_applied s')"
proof -
  have "\<exists>es s'. set es \<subseteq> applier_events \<and> length es \<le> 8 \<and> sys_exec es s = Some s'
          \<and> NotifySeq (s_reg s) \<le> s_applied s'" (is "\<exists>es s'. ?run es s'")
  proof (cases "s_apply s = A_Woken")
    case True
    from woken_round [OF this] show ?thesis
      by (elim exE) (rule exI [of _ "[EvCapture, EvBuild, EvSwap, EvPublish]"], auto simp: applier_events_def)
  next
    case False
    then obtain es s1 where 1: "set es \<subseteq> applier_events" "length es \<le> 3" "sys_exec es s = Some s1"
      "s_reg s1 = s_reg s" "s_apply s1 = A_Idle"
      using finish_round by blast
    have "applier_inv s1"
      using reachable_inv [OF reachable_exec [OF assms 1(3)]] by (simp add: sys_inv_def)
    from idle_round [OF this 1(5)] obtain es' s2 where "set es' \<subseteq> applier_events" "length es' \<le> 5"
      "sys_exec es' s1 = Some s2" "NotifySeq (s_reg s1) \<le> s_applied s2" by blast
    with 1 show ?thesis
      by (intro exI [of _ "es @ es'"] exI [of _ s2]) (simp add: run_events_append)
  qed
  then obtain es s' where run: "?run es s'" by blast
  have "t \<le> s_applied s'"
    if "map_of (s_workers s) j = Some w" "target (wk_pc w) = Some t" for j w t
  proof -
    have "worker_inv s w" using reachable_inv [OF assms] that(1) by (simp add: sys_inv_def)
    with that(2) have "t \<le> NotifySeq (s_reg s)" by (simp add: worker_inv_def barrier_inv_def NotifySeq_def)
    with run show ?thesis by linarith
  qed
  with run show ?thesis by blast
qed

lemma w_waiting_reachable: "reachable w_cfg (w_run w_waiting)"
  by (rule w_run_reachable) code_simp

lemma w_waiting_worker:
  "map_option (\<lambda>w. target (wk_pc w)) (map_of (s_workers (w_run w_waiting)) 1) = Some (Some 3)
   \<and> s_applied (w_run w_waiting) = 2"
  by code_simp

theorem settle_cannot_hang_witness:
  "\<exists>es s'. set es \<subseteq> applier_events \<and> sys_exec es (w_run w_waiting) = Some s' \<and> 3 \<le> s_applied s'"
proof -
  obtain w where "map_of (s_workers (w_run w_waiting)) 1 = Some w" "target (wk_pc w) = Some 3"
    using w_waiting_worker by (auto simp: map_option_eq_Some)
  with settle_cannot_hang [OF w_waiting_reachable] show ?thesis by blast
qed

section \<open>A deploy beside a request\<close>

text \<open>
  C34. The barrier is taken only by a rollout that itself found the relay serving, or found a drain
  marker or a moved scope. In every reachable state with a relay that serves, is due, is not being
  worked on, has no drain pending and is one failure short of its demotion: a pass whose
  verification fails (unreachable or no valid probe) demotes the relay and takes nothing from its
  requests in flight, however many; then, after any steps of the applier and of requests, a pass at
  any time the relay is due again that finds the deployment outdated (version, relay key or no
  worker) is at the deploy without the barrier, with all the requests then in flight still there.
\<close>

theorem deploy_beside_request:
  assumes "reachable cfg s" and "workable t1 k (s_reg s) e" and "e_serving e" and "\<not> rec_drainPending (e_record e)"
    and "rs_demoteAfter (reg_cfg (s_reg s)) \<le> rec_failStreak (e_record e) + 1"
    and "map_of (s_workers s) i = None" and "map_of (s_workers s) j = None" and "i \<noteq> j"
    and "fails (v_kind bad)" and "outdated (v_kind old)"
  shows "\<exists>s1. sys_exec (pass_events i k key t1 token url bad) s = Some s1 \<and> \<not> IsReady (s_reg s1) k
     \<and> s_live s1 = s_live s
     \<and> (\<forall>es s2 t2. list_all between es \<longrightarrow> sys_exec es s1 = Some s2 \<longrightarrow> Allow t2 k (s_reg s2) \<longrightarrow>
          (\<exists>s3 w. sys_exec (pass_events j k key t2 token url old) s2 = Some s3 \<and> reachable cfg s3
             \<and> map_of (s_workers s3) j = Some w \<and> wk_key w = k \<and> wk_pc w = R_Deploy (gen_of e) False
             \<and> s_live s3 k = s_live s2 k))"
proof -
  have "entry_ok k e"
    using reachable_inv [OF assms(1)] reg_wf_entry [of "s_reg s" k e] assms(2) by (simp add: sys_inv_def workable_def)
  with assms(3) have scope: "\<not> e_scopeChanged e" by (simp add: entry_ok_def)
  obtain s1 e1 where s1: "sys_exec (pass_events i k key t1 token url bad) s = Some s1" "s_live s1 = s_live s"
    and w1: "\<forall>i'. i' \<noteq> i \<longrightarrow> map_of (s_workers s1) i' = map_of (s_workers s) i'"
    and e1: "get (s_reg s1) k = Some e1" "\<not> e_serving e1" "\<not> e_busy e1" "rec_state (e_record e1) = StateUnready"
      "gen_of e1 = gen_of e" "\<not> rec_drainPending (e_record e1)" "\<not> e_scopeChanged e1"
    using failing_pass [OF assms(2,3,5,9,6), of key token url] assms(4) scope by auto
  have "\<exists>s3 w. sys_exec (pass_events j k key t2 token url old) s2 = Some s3 \<and> reachable cfg s3
       \<and> map_of (s_workers s3) j = Some w \<and> wk_key w = k \<and> wk_pc w = R_Deploy (gen_of e) False
       \<and> s_live s3 k = s_live s2 k"
    if es: "list_all between es" "sys_exec es s1 = Some s2" and due: "Allow t2 k (s_reg s2)" for es s2 t2
  proof -
    note keep = between_keeps [OF es(2,1)]
    then have g: "get (s_reg s2) k = Some e1" and free: "map_of (s_workers s2) j = None"
      using e1(1) w1 assms(7,8) by simp_all
    have "workable t2 k (s_reg s2) e1"
      using g e1(3,4) due by (simp add: workable_def Allow_def)
    from outdated_pass [OF this e1(2,6,7) assms(10) free, of key token url] obtain s3 w where
      s3: "sys_exec (pass_events j k key t2 token url old) s2 = Some s3" "s_live s3 = s_live s2"
        "map_of (s_workers s3) j = Some w" "wk_key w = k" "wk_pc w = R_Deploy (gen_of e1) False" by blast
    moreover have "reachable cfg s3"
      by (rule reachable_exec [OF reachable_exec [OF reachable_exec [OF assms(1) s1(1)] es(2)] s3(1)])
    ultimately show ?thesis using e1(5) by auto
  qed
  moreover have "\<not> IsReady (s_reg s1) k" using e1(1,2) by (simp add: IsReady_def)
  ultimately show ?thesis using s1 by blast
qed

text \<open>One request in flight through it all; the applier has swapped the demoted relay out in between.\<close>

lemma w_served_entry:
  "map_option (\<lambda>e. (\<not> e_busy e \<and> rec_state (e_record e) \<noteq> StateRemoving \<and> \<not> 10 < e_nextTry e, e_serving e,
       rec_drainPending (e_record e), rec_failStreak (e_record e), gen_of e)) (get (s_reg (w_run w_served)) w_edge)
     = Some (True, True, False, 0, 1)"
  by code_simp

lemma w_served_rest:
  "s_live (w_run w_served) w_edge = 1 \<and> s_workers (w_run w_served) = []
   \<and> rs_demoteAfter (reg_cfg (s_reg (w_run w_served))) = 1"
  by code_simp

definition w_verdict :: "verdict_kind \<Rightarrow> verdict" where
  "w_verdict v = \<lparr>v_kind = v, v_dur = 1, v_detail = []\<rparr>"

definition w_demoted :: "sys_event list" where
  "w_demoted = pass_events 1 w_edge ''key'' 10 ''token'' ''https://edge.deno.dev'' (w_verdict verifyUnreachable)"

lemma w_demoted_due:
  "case sys_exec (w_demoted @ w_apply) (w_run w_served) of
     None \<Rightarrow> False | Some s \<Rightarrow> Allow 20 w_edge (s_reg s) \<and> s_live s w_edge = 1"
  by code_simp

theorem deploy_beside_request_witness:
  "\<exists>s w. reachable w_cfg s \<and> map_of (s_workers s) 2 = Some w \<and> wk_key w = w_edge
     \<and> wk_pc w = R_Deploy 1 False \<and> s_live s w_edge = 1"
proof -
  obtain e where e: "workable 10 w_edge (s_reg (w_run w_served)) e" "e_serving e"
    "\<not> rec_drainPending (e_record e)" "rec_failStreak (e_record e) = 0" "gen_of e = 1"
    using w_served_entry by (auto simp: workable_def)
  have t: "rs_demoteAfter (reg_cfg (s_reg (w_run w_served))) \<le> rec_failStreak (e_record e) + 1"
    and free: "map_of (s_workers (w_run w_served)) 1 = None" "map_of (s_workers (w_run w_served)) 2 = None"
    using w_served_rest e(4) by simp_all
  have v: "fails (v_kind (w_verdict verifyUnreachable))" "outdated (v_kind (w_verdict verifyVersionMismatch))"
    by (simp_all add: w_verdict_def fails_def outdated_def)
  obtain s1 where s1: "sys_exec w_demoted (w_run w_served) = Some s1"
    and all: "\<forall>es s2 t2. list_all between es \<longrightarrow> sys_exec es s1 = Some s2 \<longrightarrow> Allow t2 w_edge (s_reg s2) \<longrightarrow>
          (\<exists>s3 w. sys_exec (pass_events 2 w_edge ''key'' t2 ''token'' ''https://edge.deno.dev''
                (w_verdict verifyVersionMismatch)) s2 = Some s3 \<and> reachable w_cfg s3
             \<and> map_of (s_workers s3) 2 = Some w \<and> wk_key w = w_edge \<and> wk_pc w = R_Deploy (gen_of e) False
             \<and> s_live s3 w_edge = s_live s2 w_edge)"
    using deploy_beside_request [OF w_served_reachable e(1,2,3) t free _ v, of "''key''" "''token''"
        "''https://edge.deno.dev''"] unfolding w_demoted_def by auto
  obtain s2 where s2: "sys_exec w_apply s1 = Some s2" "Allow 20 w_edge (s_reg s2)" "s_live s2 w_edge = 1"
    using w_demoted_due s1 by (auto simp: run_events_append simp del: run_events.simps split: option.splits)
  have "list_all between w_apply" by (simp add: w_apply_def)
  from all [rule_format, OF this s2(1,2)] e(5) s2(3) show ?thesis by auto
qed

end
