(* ===== verification/Gateway_Request.thy ===== *)
theory Gateway_Request
  imports Pool
begin

text \<open>
  What \<open>internal/gateway/gateway.go\<close> reads from an inbound request and what it sends on the
  relay leg: headers, the provider pin, the derived target of forward-proxy requests, the
  outbound request. A header is the association list of a Go map, names as received.
\<close>

section \<open>Headers\<close>

type_synonym header = "(string \<times> string list) list"

definition vals :: "header \<Rightarrow> string \<Rightarrow> string list" where
  "vals h k = (case map_of h k of None \<Rightarrow> [] | Some vs \<Rightarrow> vs)"

definition header_add :: "string \<Rightarrow> string \<Rightarrow> header \<Rightarrow> header" where
  "header_add k v h = AList.update (canonical_header_key k) (vals h (canonical_header_key k) @ [v]) h"

definition header_set :: "string \<Rightarrow> string \<Rightarrow> header \<Rightarrow> header" where
  "header_set k v h = AList.update (canonical_header_key k) [v] h"

definition header_get :: "string \<Rightarrow> header \<Rightarrow> string" where
  "header_get k h = (case vals h (canonical_header_key k) of [] \<Rightarrow> [] | v # vs \<Rightarrow> v)"

definition HeaderProvider :: string where "HeaderProvider = ''X-Relay-Provider''"
definition HeaderToken :: string where "HeaderToken = ''X-Relay-Token''"
definition HeaderTarget :: string where "HeaderTarget = ''X-Relay-Target''"
definition HeaderPath :: string where "HeaderPath = ''X-Relay-Path''"

definition stripped :: "string \<Rightarrow> bool" where
  "stripped ck \<longleftrightarrow>
     ck \<in> set HopByHop \<or> ck \<in> set [HeaderProvider, HeaderToken, ''Content-Length'', ''Host'']"

fun copyFilteredHeaders :: "header \<Rightarrow> header \<Rightarrow> header" where
  "copyFilteredHeaders dst [] = dst"
| "copyFilteredHeaders dst ((k, vv) # src) =
     (if stripped (canonical_header_key k) then copyFilteredHeaders dst src
      else copyFilteredHeaders (fold (header_add k) vv dst) src)"

text \<open>The header half of \<open>copyResponse\<close>.\<close>

fun copyResponseHeader :: "header \<Rightarrow> header \<Rightarrow> header" where
  "copyResponseHeader dst [] = dst"
| "copyResponseHeader dst ((k, vv) # src) =
     (if canonical_header_key k \<in> set HopByHop \<or> canonical_header_key k = ''Content-Length''
      then copyResponseHeader dst src
      else copyResponseHeader (fold (header_add k) vv dst) src)"

section \<open>Requests\<close>

text \<open>
  \<open>url.URL\<close>: user information and host as \<open>String\<close> prints them, the decoded path, and
  what \<open>RequestURI\<close> is made of.
\<close>

record url =
  u_scheme :: string
  u_user :: "string option"
  u_host :: string
  u_path :: string
  u_escapedPath :: string
  u_opaque :: string
  u_forceQuery :: bool
  u_rawQuery :: string

text \<open>
  The body is what the client sends; \<open>rq_bodyErr\<close> is the read error that cuts it off and
  the number of bytes before it.
\<close>

record request =
  rq_method :: string
  rq_url :: url
  rq_header :: header
  rq_contentLength :: int
  rq_body :: string
  rq_bodyErr :: "(nat \<times> string) option"

definition RequestURI :: "url \<Rightarrow> string" where
  "RequestURI u =
    (let result = (if u_opaque u = [] then (if u_escapedPath u = [] then ''/'' else u_escapedPath u)
                   else if has_prefix ''//'' (u_opaque u) then u_scheme u @ '':'' @ u_opaque u
                   else u_opaque u)
     in if u_forceQuery u \<or> u_rawQuery u \<noteq> [] then result @ ''?'' @ u_rawQuery u else result)"

definition targetOrigin :: "url \<Rightarrow> string" where
  "targetOrigin u =
     (if u_scheme u \<noteq> [] then u_scheme u @ '':'' else [])
     @ (if u_host u \<noteq> [] \<or> u_user u \<noteq> None then ''//'' else [])
     @ (case u_user u of None \<Rightarrow> [] | Some ui \<Rightarrow> ui @ ''@'')
     @ u_host u"

section \<open>The provider pin\<close>

definition unpinned :: "string \<Rightarrow> bool" where
  "unpinned v \<longleftrightarrow> v = [] \<or> v = ''none'' \<or> v = ''auto'' \<or> v = ''all''"

text \<open>\<open>(provider, ok, present)\<close>.\<close>

definition headerProvider :: "request \<Rightarrow> pool \<Rightarrow> string \<times> bool \<times> bool" where
  "headerProvider r p =
    (let v = go_to_lower (trim_space (header_get HeaderProvider (rq_header r))) in
     if v = [] then ([], True, False)
     else if unpinned v then ([], True, True)
     else if HasProvider p v \<or> ReadyCount_pool p = 0 then (v, True, True)
     else ([], False, True))"

definition parseProvider :: "request \<Rightarrow> pool \<Rightarrow> string \<times> bool" where
  "parseProvider r p =
    (let (provider, ok, present) = headerProvider r p in
     if present then (provider, ok)
     else (let seg = go_to_lower (cut_before (CHR ''/'') (trim_prefix ''/'' (u_path (rq_url r)))) in
           if unpinned seg then ([], True)
           else if HasProvider p seg \<or> ReadyCount_pool p = 0 then (seg, True)
           else ([], False)))"

definition providerLabel :: "string \<Rightarrow> string" where
  "providerLabel provider = (if provider = [] then ''auto'' else provider)"

text \<open>The request \<open>handleProxy\<close> relays: target and path derived, never taken from the client.\<close>

definition proxy_request :: "request \<Rightarrow> request" where
  "proxy_request r =
     r\<lparr>rq_header := header_set HeaderPath (RequestURI (rq_url r))
                     (header_set HeaderTarget (targetOrigin (rq_url r)) (rq_header r))\<rparr>"

section \<open>The relay leg\<close>

record out_request =
  oq_method :: string
  oq_url :: string
  oq_header :: header
  oq_contentLength :: int
  oq_body :: string

text \<open>
  The request half of \<open>roundTrip\<close>. A buffered body declares its length; a live one declares
  the client's length when there is one and is chunked otherwise (length 0 with a body).
\<close>

definition out_request_of :: "request \<Rightarrow> relay \<Rightarrow> string \<Rightarrow> string option \<Rightarrow> out_request" where
  "out_request_of r rl body live =
    (let h = copyFilteredHeaders [] (rq_header r);
         h' = (if r_token rl \<noteq> [] then header_set HeaderToken (r_token rl) h else h)
     in case live of
          Some s \<Rightarrow> \<lparr>oq_method = rq_method r, oq_url = r_url rl, oq_header = h',
                     oq_contentLength = (if rq_contentLength r > 0 then rq_contentLength r else 0), oq_body = s\<rparr>
        | None \<Rightarrow> \<lparr>oq_method = rq_method r, oq_url = r_url rl, oq_header = h',
                   oq_contentLength = int (length body), oq_body = body\<rparr>)"

section \<open>Header lemmas\<close>

lemma vals_Nil [simp]: "vals [] k = []"
  by (simp add: vals_def)

lemma vals_Cons: "vals ((k, vs) # h) k' = (if k' = k then vs else vals h k')"
  by (simp add: vals_def)

lemma vals_add:
  "vals (header_add k v h) k' = (if k' = canonical_header_key k then vals h k' @ [v] else vals h k')"
  by (simp add: vals_def header_add_def update_conv')

lemma vals_set: "vals (header_set k v h) k' = (if k' = canonical_header_key k then [v] else vals h k')"
  by (simp add: vals_def header_set_def update_conv')

lemma vals_fold_add:
  "vals (fold (header_add k) vs h) k' = (if k' = canonical_header_key k then vals h k' @ vs else vals h k')"
  by (induction vs arbitrary: h) (simp_all add: vals_add)

text \<open>A header as the server parses it: canonical names, each once.\<close>

definition parsed :: "header \<Rightarrow> bool" where
  "parsed h \<longleftrightarrow> distinct (map fst h) \<and> list_all (\<lambda>kv. canonical_header_key (fst kv) = fst kv) h"

lemma parsed_Cons:
  "parsed ((k, vs) # h) \<longleftrightarrow> canonical_header_key k = k \<and> vals h k = [] \<and> k \<notin> fst ` set h \<and> parsed h"
  by (auto simp: parsed_def vals_def split: option.splits dest: map_of_SomeD intro: rev_image_eqI)

lemma parsed_update:
  "parsed h \<Longrightarrow> canonical_header_key k = k \<Longrightarrow> parsed (AList.update k vs h)"
  unfolding parsed_def by (induction h) (auto simp: distinct_update dom_update)

lemma vals_copyFiltered:
  "parsed src \<Longrightarrow> vals (copyFilteredHeaders dst src) k = vals dst k @ (if stripped k then [] else vals src k)"
  by (induction dst src rule: copyFilteredHeaders.induct)
     (auto simp: parsed_Cons vals_Cons vals_fold_add)

lemma vals_copyResponse:
  "parsed src \<Longrightarrow> vals (copyResponseHeader dst src) k
     = vals dst k @ (if k \<in> set HopByHop \<or> k = ''Content-Length'' then [] else vals src k)"
  by (induction dst src rule: copyResponseHeader.induct)
     (auto simp: parsed_Cons vals_Cons vals_fold_add)

lemma header_names [simp]:
  "canonical_header_key HeaderToken = HeaderToken" "canonical_header_key HeaderProvider = HeaderProvider"
  "canonical_header_key HeaderTarget = HeaderTarget" "canonical_header_key HeaderPath = HeaderPath"
  by (code_simp, code_simp, code_simp, code_simp)

lemma stripped_names [simp]: "stripped HeaderToken" "stripped HeaderProvider" "\<not> stripped HeaderTarget"
  "\<not> stripped HeaderPath" "\<not> stripped ''X-Forwarded-For''"
  by (code_simp, code_simp, code_simp, code_simp, code_simp)

text \<open>The names that stay on this side, as one list.\<close>

lemma stripped_iff:
  "stripped k \<longleftrightarrow> k = HeaderToken
     \<or> k \<in> set [''Connection'', ''Proxy-Connection'', ''Keep-Alive'', ''Proxy-Authenticate'',
                ''Proxy-Authorization'', ''Te'', ''Trailer'', ''Transfer-Encoding'', ''Upgrade'',
                ''X-Relay-Provider'', ''Content-Length'', ''Host'']"
  by (auto simp: stripped_def HopByHop_def HeaderProvider_def)

section \<open>Properties\<close>

text \<open>
  C13. What reaches a relay: every end-to-end header of the client with its values in order,
  none of the hop-by-hop ones, no provider pin, and as relay key exactly the key of the
  relay picked, whatever the client sent. Nothing is added, \<open>X-Forwarded-For\<close> included.
\<close>

theorem relay_leg_headers:
  assumes "parsed (rq_header r)"
  shows "vals (oq_header (out_request_of r rl body live)) k =
     (if k = HeaderToken then (if r_token rl = [] then [] else [r_token rl])
      else if k \<in> set [''Connection'', ''Proxy-Connection'', ''Keep-Alive'', ''Proxy-Authenticate'',
                        ''Proxy-Authorization'', ''Te'', ''Trailer'', ''Transfer-Encoding'', ''Upgrade'',
                        ''X-Relay-Provider'', ''Content-Length'', ''Host''] then []
      else vals (rq_header r) k)"
  using vals_copyFiltered [OF assms, of "[]" k]
  by (cases live) (auto simp: out_request_of_def Let_def vals_set stripped_iff)

definition w_request :: request where
  "w_request =
     \<lparr>rq_method = ''POST'',
      rq_url = \<lparr>u_scheme = [], u_user = None, u_host = [], u_path = ''/deno'', u_escapedPath = ''/deno'',
               u_opaque = [], u_forceQuery = False, u_rawQuery = []\<rparr>,
      rq_header = [(''X-Relay-Token'', [''forged'']), (''Authorization'', [''Bearer t'']), (''Te'', [''trailers''])],
      rq_contentLength = 4, rq_body = ''data'', rq_bodyErr = None\<rparr>"

theorem relay_leg_headers_witness:
  "map (vals (oq_header (out_request_of w_request (w_relay 0 ''deno'') ''data'' None)))
     [HeaderToken, ''Authorization'', ''Te''] = [[''t''], [''Bearer t''], []]"
proof -
  have p: "parsed (rq_header w_request)" by code_simp
  have "vals (rq_header w_request) ''Authorization'' = [''Bearer t'']" "r_token (w_relay 0 ''deno'') = ''t''"
    by (code_simp, code_simp)
  with relay_leg_headers [OF p, of "w_relay 0 ''deno''" "''data''" None] show ?thesis
    by (simp add: HeaderToken_def)
qed

text \<open>The pin the client asked for: its header if there is one, else the first path segment.\<close>

definition requested :: "request \<Rightarrow> string" where
  "requested r =
    (let v = go_to_lower (trim_space (header_get HeaderProvider (rq_header r))) in
     if v \<noteq> [] then v
     else go_to_lower (cut_before (CHR ''/'') (trim_prefix ''/'' (u_path (rq_url r)))))"

text \<open>
  Provider selection: the two-stage parser is the single rule that the requested pin,
  when it names a provider, must be served by the pool or the pool must be empty.
\<close>

theorem parseProvider_rule:
  "parseProvider r p =
     (if unpinned (requested r) then ([], True)
      else if HasProvider p (requested r) \<or> ReadyCount_pool p = 0 then (requested r, True)
      else ([], False))"
  by (simp add: parseProvider_def headerProvider_def requested_def Let_def)

end
