(* ===== verification/Inflight.thy ===== *)
theory Inflight
  imports Prelude
begin

text \<open>
  The in-flight counter of \<open>internal/gateway/gateway.go\<close> (\<open>inflight\<close>) and the drain wait
  built on it (\<open>AwaitIdle\<close>). A channel is a number, an allocation count hands them out,
  and a list holds the closed ones; closing a channel twice panics in Go, here it sets
  \<open>if_panicked\<close>. The counter is the implementation of an interface, a map from identities
  to counts, which the hot path and the reconciler rely on.
\<close>

section \<open>Data and operations\<close>

type_synonym chan = nat

record inflightPerm =
  pm_count :: int
  pm_zero :: chan

record inflight =
  if_perms :: "string \<Rightarrow> inflightPerm option"
  if_chans :: nat
  if_closed :: "chan list"
  if_panicked :: bool

definition no_inflight :: inflight where
  "no_inflight = \<lparr>if_perms = Map.empty, if_chans = 0, if_closed = [], if_panicked = False\<rparr>"

definition make_chan :: "inflight \<Rightarrow> chan \<times> inflight" where
  "make_chan f = (if_chans f, f\<lparr>if_chans := if_chans f + 1\<rparr>)"

definition close_chan :: "chan \<Rightarrow> inflight \<Rightarrow> inflight" where
  "close_chan ch f =
     (if ch \<in> set (if_closed f) then f\<lparr>if_panicked := True\<rparr> else f\<lparr>if_closed := ch # if_closed f\<rparr>)"

definition identityKey :: "string \<Rightarrow> string \<Rightarrow> string" where
  "identityKey provider name = provider @ ''/'' @ name"

definition begin_flight :: "string \<Rightarrow> string \<Rightarrow> inflight \<Rightarrow> inflight" where
  "begin_flight provider name f =
    (let idn = identityKey provider name;
         (p, f1) = (case if_perms f idn of
                      Some p \<Rightarrow> (p, f)
                    | None \<Rightarrow> (let (ch, f1) = make_chan f in (\<lparr>pm_count = 0, pm_zero = ch\<rparr>, f1)));
         (p', f2) = (if pm_count p = 0 then (let (ch, f2) = make_chan f1 in (p\<lparr>pm_zero := ch\<rparr>, f2))
                     else (p, f1))
     in f2\<lparr>if_perms := (if_perms f2)(idn \<mapsto> p'\<lparr>pm_count := pm_count p' + 1\<rparr>)\<rparr>)"

definition end_flight :: "string \<Rightarrow> string \<Rightarrow> inflight \<Rightarrow> inflight" where
  "end_flight provider name f =
    (case if_perms f (identityKey provider name) of
       None \<Rightarrow> f
     | Some p \<Rightarrow>
         (let p' = p\<lparr>pm_count := pm_count p - 1\<rparr>;
              f' = f\<lparr>if_perms := (if_perms f)(identityKey provider name \<mapsto> p')\<rparr>
          in if pm_count p' = 0 then close_chan (pm_zero p') f' else f'))"

definition zeroChan :: "string \<Rightarrow> string \<Rightarrow> inflight \<Rightarrow> chan option" where
  "zeroChan provider name f =
    (case if_perms f (identityKey provider name) of
       None \<Rightarrow> None
     | Some p \<Rightarrow> if pm_count p = 0 then None else Some (pm_zero p))"

section \<open>Interface: a counter of running requests\<close>

text \<open>
  \<open>live s i\<close> requests of identity \<open>i\<close> run in \<open>s\<close>. Only a running request may end.
\<close>

datatype flight_op = Start string string | Finish string string

fun op_idn :: "flight_op \<Rightarrow> string" where
  "op_idn (Start p n) = identityKey p n"
| "op_idn (Finish p n) = identityKey p n"

text \<open>The effect of an operation on the count of \<open>i\<close>, and histories that end only what runs.\<close>

fun live_op :: "flight_op \<Rightarrow> (string \<Rightarrow> nat) \<Rightarrow> string \<Rightarrow> nat" where
  "live_op (Start p n) l = l(identityKey p n := l (identityKey p n) + 1)"
| "live_op (Finish p n) l = l(identityKey p n := l (identityKey p n) - 1)"

fun may_op :: "flight_op \<Rightarrow> (string \<Rightarrow> nat) \<Rightarrow> bool" where
  "may_op (Start p n) l = True"
| "may_op (Finish p n) l = (0 < l (identityKey p n))"

fun may_ops :: "flight_op list \<Rightarrow> (string \<Rightarrow> nat) \<Rightarrow> bool" where
  "may_ops [] l = True"
| "may_ops (x # xs) l = (may_op x l \<and> may_ops xs (live_op x l))"

locale request_counter =
  fixes ok :: "'s \<Rightarrow> bool"
    and live :: "'s \<Rightarrow> string \<Rightarrow> nat"
    and exec :: "flight_op \<Rightarrow> 's \<Rightarrow> 's"
  assumes ok_exec: "ok s \<Longrightarrow> may_op x (live s) \<Longrightarrow> ok (exec x s)"
    and live_exec: "ok s \<Longrightarrow> may_op x (live s) \<Longrightarrow> live (exec x s) = live_op x (live s)"
begin

lemma run_refines:
  "ok s \<Longrightarrow> may_ops xs (live s) \<Longrightarrow>
     ok (fold exec xs s) \<and> live (fold exec xs s) = fold live_op xs (live s)"
  by (induction xs arbitrary: s) (simp_all add: ok_exec live_exec)

end

section \<open>The channel implementation keeps the interface\<close>

definition flight_exec :: "flight_op \<Rightarrow> inflight \<Rightarrow> inflight" where
  "flight_exec x f = (case x of Start p n \<Rightarrow> begin_flight p n f | Finish p n \<Rightarrow> end_flight p n f)"

definition running :: "inflight \<Rightarrow> string \<Rightarrow> nat" where
  "running f idn = (case if_perms f idn of None \<Rightarrow> 0 | Some p \<Rightarrow> nat (pm_count p))"

text \<open>
  Counts are never negative, an identity's channel is closed exactly when it is idle, no
  two identities share one, nothing unallocated is closed, and no close panicked.
\<close>

definition inflight_ok :: "inflight \<Rightarrow> bool" where
  "inflight_ok f \<longleftrightarrow>
     \<not> if_panicked f
     \<and> (\<forall>ch \<in> set (if_closed f). ch < if_chans f)
     \<and> (\<forall>i p. if_perms f i = Some p \<longrightarrow>
          0 \<le> pm_count p \<and> pm_zero p < if_chans f \<and> (pm_zero p \<in> set (if_closed f) \<longleftrightarrow> pm_count p = 0))
     \<and> (\<forall>i j p q. if_perms f i = Some p \<longrightarrow> if_perms f j = Some q \<longrightarrow> pm_zero p = pm_zero q \<longrightarrow> i = j)"

lemma no_inflight_ok: "inflight_ok no_inflight"
  by (simp add: inflight_ok_def no_inflight_def)

lemma inflight_okD:
  assumes "inflight_ok f" and "if_perms f i = Some p"
  shows "0 \<le> pm_count p" "pm_zero p < if_chans f" "pm_zero p \<in> set (if_closed f) \<longleftrightarrow> pm_count p = 0"
  using assms unfolding inflight_ok_def by blast+

text \<open>Both operations are one update of an identity's entry.\<close>

lemma begin_flight_cases:
  assumes "inflight_ok f"
  obtains (idle) ch where "running f (identityKey p n) = 0" "if_chans f \<le> ch"
      "begin_flight p n f =
         f\<lparr>if_chans := ch + 1, if_perms := (if_perms f)(identityKey p n \<mapsto> \<lparr>pm_count = 1, pm_zero = ch\<rparr>)\<rparr>"
  | (busy) pm where "if_perms f (identityKey p n) = Some pm" "0 < pm_count pm"
      "begin_flight p n f =
         f\<lparr>if_perms := (if_perms f)(identityKey p n \<mapsto> pm\<lparr>pm_count := pm_count pm + 1\<rparr>)\<rparr>"
proof (cases "if_perms f (identityKey p n)")
  case None
  then show ?thesis
    by (intro idle [of "if_chans f + 1"]) (simp_all add: begin_flight_def make_chan_def running_def Let_def)
next
  case (Some pm)
  show ?thesis
  proof (cases "pm_count pm = 0")
    case True
    with Some show ?thesis
      by (intro idle [of "if_chans f"]; cases pm)
         (simp_all add: begin_flight_def make_chan_def running_def Let_def)
  next
    case False
    with inflight_okD(1) [OF assms Some] Some show ?thesis
      by (intro busy [of pm]) (simp_all add: begin_flight_def Let_def)
  qed
qed

lemma begin_flight_ok:
  assumes "inflight_ok f"
  shows "inflight_ok (begin_flight p n f)
    \<and> running (begin_flight p n f) = (running f)(identityKey p n := running f (identityKey p n) + 1)"
proof (rule begin_flight_cases [OF assms, of p n])
  fix ch
  assume r: "running f (identityKey p n) = 0" and ch: "if_chans f \<le> ch"
    and eq: "begin_flight p n f =
         f\<lparr>if_chans := ch + 1, if_perms := (if_perms f)(identityKey p n \<mapsto> \<lparr>pm_count = 1, pm_zero = ch\<rparr>)\<rparr>"
  have old: "pm_zero q < ch" if "if_perms f j = Some q" for j q
    using inflight_okD(2) [OF assms that] ch by simp
  have "ch \<notin> set (if_closed f)" using assms ch by (auto simp: inflight_ok_def)
  moreover have "x < Suc ch" if "x \<in> set (if_closed f)" for x
    using assms ch that by (force simp: inflight_ok_def)
  ultimately have "inflight_ok (begin_flight p n f)"
    using assms old unfolding eq inflight_ok_def by (auto simp: less_Suc_eq)
  moreover have "running (begin_flight p n f) = (running f)(identityKey p n := running f (identityKey p n) + 1)"
    unfolding eq using r by (auto simp: running_def)
  ultimately show ?thesis by simp
next
  fix pm
  assume pm: "if_perms f (identityKey p n) = Some pm" and pos: "0 < pm_count pm"
    and eq: "begin_flight p n f =
         f\<lparr>if_perms := (if_perms f)(identityKey p n \<mapsto> pm\<lparr>pm_count := pm_count pm + 1\<rparr>)\<rparr>"
  have "inflight_ok (begin_flight p n f)"
    using assms pm pos unfolding eq inflight_ok_def by auto
  moreover have "running (begin_flight p n f) = (running f)(identityKey p n := running f (identityKey p n) + 1)"
    unfolding eq using pm pos by (intro ext) (auto simp: running_def)
  ultimately show ?thesis by simp
qed

lemma end_flight_ok:
  assumes ok: "inflight_ok f" and pos: "0 < running f (identityKey p n)"
  shows "inflight_ok (end_flight p n f)
    \<and> running (end_flight p n f) = (running f)(identityKey p n := running f (identityKey p n) - 1)"
proof -
  obtain pm where pm: "if_perms f (identityKey p n) = Some pm" and c: "0 < pm_count pm"
    using pos by (auto simp: running_def split: option.splits)
  have open_ch: "pm_zero pm \<notin> set (if_closed f)" using inflight_okD(3) [OF ok pm] c by simp
  have others: "pm_zero q \<noteq> pm_zero pm" if "if_perms f j = Some q" "j \<noteq> identityKey p n" for j q
    using ok pm that unfolding inflight_ok_def by blast
  have "inflight_ok (end_flight p n f)"
    using ok pm c open_ch others unfolding inflight_ok_def end_flight_def close_chan_def by (auto simp: Let_def)
  moreover have "running (end_flight p n f) = (running f)(identityKey p n := running f (identityKey p n) - 1)"
    using pm c open_ch by (intro ext) (auto simp: end_flight_def close_chan_def running_def Let_def)
  ultimately show ?thesis by simp
qed

interpretation fl: request_counter inflight_ok running flight_exec
proof
  fix s x
  assume ok: "inflight_ok s" and may: "may_op x (running s)"
  show "inflight_ok (flight_exec x s)"
    using begin_flight_ok [OF ok] end_flight_ok [OF ok] may by (cases x) (auto simp: flight_exec_def)
  show "running (flight_exec x s) = live_op x (running s)"
    using begin_flight_ok [OF ok] end_flight_ok [OF ok] may by (cases x) (auto simp: flight_exec_def)
qed

text \<open>
  C12. The channel counter implements a plain counter per relay: over any history in which
  only running requests end, no channel is closed twice, the counts are those of the
  abstract counter, and \<open>zeroChan\<close> answers nil exactly for a relay without requests.
\<close>

theorem inflight_refines_counter:
  assumes "may_ops xs (\<lambda>_. 0)"
  shows "\<not> if_panicked (fold flight_exec xs no_inflight)
    \<and> running (fold flight_exec xs no_inflight) = fold live_op xs (\<lambda>_. 0)
    \<and> (zeroChan p n (fold flight_exec xs no_inflight) = None
         \<longleftrightarrow> fold live_op xs (\<lambda>_. 0) (identityKey p n) = 0)"
proof -
  let ?f = "fold flight_exec xs no_inflight"
  have zero: "running no_inflight = (\<lambda>_. 0)" by (simp add: fun_eq_iff running_def no_inflight_def)
  have ok: "inflight_ok ?f" and run: "running ?f = fold live_op xs (\<lambda>_. 0)"
    using fl.run_refines [OF no_inflight_ok] assms by (simp_all add: zero)
  have "zeroChan p n ?f = None \<longleftrightarrow> running ?f (identityKey p n) = 0"
    using inflight_okD(1) [OF ok] by (auto simp: zeroChan_def running_def split: option.split) fastforce
  with ok run show ?thesis by (simp add: inflight_ok_def)
qed

theorem inflight_refines_counter_witness:
  "\<not> if_panicked (fold flight_exec [Start ''deno'' ''a'', Start ''deno'' ''a'', Finish ''deno'' ''a''] no_inflight)
   \<and> zeroChan ''deno'' ''a'' (fold flight_exec [Start ''deno'' ''a'', Start ''deno'' ''a'', Finish ''deno'' ''a''] no_inflight) \<noteq> None"
  using inflight_refines_counter
    [of "[Start ''deno'' ''a'', Start ''deno'' ''a'', Finish ''deno'' ''a'']" "''deno''" "''a''"]
  by simp

section \<open>AwaitIdle\<close>

text \<open>
  The waiter: about to ask for the channel, parked in the \<open>select\<close> on it, or returned. The
  input says which ready branch the \<open>select\<close> takes; the channel branch is ready once the
  channel is closed, the timer and the context are the environment's.
\<close>

datatype waiter = AW_Check | AW_Select chan | AW_Done bool

datatype wake = W_Chan | W_Timer | W_Ctx

fun await_step :: "string \<Rightarrow> string \<Rightarrow> wake \<Rightarrow> inflight \<Rightarrow> waiter \<Rightarrow> waiter option" where
  "await_step p n i f AW_Check =
     Some (case zeroChan p n f of None \<Rightarrow> AW_Done True | Some ch \<Rightarrow> AW_Select ch)"
| "await_step p n i f (AW_Select ch) =
     (case i of
        W_Chan \<Rightarrow> if ch \<in> set (if_closed f) then Some AW_Check else None
      | W_Timer \<Rightarrow> Some (AW_Done False)
      | W_Ctx \<Rightarrow> Some (AW_Done False))"
| "await_step p n i f (AW_Done b) = None"

text \<open>A run interleaves requests beginning and ending with the steps of the waiter.\<close>

fun await_run :: "string \<Rightarrow> string \<Rightarrow> (flight_op + wake) list \<Rightarrow> inflight \<times> waiter \<Rightarrow> (inflight \<times> waiter) option" where
  "await_run p n [] fw = Some fw"
| "await_run p n (Inl x # es) (f, w) =
     (if may_op x (running f) then await_run p n es (flight_exec x f, w) else None)"
| "await_run p n (Inr i # es) (f, w) =
     (case await_step p n i f w of None \<Rightarrow> None | Some w' \<Rightarrow> await_run p n es (f, w'))"

text \<open>A parked waiter holds the channel of a busy relay, or one that has been closed since.\<close>

definition waiter_ok :: "string \<Rightarrow> string \<Rightarrow> inflight \<times> waiter \<Rightarrow> bool" where
  "waiter_ok p n fw \<longleftrightarrow>
     inflight_ok (fst fw)
     \<and> (case snd fw of
          AW_Select ch \<Rightarrow> ch \<in> set (if_closed (fst fw)) \<or> zeroChan p n (fst fw) = Some ch
        | _ \<Rightarrow> True)"

lemma closed_stays: "ch \<in> set (if_closed f) \<Longrightarrow> ch \<in> set (if_closed (flight_exec x f))"
  by (cases x)
     (auto simp: flight_exec_def begin_flight_def end_flight_def close_chan_def make_chan_def Let_def
       split: option.split)

lemma zeroChan_after:
  assumes ok: "inflight_ok f" and z: "zeroChan p n f = Some ch" and may: "may_op x (running f)"
  shows "ch \<in> set (if_closed (flight_exec x f)) \<or> zeroChan p n (flight_exec x f) = Some ch"
proof (cases x)
  case (Start p' n')
  show ?thesis
  proof (cases "identityKey p' n' = identityKey p n")
    case True
    then obtain pm where pm: "if_perms f (identityKey p' n') = Some pm" "pm_count pm \<noteq> 0" "pm_zero pm = ch"
      using z by (auto simp: zeroChan_def split: option.splits if_splits)
    with True inflight_okD(1) [OF ok pm(1)] show ?thesis
      by (simp add: Start flight_exec_def begin_flight_def zeroChan_def Let_def)
  next
    case False
    with z show ?thesis
      by (auto simp: Start flight_exec_def begin_flight_def make_chan_def zeroChan_def Let_def
          split: option.splits if_splits)
  qed
next
  case (Finish p' n')
  with z show ?thesis
    by (auto simp: flight_exec_def zeroChan_def end_flight_def close_chan_def Let_def split: option.splits if_splits)
qed

lemma waiter_ok_run:
  "await_run p n es fw = Some fw' \<Longrightarrow> waiter_ok p n fw \<Longrightarrow> waiter_ok p n fw'"
proof (induction p n es fw rule: await_run.induct)
  case (1 p n fw)
  then show ?case by simp
next
  case (2 p n x es f w)
  then have may: "may_op x (running f)" and ok: "inflight_ok f" by (auto simp: waiter_ok_def split: if_splits)
  have "waiter_ok p n (flight_exec x f, w)"
    using 2(3) fl.ok_exec [OF ok may] closed_stays [of _ f x] zeroChan_after [OF ok _ may, of p n]
    by (auto simp: waiter_ok_def split: waiter.splits)
  with 2 may show ?case by simp
next
  case (3 p n i es f w)
  then obtain w' where w': "await_step p n i f w = Some w'" by (auto split: option.splits)
  have "waiter_ok p n (f, w')"
    using 3(3) w' by (cases w) (auto simp: waiter_ok_def split: option.splits wake.splits if_splits)
  with 3 w' show ?case by simp
qed

lemma zeroChan_idle: "inflight_ok f \<Longrightarrow> zeroChan p n f = None \<longleftrightarrow> running f (identityKey p n) = 0"
  using inflight_okD(1) [of f] by (auto simp: zeroChan_def running_def split: option.split) fastforce

text \<open>
  C11. The drain wait is exact and loses no wakeup. However requests and the waiter
  interleave: when the relay is idle, the waiter is at most two of its own steps from
  reporting success, needing neither the timer nor the context; and it reports success
  only at an instant at which the relay carries no request.
\<close>

theorem drain_wait_exact:
  assumes "await_run p n es (no_inflight, AW_Check) = Some (f, w)"
  shows "(running f (identityKey p n) = 0 \<and> (\<forall>b. w \<noteq> AW_Done b) \<longrightarrow>
            await_run p n [Inr W_Chan] (f, w) = Some (f, AW_Done True)
            \<or> await_run p n [Inr W_Chan, Inr W_Chan] (f, w) = Some (f, AW_Done True))
         \<and> (\<forall>i. await_step p n i f w = Some (AW_Done True) \<longrightarrow> running f (identityKey p n) = 0)"
proof -
  have ok: "waiter_ok p n (f, w)"
    by (rule waiter_ok_run [OF assms]) (simp add: waiter_ok_def no_inflight_ok)
  then have f: "inflight_ok f" by (simp add: waiter_ok_def)
  note idle = zeroChan_idle [OF f, of p n]
  have "running f (identityKey p n) = 0" if "await_step p n i f w = Some (AW_Done True)" for i
    using that idle by (cases w; cases i) (auto split: option.splits if_splits)
  moreover have "running f (identityKey p n) = 0 \<and> (\<forall>b. w \<noteq> AW_Done b) \<longrightarrow>
      await_run p n [Inr W_Chan] (f, w) = Some (f, AW_Done True)
      \<or> await_run p n [Inr W_Chan, Inr W_Chan] (f, w) = Some (f, AW_Done True)"
    using ok idle by (cases w) (auto simp: waiter_ok_def)
  ultimately show ?thesis by blast
qed

definition w_parked :: "inflight \<times> waiter" where
  "w_parked = the (await_run ''deno'' ''a'' [Inl (Start ''deno'' ''a''), Inr W_Chan, Inl (Finish ''deno'' ''a'')]
                (no_inflight, AW_Check))"

lemma w_parked_eq:
  "w_parked = (\<lparr>if_perms = [''deno/a'' \<mapsto> \<lparr>pm_count = 0, pm_zero = 1\<rparr>], if_chans = 2, if_closed = [1],
                if_panicked = False\<rparr>, AW_Select 1)"
  "await_run ''deno'' ''a'' [Inl (Start ''deno'' ''a''), Inr W_Chan, Inl (Finish ''deno'' ''a'')] (no_inflight, AW_Check)
     = Some w_parked"
  by (simp_all add: w_parked_def flight_exec_def begin_flight_def end_flight_def make_chan_def close_chan_def
      zeroChan_def running_def identityKey_def no_inflight_def)

theorem drain_wait_exact_witness:
  "await_run ''deno'' ''a'' [Inr W_Chan] w_parked = Some (fst w_parked, AW_Done True)
   \<or> await_run ''deno'' ''a'' [Inr W_Chan, Inr W_Chan] w_parked = Some (fst w_parked, AW_Done True)"
proof -
  have "running (fst w_parked) (identityKey ''deno'' ''a'') = 0" "snd w_parked = AW_Select 1"
    by (simp_all add: w_parked_eq(1) running_def identityKey_def)
  then show ?thesis
    using drain_wait_exact [of "''deno''" "''a''" _ "fst w_parked" "snd w_parked"] w_parked_eq(2)
    by (metis prod.collapse waiter.distinct(5))
qed

end
