(* ===== verification/Gateway.thy ===== *)
theory Gateway
  imports Gateway_Request Inflight Probe
begin

text \<open>
  The data plane of \<open>internal/gateway/gateway.go\<close>: the serving state and its swap, the relay
  pipeline with failover, the control endpoints and the dispatch.

  A request runs as a list of turns, one per pass of the retry loop. A turn holds what the
  outside contributes: what other threads do before the pick, after it, and while the
  response is copied; the clock readings; and how the relay answers. The sections under
  the mutex are atomic, so other threads act only between them. A schedule that is too
  short gives None, which is not an outcome of the code.
\<close>

section \<open>State\<close>

record lifecycle_row =
  lc_name :: string
  lc_provider :: string
  lc_state :: string
  lc_reason :: string
  lc_generation :: nat

text \<open>\<open>gs_client\<close> is the identity of the outbound client.\<close>

record gstate =
  gs_pool :: pool
  gs_client :: nat
  gs_maxRetries :: int
  gs_maxBufferBytes :: int
  gs_streamThresholdBytes :: int
  gs_lifecycle :: "lifecycle_row list"

text \<open>
  The gateway with the process-lifetime runtime state and the store of endpoint health;
  \<open>g_retired\<close> lists the clients whose idle connections \<open>Swap\<close> closed.
\<close>

record gateway =
  g_st :: gstate
  g_inflight :: inflight
  g_draining :: bool
  g_version :: string
  g_relayVersion :: string
  g_rt :: runtime
  g_store :: store
  g_retired :: "nat list"

definition New_gateway :: "gstate \<Rightarrow> string \<Rightarrow> string \<Rightarrow> runtime \<times> store \<Rightarrow> gateway" where
  "New_gateway st version relayVersion rs =
     \<lparr>g_st = st, g_inflight = no_inflight, g_draining = False, g_version = version,
      g_relayVersion = relayVersion, g_rt = fst rs, g_store = snd rs, g_retired = []\<rparr>"

definition Swap :: "gstate \<Rightarrow> gateway \<Rightarrow> gateway" where
  "Swap st g =
    (let old = g_st g; g' = g\<lparr>g_st := st\<rparr>
     in if gs_client old \<noteq> gs_client st then g'\<lparr>g_retired := gs_client old # g_retired g'\<rparr> else g')"

definition BeginDrain :: "gateway \<Rightarrow> gateway" where
  "BeginDrain g = g\<lparr>g_draining := True\<rparr>"

text \<open>What other threads do: swaps, requests beginning and ending, health and cursors moving.\<close>

datatype other = O_Swap gstate | O_Flight flight_op | O_Drain | O_Runtime "runtime \<times> store"

fun apply_other :: "other \<Rightarrow> gateway \<Rightarrow> gateway" where
  "apply_other (O_Swap st) g = Swap st g"
| "apply_other (O_Flight x) g = g\<lparr>g_inflight := flight_exec x (g_inflight g)\<rparr>"
| "apply_other O_Drain g = BeginDrain g"
| "apply_other (O_Runtime rs) g = g\<lparr>g_rt := fst rs, g_store := snd rs\<rparr>"

section \<open>Answers, replies, log lines\<close>

text \<open>
  How an attempt ends outside: an error before any response, or a response with what of
  its body could be copied; each with whether the request context was dead by then.
\<close>

record response =
  ra_status :: int
  ra_header :: header
  ra_body :: string
  ra_copyErr :: "string option"
  ra_ctxDead :: bool

datatype answer = Ans_Err string bool | Ans_Resp response

record turn =
  tn_before :: "other list"
  tn_pickAt :: instant
  tn_during :: "other list"
  tn_answer :: "out_request \<Rightarrow> answer"
  tn_copying :: "other list"
  tn_failedAt :: instant

record stats_doc =
  sd_version :: string
  sd_relayVersion :: string
  sd_relays :: "stats_row list"
  sd_ready :: bool
  sd_readyRelays :: nat
  sd_lifecycle :: "lifecycle_row list"

datatype reply =
    Rp_Json int string
  | Rp_Response int header string
  | Rp_Nothing
  | Rp_Healthz
  | Rp_Stats stats_doc
  | Rp_Readyz int bool nat

datatype outcome = SkippedBySize | UpstreamPreResponse | ClientAborted | Relayed | UpstreamMidstream

record log_line =
  lg_outcome :: outcome
  lg_name :: string
  lg_provider :: string
  lg_incarnation :: nat

definition line :: "outcome \<Rightarrow> relay \<Rightarrow> log_line" where
  "line out rl = \<lparr>lg_outcome = out, lg_name = r_name rl, lg_provider = r_provider rl,
                lg_incarnation = r_incarnation rl\<rparr>"

section \<open>The relay pipeline\<close>

definition unavailable :: "string \<Rightarrow> reply" where
  "unavailable key = Rp_Json 503 (''no relay configured for '' @ key)"

text \<open>The \<open>switch\<close> on the bytes read: kept, streamed on, or too large.\<close>

definition acquired :: "gstate \<Rightarrow> request \<Rightarrow> int \<Rightarrow> string \<Rightarrow> reply + (string \<times> string option)" where
  "acquired st r readCap buffered =
     (if int (length buffered) \<le> readCap then Inr (buffered, None)
      else if gs_streamThresholdBytes st > 0 then Inr ([], Some (rq_body r))
      else Inl (Rp_Json 413 (''body exceeds every configured provider limit (''
                  @ itoa (gs_maxBufferBytes st) @ '' bytes)'')))"

text \<open>
  Body acquisition: a reply, or the buffered body, or the live one. The limit of the reader
  is an \<open>int64\<close>, one above the cap; a reader with a limit of zero or less is at its end. A
  read error counts only when it strikes within the bytes read.
\<close>

definition acquire :: "gstate \<Rightarrow> request \<Rightarrow> reply + (string \<times> string option)" where
  "acquire st r =
    (if gs_streamThresholdBytes st > 0 \<and> rq_contentLength r > gs_streamThresholdBytes st
     then Inr ([], Some (rq_body r))
     else
       (let readCap = (if gs_streamThresholdBytes st > 0 then gs_streamThresholdBytes st
                       else gs_maxBufferBytes st);
            limit = wrap64 (readCap + 1);
            buffered = take (nat limit) (rq_body r)
        in case rq_bodyErr r of
             Some (n, e) \<Rightarrow>
               if int n < limit then Inl (Rp_Json 400 (''read request body: '' @ ErrorString (Some e)))
               else acquired st r readCap buffered
           | None \<Rightarrow> acquired st r readCap buffered))"

record attempts =
  at_made :: int
  at_skipped :: int
  at_err :: "string option"
  at_log :: "log_line list"

definition no_attempts :: attempts where
  "no_attempts = \<lparr>at_made = 0, at_skipped = 0, at_err = None, at_log = []\<rparr>"

definition log_to :: "log_line \<Rightarrow> attempts \<Rightarrow> attempts" where
  "log_to l a = a\<lparr>at_log := at_log a @ [l]\<rparr>"

text \<open>After the loop: the body fits nothing, or every attempt failed.\<close>

definition exhausted :: "string \<Rightarrow> string \<Rightarrow> attempts \<Rightarrow> reply" where
  "exhausted key body a =
     (if at_skipped a = at_made a \<and> at_skipped a > 0
      then Rp_Json 413 (''body of '' @ itoa (int (length body)) @ '' bytes exceeds the '' @ key @ '' provider limit'')
      else Rp_Json 502 (''all attempts failed: '' @ ErrorString (at_err a)))"

text \<open>The locked section of a pass: budget, pick and registration on the current state.\<close>

definition budget_of :: "gstate \<Rightarrow> bool \<Rightarrow> int" where
  "budget_of st streaming = (if streaming then 1 else gs_maxRetries st + 1)"

definition pick_and_begin :: "string \<Rightarrow> instant \<Rightarrow> gateway \<Rightarrow> relay option \<times> gateway" where
  "pick_and_begin key now g =
    (let cur = g_st g;
         (rl, rt, p) = Pick (g_store g) now (g_rt g, gs_pool cur) key;
         g1 = g\<lparr>g_rt := rt, g_st := cur\<lparr>gs_pool := p\<rparr>\<rparr>
     in case rl of
          None \<Rightarrow> (None, g1)
        | Some x \<Rightarrow> (Some x, g1\<lparr>g_inflight := begin_flight (r_provider x) (r_name x) (g_inflight g1)\<rparr>))"

definition finish :: "relay \<Rightarrow> gateway \<Rightarrow> gateway" where
  "finish rl g = g\<lparr>g_inflight := end_flight (r_provider rl) (r_name rl) (g_inflight g)\<rparr>"

definition on_store :: "(store \<Rightarrow> store) \<Rightarrow> gateway \<Rightarrow> gateway" where
  "on_store f g = g\<lparr>g_store := f (g_store g)\<rparr>"

text \<open>What a response means: success only when it completed for a client that is still there.\<close>

definition settle_response ::
    "pool \<Rightarrow> relay \<Rightarrow> response \<Rightarrow> instant \<Rightarrow> attempts \<times> gateway \<Rightarrow> attempts \<times> gateway" where
  "settle_response p rl resp now ag =
    (let (a, g) = ag in
     if ra_copyErr resp = None \<and> \<not> ra_ctxDead resp then (a, on_store (RecordSuccess rl) g)
     else if ra_ctxDead resp then (log_to (line ClientAborted rl) a, g)
     else (log_to (line UpstreamMidstream rl) a,
           on_store (upd_cell (r_state rl) count_midstream)
             (on_store (RecordFailure p rl (ra_copyErr resp) now) g)))"

text \<open>One pass: the final reply (Inl) or another pass (Inr).\<close>

definition attempt ::
    "request \<Rightarrow> string \<Rightarrow> string \<Rightarrow> string option \<Rightarrow> turn \<Rightarrow> attempts \<times> gateway
      \<Rightarrow> (reply \<times> attempts \<times> gateway) + (attempts \<times> gateway)" where
  "attempt r key body live t ag =
    (let (a, g0) = ag;
         streaming = (live \<noteq> None);
         g = fold apply_other (tn_before t) g0;
         cur = g_st g
     in if at_made a \<ge> budget_of cur streaming then Inl (exhausted key body a, a, g)
        else
          (case pick_and_begin key (tn_pickAt t) g of
             (None, g1) \<Rightarrow> Inl (unavailable key, a, g1)
           | (Some rl, g1) \<Rightarrow>
               (let a1 = a\<lparr>at_made := at_made a + 1\<rparr>;
                    g2 = fold apply_other (tn_during t) g1
                in if \<not> streaming \<and> int (length body) > r_maxBody rl
                   then Inr (log_to (line SkippedBySize rl) (a1\<lparr>at_skipped := at_skipped a1 + 1\<rparr>),
                             fold apply_other (tn_copying t) (finish rl g2))
                   else
                     (case tn_answer t (out_request_of r rl body live) of
                        Ans_Err e dead \<Rightarrow>
                          (let g3 = fold apply_other (tn_copying t) (finish rl g2)
                           in if dead then Inl (Rp_Nothing, log_to (line ClientAborted rl) a1, g3)
                              else
                                (let a2 = log_to (line UpstreamPreResponse rl) (a1\<lparr>at_err := Some e\<rparr>);
                                     g4 = on_store (RecordFailure (gs_pool cur) rl (Some e) (tn_failedAt t)) g3
                                 in if streaming
                                    then Inl (Rp_Json 502 (''streaming request failed: '' @ ErrorString (Some e)), a2, g4)
                                    else Inr (a2, g4)))
                      | Ans_Resp resp \<Rightarrow>
                          (let g3 = on_store (upd_cell (r_state rl) count_request) g2;
                               g4 = finish rl (fold apply_other (tn_copying t) g3);
                               ag5 = settle_response (gs_pool cur) rl resp (tn_failedAt t)
                                       (log_to (line Relayed rl) a1, g4)
                           in Inl (Rp_Response (ra_status resp) (copyResponseHeader [] (ra_header resp)) (ra_body resp),
                                   ag5))))))"

fun relay_loop ::
    "request \<Rightarrow> string \<Rightarrow> string \<Rightarrow> string option \<Rightarrow> turn list \<Rightarrow> attempts \<times> gateway
      \<Rightarrow> (reply \<times> attempts \<times> gateway) option" where
  "relay_loop r key body live [] ag = None"
| "relay_loop r key body live (t # ts) ag =
     (case attempt r key body live t ag of
        Inl res \<Rightarrow> Some res
      | Inr ag' \<Rightarrow> relay_loop r key body live ts ag')"

definition selector :: "string \<Rightarrow> string" where
  "selector provider = (if provider = [] then KeyAll else provider)"

definition relay_pipeline ::
    "request \<Rightarrow> string \<Rightarrow> turn list \<Rightarrow> gateway \<Rightarrow> (reply \<times> attempts \<times> gateway) option" where
  "relay_pipeline r provider ts g =
    (let st = g_st g; key = selector provider
     in if ReadyCount_pool (gs_pool st) = 0 then Some (unavailable key, no_attempts, g)
        else (case acquire st r of
                Inl rep \<Rightarrow> Some (rep, no_attempts, g)
              | Inr (body, live) \<Rightarrow> relay_loop r key body live ts (no_attempts, g)))"

section \<open>Entry points\<close>

definition handleRelay :: "request \<Rightarrow> turn list \<Rightarrow> gateway \<Rightarrow> (reply \<times> attempts \<times> gateway) option" where
  "handleRelay r ts g =
    (let (provider, ok) = parseProvider r (gs_pool (g_st g)) in
     if \<not> ok then
       Some (Rp_Json 404 (''unknown provider: use /{provider} prefix or '' @ HeaderProvider
               @ '' header (root / = round-robin all)''), no_attempts, g)
     else relay_pipeline r provider ts g)"

definition handleProxy :: "request \<Rightarrow> turn list \<Rightarrow> gateway \<Rightarrow> (reply \<times> attempts \<times> gateway) option" where
  "handleProxy r ts g =
    (if rq_method r = ''CONNECT'' then
       Some (Rp_Json 501 ''CONNECT tunneling is not supported; send absolute-form http(s) requests'', no_attempts, g)
     else
       (let (provider, ok, present) = headerProvider r (gs_pool (g_st g)) in
        if \<not> ok then
          Some (Rp_Json 404 (''unknown provider: '' @ HeaderProvider @ '' header (no header = round-robin all)''),
                no_attempts, g)
        else relay_pipeline (proxy_request r) provider ts g))"

definition handleStats :: "instant \<Rightarrow> gateway \<Rightarrow> reply" where
  "handleStats now g =
    (let st = g_st g; ready = ReadyCount_pool (gs_pool st) in
     Rp_Stats \<lparr>sd_version = g_version g, sd_relayVersion = g_relayVersion g,
               sd_relays = Stats (g_store g) now (gs_pool st), sd_ready = ready > 0,
               sd_readyRelays = ready, sd_lifecycle = gs_lifecycle st\<rparr>)"

definition handleReadyz :: "gateway \<Rightarrow> reply" where
  "handleReadyz g =
    (let ready = ReadyCount_pool (gs_pool (g_st g)) in
     if ready = 0 then Rp_Readyz 503 False 0 else Rp_Readyz 200 True ready)"

definition ServeHTTP :: "request \<Rightarrow> instant \<Rightarrow> turn list \<Rightarrow> gateway \<Rightarrow> (reply \<times> attempts \<times> gateway) option" where
  "ServeHTTP r now ts g =
    (if rq_method r = ''CONNECT'' \<or> u_host (rq_url r) \<noteq> [] then handleProxy r ts g
     else if u_path (rq_url r) = ''/healthz'' then Some (Rp_Healthz, no_attempts, g)
     else if u_path (rq_url r) = ''/stats'' then Some (handleStats now g, no_attempts, g)
     else if u_path (rq_url r) = ''/readyz'' then Some (handleReadyz g, no_attempts, g)
     else handleRelay r ts g)"

section \<open>Client cache\<close>

text \<open>\<open>internal/gateway/clientcache.go\<close>: one client per pair of timeouts, never replaced.\<close>

record client_cache =
  cc_m :: "((duration \<times> duration) \<times> nat) list"
  cc_next :: nat
  cc_closed :: "nat list"

definition NewClientCache :: client_cache where
  "NewClientCache = \<lparr>cc_m = [], cc_next = 0, cc_closed = []\<rparr>"

definition Client :: "duration \<Rightarrow> duration \<Rightarrow> client_cache \<Rightarrow> nat \<times> client_cache" where
  "Client dialTimeout headerTimeout cc =
    (case map_of (cc_m cc) (dialTimeout, headerTimeout) of
       Some c \<Rightarrow> (c, cc)
     | None \<Rightarrow> (cc_next cc, cc\<lparr>cc_m := AList.update (dialTimeout, headerTimeout) (cc_next cc) (cc_m cc),
                              cc_next := cc_next cc + 1\<rparr>))"

definition CloseAll :: "client_cache \<Rightarrow> client_cache" where
  "CloseAll cc = cc\<lparr>cc_closed := map snd (cc_m cc) @ cc_closed cc\<rparr>"

end
