(* ===== verification/Gateway_Laws.thy ===== *)
theory Gateway_Laws
  imports Gateway "HOL-Library.Sublist"
begin

text \<open>
  The facts the data-plane properties share: what one pass of the retry loop does to each
  part of the state, and an induction principle for the loop.
\<close>

section \<open>The loop\<close>

lemma relay_loop_rule:
  assumes "relay_loop r key body live ts ag = Some res"
    and "P ag"
    and "\<And>t ag ag'. t \<in> set ts \<Longrightarrow> P ag \<Longrightarrow> attempt r key body live t ag = Inr ag' \<Longrightarrow> P ag'"
    and "\<And>t ag res. t \<in> set ts \<Longrightarrow> P ag \<Longrightarrow> attempt r key body live t ag = Inl res \<Longrightarrow> Q res"
  shows "Q res"
  using assms
proof (induction ts arbitrary: ag)
  case Nil
  then show ?case by simp
next
  case (Cons t ts)
  show ?case
  proof (cases "attempt r key body live t ag")
    case (Inl x)
    with Cons.prems(1,2) Cons.prems(4) [of t ag x] show ?thesis by simp
  next
    case (Inr ag')
    with Cons.prems(1) have "relay_loop r key body live ts ag' = Some res" by simp
    moreover have "P ag'" using Cons.prems(2) Cons.prems(3) [of t ag ag'] Inr by simp
    ultimately show ?thesis
    proof (rule Cons.IH)
      show "P ag2" if "t' \<in> set ts" "P ag1" "attempt r key body live t' ag1 = Inr ag2" for t' ag1 ag2
        using that by (intro Cons.prems(3) [of t' ag1 ag2]) simp_all
      show "Q res'" if "t' \<in> set ts" "P ag1" "attempt r key body live t' ag1 = Inl res'" for t' ag1 res'
        using that by (intro Cons.prems(4) [of t' ag1 res']) simp_all
    qed
  qed
qed

text \<open>The state a pass binds to, and the outcomes of a pass.\<close>

definition entered :: "turn \<Rightarrow> gateway \<Rightarrow> gateway" where
  "entered t g = fold apply_other (tn_before t) g"

lemmas attempt_unfold = attempt_def entered_def [symmetric] Let_def

lemma attempt_Inr:
  assumes "attempt r key body live t (a, g) = Inr (a', g')"
  shows "live = None \<and> at_made a < budget_of (g_st (entered t g)) False \<and> at_made a' = at_made a + 1"
  using assms
  by (auto simp: attempt_unfold log_to_def split: if_splits option.splits prod.splits answer.splits)

lemma attempt_Inl_made:
  assumes "attempt r key body live t (a, g) = Inl (rep, a', g')"
  shows "at_made a' = at_made a
      \<or> at_made a' = at_made a + 1 \<and> at_made a < budget_of (g_st (entered t g)) (live \<noteq> None)"
  using assms
  by (auto simp: attempt_unfold log_to_def settle_response_def
      split: if_splits option.splits prod.splits answer.splits)

section \<open>Serving state\<close>

definition bounded_others :: "int \<Rightarrow> other list \<Rightarrow> bool" where
  "bounded_others m os \<longleftrightarrow> list_all (\<lambda>x. case x of O_Swap st \<Rightarrow> gs_maxRetries st \<le> m | _ \<Rightarrow> True) os"

definition bounded_turn :: "int \<Rightarrow> turn \<Rightarrow> bool" where
  "bounded_turn m t \<longleftrightarrow>
     bounded_others m (tn_before t) \<and> bounded_others m (tn_during t) \<and> bounded_others m (tn_copying t)"

lemma Swap_st [simp]: "g_st (Swap st g) = st" "g_inflight (Swap st g) = g_inflight g"
  "g_store (Swap st g) = g_store g"
  by (simp_all add: Swap_def Let_def)

lemma others_retries:
  "gs_maxRetries (g_st g) \<le> m \<Longrightarrow> bounded_others m os \<Longrightarrow>
     gs_maxRetries (g_st (fold apply_other os g)) \<le> m"
proof (induction os arbitrary: g)
  case (Cons x os)
  then show ?case by (cases x) (auto simp: bounded_others_def BeginDrain_def)
qed simp

lemma finish_frame [simp]: "g_st (finish rl g) = g_st g" "g_store (finish rl g) = g_store g"
  by (simp_all add: finish_def)

lemma on_store_frame [simp]: "g_st (on_store f g) = g_st g" "g_inflight (on_store f g) = g_inflight g"
  "g_store (on_store f g) = f (g_store g)"
  by (simp_all add: on_store_def)

lemma pick_retries:
  "pick_and_begin key now g = (x, g') \<Longrightarrow> gs_maxRetries (g_st g') = gs_maxRetries (g_st g)"
  by (auto simp: pick_and_begin_def Let_def split: prod.splits option.splits)

lemma attempt_retries:
  assumes "attempt r key body live t (a, g) = Inr (a', g')"
    and "gs_maxRetries (g_st g) \<le> m" and "bounded_turn m t"
  shows "gs_maxRetries (g_st (entered t g)) \<le> m \<and> gs_maxRetries (g_st g') \<le> m"
proof -
  have b: "gs_maxRetries (g_st (entered t g)) \<le> m"
    unfolding entered_def using assms(2,3) by (intro others_retries) (simp_all add: bounded_turn_def)
  have "gs_maxRetries (g_st (fold apply_other (tn_copying t) (finish rl (fold apply_other (tn_during t) g1)))) \<le> m"
    if "pick_and_begin key (tn_pickAt t) (entered t g) = (x, g1)" for rl x g1
    using b assms(3) pick_retries [OF that] by (simp add: bounded_turn_def others_retries)
  with b assms(1) show ?thesis
    by (auto simp: attempt_unfold split: if_splits option.splits prod.splits answer.splits)
qed

section \<open>Requests in flight\<close>

definition flights :: "other list \<Rightarrow> flight_op list" where
  "flights os = concat (map (\<lambda>x. case x of O_Flight f \<Rightarrow> [f] | _ \<Rightarrow> []) os)"

definition turn_flights :: "turn \<Rightarrow> flight_op list" where
  "turn_flights t = flights (tn_before t) @ flights (tn_during t) @ flights (tn_copying t)"

definition plus_one :: "string \<Rightarrow> (string \<Rightarrow> nat) \<Rightarrow> string \<Rightarrow> nat" where
  "plus_one i l = l(i := l i + 1)"

lemma others_inflight: "g_inflight (fold apply_other os g) = fold flight_exec (flights os) (g_inflight g)"
proof (induction os arbitrary: g)
  case (Cons x os)
  then show ?case by (cases x) (simp_all add: flights_def BeginDrain_def)
qed (simp add: flights_def)

lemma may_ops_append: "may_ops (xs @ ys) l \<longleftrightarrow> may_ops xs l \<and> may_ops ys (fold live_op xs l)"
  by (induction xs arbitrary: l) auto

text \<open>One more running request does not disturb the others.\<close>

lemma plus_one_op: "may_op x l \<Longrightarrow> may_op x (plus_one i l) \<and> live_op x (plus_one i l) = plus_one i (live_op x l)"
  by (cases x) (auto simp: plus_one_def fun_eq_iff)

lemma plus_one_ops:
  "may_ops xs l \<Longrightarrow> may_ops xs (plus_one i l) \<and> fold live_op xs (plus_one i l) = plus_one i (fold live_op xs l)"
  by (induction xs arbitrary: l) (simp_all add: plus_one_op)

text \<open>\<open>counts g l\<close>: the counter is sound and shows \<open>l\<close>.\<close>

definition counts :: "gateway \<Rightarrow> (string \<Rightarrow> nat) \<Rightarrow> bool" where
  "counts g l \<longleftrightarrow> inflight_ok (g_inflight g) \<and> running (g_inflight g) = l"

lemma counts_others:
  "counts g l \<Longrightarrow> may_ops (flights os) l \<Longrightarrow> counts (fold apply_other os g) (fold live_op (flights os) l)"
  using fl.run_refines [of "g_inflight g" "flights os"] by (simp add: counts_def others_inflight)

lemma counts_begin:
  "counts g l \<Longrightarrow> pick_and_begin key now g = (Some rl, g') \<Longrightarrow>
     counts g' (plus_one (identityKey (r_provider rl) (r_name rl)) l)"
  using begin_flight_ok [of "g_inflight g" "r_provider rl" "r_name rl"]
  by (auto simp: pick_and_begin_def counts_def plus_one_def Let_def split: prod.splits option.splits)

lemma counts_unpicked: "counts g l \<Longrightarrow> pick_and_begin key now g = (None, g') \<Longrightarrow> counts g' l"
  by (auto simp: pick_and_begin_def counts_def Let_def split: prod.splits option.splits)

lemma counts_finish:
  "counts g (plus_one (identityKey (r_provider rl) (r_name rl)) l) \<Longrightarrow> counts (finish rl g) l"
  using end_flight_ok [of "g_inflight g" "r_provider rl" "r_name rl"]
  by (auto simp: counts_def finish_def plus_one_def)

lemma counts_store [simp]: "counts (on_store f g) l = counts g l"
  by (simp add: counts_def)

lemma settle_counts: "settle_response p rl resp now (a, g) = (a', g') \<Longrightarrow> \<forall>l. counts g' l = counts g l"
  by (auto simp: settle_response_def split: if_splits)

text \<open>What the section after a pick leaves: others in between, then the release.\<close>

lemma counts_attempt:
  assumes "counts g l" and "may_ops (turn_flights t) l"
    and "pick_and_begin key (tn_pickAt t) (entered t g) = (Some rl, g1)"
  shows "counts (fold apply_other (tn_copying t) (finish rl (fold apply_other (tn_during t) g1)))
           (fold live_op (turn_flights t) l)"
    and "counts (finish rl (fold apply_other (tn_copying t) (on_store f (fold apply_other (tn_during t) g1))))
           (fold live_op (turn_flights t) l)"
proof -
  let ?i = "identityKey (r_provider rl) (r_name rl)"
  let ?l1 = "fold live_op (flights (tn_before t)) l"
  let ?l2 = "fold live_op (flights (tn_during t)) ?l1"
  have may: "may_ops (flights (tn_before t)) l" "may_ops (flights (tn_during t)) ?l1"
    "may_ops (flights (tn_copying t)) ?l2"
    using assms(2) by (simp_all add: turn_flights_def may_ops_append)
  have "counts (entered t g) ?l1" unfolding entered_def by (rule counts_others [OF assms(1) may(1)])
  from counts_others [OF counts_begin [OF this assms(3)], of "tn_during t"] plus_one_ops [OF may(2), of ?i]
  have during: "counts (fold apply_other (tn_during t) g1) (plus_one ?i ?l2)" by simp
  show "counts (fold apply_other (tn_copying t) (finish rl (fold apply_other (tn_during t) g1)))
          (fold live_op (turn_flights t) l)"
    using counts_others [OF counts_finish [OF during] may(3)] by (simp add: turn_flights_def)
  have "counts (fold apply_other (tn_copying t) (on_store f (fold apply_other (tn_during t) g1)))
          (plus_one ?i (fold live_op (flights (tn_copying t)) ?l2))"
    using counts_others [of "on_store f (fold apply_other (tn_during t) g1)" "plus_one ?i ?l2" "tn_copying t"]
      during plus_one_ops [OF may(3), of ?i]
    by simp
  from counts_finish [OF this]
  show "counts (finish rl (fold apply_other (tn_copying t) (on_store f (fold apply_other (tn_during t) g1))))
          (fold live_op (turn_flights t) l)"
    by (simp add: turn_flights_def)
qed

lemma attempt_Inr_counts:
  assumes "attempt r key body live t (a, g) = Inr (a', g')" and "counts g l" and "may_ops (turn_flights t) l"
  shows "counts g' (fold live_op (turn_flights t) l)"
  using assms(1) counts_attempt(1) [OF assms(2,3)]
  by (auto simp: attempt_unfold split: if_splits option.splits prod.splits answer.splits)

lemma attempt_Inl_counts:
  assumes "attempt r key body live t (a, g) = Inl (rep, a', g')" and "counts g l" and "may_ops (turn_flights t) l"
  shows "\<exists>xs. prefix xs (turn_flights t) \<and> counts g' (fold live_op xs l)"
proof -
  have may: "may_ops (flights (tn_before t)) l" using assms(3) by (simp add: turn_flights_def may_ops_append)
  have b: "counts (entered t g) (fold live_op (flights (tn_before t)) l)"
    unfolding entered_def by (rule counts_others [OF assms(2) may])
  let ?goal = "\<lambda>h. \<exists>xs. prefix xs (turn_flights t) \<and> counts h (fold live_op xs l)"
  have before: "?goal h" if "counts h (fold live_op (flights (tn_before t)) l)" for h
    using that by (intro exI [of _ "flights (tn_before t)"]) (simp add: turn_flights_def)
  have all: "?goal h" if "counts h (fold live_op (turn_flights t) l)" for h
    using that by (intro exI [of _ "turn_flights t"]) simp
  have settled: "?goal h'"
    if "settle_response p rl resp now (x, h) = (x', h')" "counts h (fold live_op (turn_flights t) l)"
    for p rl resp now x h x' h'
    using all [of h'] settle_counts [OF that(1)] that(2) by simp
  from assms(1) b counts_unpicked [OF b] counts_attempt [OF assms(2,3)] show ?thesis
    by (auto simp: attempt_unfold split: if_splits option.splits prod.splits answer.splits
        intro: before all settled)
qed

section \<open>The log of a request\<close>

text \<open>A pass that is retried logs one line, a skip or an error before any response.\<close>

definition retryable :: "log_line \<Rightarrow> bool" where
  "retryable l \<longleftrightarrow> lg_outcome l = SkippedBySize \<or> lg_outcome l = UpstreamPreResponse"

lemma attempt_Inr_log:
  assumes "attempt r key body live t (a, g) = Inr (a', g')"
  shows "\<exists>l. at_log a' = at_log a @ [l] \<and> retryable l
     \<and> (at_skipped a' = at_skipped a + 1 \<and> lg_outcome l = SkippedBySize
        \<or> at_skipped a' = at_skipped a \<and> lg_outcome l = UpstreamPreResponse)"
  using assms
  by (auto simp: attempt_unfold log_to_def line_def retryable_def
      split: if_splits option.splits prod.splits answer.splits)

lemma attempt_Inl_log:
  assumes "attempt r key body live t (a, g) = Inl (rep, a', g')"
  shows "\<exists>ls. at_log a' = at_log a @ ls
     \<and> (case rep of
          Rp_Response st h b \<Rightarrow>
            map lg_outcome ls \<in> {[Relayed], [Relayed, ClientAborted], [Relayed, UpstreamMidstream]}
        | Rp_Nothing \<Rightarrow> map lg_outcome ls = [ClientAborted]
        | Rp_Json c m \<Rightarrow> map lg_outcome ls \<in> {[], [UpstreamPreResponse]}
        | _ \<Rightarrow> False)"
  using assms
  by (auto simp: attempt_unfold log_to_def line_def settle_response_def exhausted_def unavailable_def
      split: if_splits option.splits prod.splits answer.splits)

text \<open>Every line names a relay the selector admits.\<close>

lemma pick_matches:
  assumes "pick_and_begin key now g = (Some rl, g')"
  shows "rl \<in> set (p_relays (gs_pool (g_st g))) \<and> (key = KeyAll \<or> r_provider rl = key)"
proof -
  have "fst (Pick (g_store g) now (g_rt g, gs_pool (g_st g)) key) = Some rl"
    using assms by (auto simp: pick_and_begin_def Let_def split: prod.splits option.splits)
  from Pick_Some [OF this] pick_list_sub show ?thesis by (force simp: candidates_def)
qed

lemma attempt_lines:
  assumes "\<forall>l \<in> set (at_log a). lg_provider l = key" and "key \<noteq> KeyAll"
  shows "attempt r key body live t (a, g) = Inr (a', g') \<Longrightarrow> \<forall>l \<in> set (at_log a'). lg_provider l = key"
    and "attempt r key body live t (a, g) = Inl (rep, a', g') \<Longrightarrow> \<forall>l \<in> set (at_log a'). lg_provider l = key"
proof -
  have pick: "r_provider rl = key" if "pick_and_begin key (tn_pickAt t) (entered t g) = (Some rl, g1)" for rl g1
    using pick_matches [OF that] assms(2) by simp
  show "attempt r key body live t (a, g) = Inr (a', g') \<Longrightarrow> \<forall>l \<in> set (at_log a'). lg_provider l = key"
    using assms(1) pick
    by (auto simp: attempt_unfold log_to_def line_def split: if_splits option.splits prod.splits answer.splits)
  show "attempt r key body live t (a, g) = Inl (rep, a', g') \<Longrightarrow> \<forall>l \<in> set (at_log a'). lg_provider l = key"
    using assms(1) pick
    by (auto simp: attempt_unfold log_to_def line_def settle_response_def
        split: if_splits option.splits prod.splits answer.splits)
qed

end
