(* ===== verification/Gateway_Passes.thy ===== *)
theory Gateway_Passes
  imports Gateway_Laws
begin

text \<open>
  What a request went through, pass by pass: a trace of the retry loop that names, for every
  turn used, the relay picked and what came back. The log, the counters and the reply are
  functions of the trace; the lemmas show that the loop computes them.
\<close>

section \<open>Traces\<close>

text \<open>
  A pass skips a relay for its size, fails before any response, loses its client, gets a
  response, finds no relay, or finds the budget spent.
\<close>

datatype relay_pass =
    P_Skip relay
  | P_Fail relay string
  | P_Gone relay string
  | P_Answer relay response
  | P_NoRelay
  | P_Spent

fun is_skip :: "relay_pass \<Rightarrow> bool" where
  "is_skip (P_Skip rl) = True"
| "is_skip _ = False"

text \<open>The passes that reached for a relay, and those the loop goes on after.\<close>

fun reached :: "relay_pass \<Rightarrow> bool" where
  "reached P_NoRelay = False"
| "reached P_Spent = False"
| "reached _ = True"

fun retried :: "relay_pass \<Rightarrow> bool" where
  "retried (P_Skip rl) = True"
| "retried (P_Fail rl e) = True"
| "retried _ = False"

text \<open>The pass a turn explains: which relay, and what it answered to the request sent to it.\<close>

definition fits_relay :: "string \<Rightarrow> string option \<Rightarrow> relay \<Rightarrow> bool" where
  "fits_relay body live rl \<longleftrightarrow> live \<noteq> None \<or> int (length body) \<le> r_maxBody rl"

definition admits :: "string \<Rightarrow> relay \<Rightarrow> bool" where
  "admits key rl \<longleftrightarrow> key = KeyAll \<or> r_provider rl = key"

fun explains :: "request \<Rightarrow> string \<Rightarrow> string \<Rightarrow> string option \<Rightarrow> turn \<Rightarrow> relay_pass \<Rightarrow> bool" where
  "explains r key body live t (P_Skip rl) = (admits key rl \<and> \<not> fits_relay body live rl)"
| "explains r key body live t (P_Fail rl e) =
     (admits key rl \<and> fits_relay body live rl \<and> tn_answer t (out_request_of r rl body live) = Ans_Err e False)"
| "explains r key body live t (P_Gone rl e) =
     (admits key rl \<and> fits_relay body live rl \<and> tn_answer t (out_request_of r rl body live) = Ans_Err e True)"
| "explains r key body live t (P_Answer rl resp) =
     (admits key rl \<and> fits_relay body live rl \<and> tn_answer t (out_request_of r rl body live) = Ans_Resp resp)"
| "explains r key body live t _ = True"

text \<open>The log lines of a pass.\<close>

fun pass_lines :: "relay_pass \<Rightarrow> log_line list" where
  "pass_lines (P_Skip rl) = [line SkippedBySize rl]"
| "pass_lines (P_Fail rl e) = [line UpstreamPreResponse rl]"
| "pass_lines (P_Gone rl e) = [line ClientAborted rl]"
| "pass_lines (P_Answer rl resp) =
     line Relayed rl # (if ra_ctxDead resp then [line ClientAborted rl]
                        else if ra_copyErr resp = None then [] else [line UpstreamMidstream rl])"
| "pass_lines _ = []"

fun pass_error :: "relay_pass \<Rightarrow> string option" where
  "pass_error (P_Fail rl e) = Some e"
| "pass_error _ = None"

text \<open>The error of the last failure.\<close>

fun trace_error :: "relay_pass list \<Rightarrow> string option" where
  "trace_error [] = None"
| "trace_error (p # ps) =
     (case trace_error ps of Some e \<Rightarrow> Some e | None \<Rightarrow> pass_error p)"

text \<open>The reply of a trace; None for one that the loop goes on after.\<close>

definition spent_reply :: "string \<Rightarrow> string \<Rightarrow> relay_pass list \<Rightarrow> reply" where
  "spent_reply key body qs =
     (if qs \<noteq> [] \<and> list_all is_skip qs
      then Rp_Json 413 (''body of '' @ itoa (int (length body)) @ '' bytes exceeds the '' @ key @ '' provider limit'')
      else Rp_Json 502 (''all attempts failed: '' @ ErrorString (trace_error qs)))"

definition trace_reply :: "string \<Rightarrow> string \<Rightarrow> string option \<Rightarrow> relay_pass list \<Rightarrow> reply option" where
  "trace_reply key body live ps =
     (if ps = [] then None
      else (case last ps of
              P_Answer rl resp \<Rightarrow>
                Some (Rp_Response (ra_status resp) (copyResponseHeader [] (ra_header resp)) (ra_body resp))
            | P_Gone rl e \<Rightarrow> Some Rp_Nothing
            | P_NoRelay \<Rightarrow> Some (Rp_Json 503 (''no relay configured for '' @ key))
            | P_Fail rl e \<Rightarrow>
                (if live = None then None
                 else Some (Rp_Json 502 (''streaming request failed: '' @ ErrorString (Some e))))
            | P_Skip rl \<Rightarrow> None
            | P_Spent \<Rightarrow> Some (spent_reply key body (butlast ps))))"

text \<open>The counters and the log of a trace.\<close>

definition tallies :: "relay_pass list \<Rightarrow> attempts \<Rightarrow> bool" where
  "tallies ps a \<longleftrightarrow> at_made a = int (length (filter reached ps))
     \<and> at_skipped a = int (length (filter is_skip ps)) \<and> at_err a = trace_error ps
     \<and> at_log a = concat (map pass_lines ps)"

section \<open>One pass\<close>

lemma trace_error_append [simp]:
  "trace_error (ps @ qs) = (case trace_error qs of Some e \<Rightarrow> Some e | None \<Rightarrow> trace_error ps)"
  by (induction ps) (auto split: option.splits)

lemma tallies_Nil [simp]: "tallies [] no_attempts"
  by (simp add: tallies_def no_attempts_def)

lemma picked_admits: "pick_and_begin key now g = (Some rl, g') \<Longrightarrow> admits key rl"
  using pick_matches [of key now g rl g'] by (simp add: admits_def)

lemma fits_unless: "(live = None \<and> r_maxBody rl < int (length body)) \<longleftrightarrow> \<not> fits_relay body live rl"
  by (auto simp: fits_relay_def)

text \<open>A pass that is retried.\<close>

lemma attempt_Inr_pass:
  assumes att: "attempt r key body live t (a, g) = Inr (a', g')" and ps: "tallies ps a"
  shows "\<exists>p. explains r key body live t p \<and> retried p \<and> tallies (ps @ [p]) a'"
proof -
  obtain rl g1 where pick: "pick_and_begin key (tn_pickAt t) (entered t g) = (Some rl, g1)"
    using att by (auto simp: attempt_unfold split: if_splits option.splits prod.splits)
  note adm = picked_admits [OF pick]
  show ?thesis
  proof (cases "fits_relay body live rl")
    case False
    with att pick have "a' = log_to (line SkippedBySize rl) (a\<lparr>at_made := at_made a + 1, at_skipped := at_skipped a + 1\<rparr>)"
      by (auto simp: attempt_unfold fits_unless split: if_splits)
    with ps have "tallies (ps @ [P_Skip rl]) a'" by (simp add: tallies_def log_to_def)
    moreover have "explains r key body live t (P_Skip rl)" using adm False by simp
    ultimately show ?thesis by (intro exI [of _ "P_Skip rl"]) simp
  next
    case True
    with att pick obtain e where e: "tn_answer t (out_request_of r rl body live) = Ans_Err e False"
      and a': "a' = log_to (line UpstreamPreResponse rl) (a\<lparr>at_made := at_made a + 1, at_err := Some e\<rparr>)"
      by (auto simp: attempt_unfold fits_unless split: if_splits answer.splits)
    from ps a' have "tallies (ps @ [P_Fail rl e]) a'" by (simp add: tallies_def log_to_def)
    moreover have "explains r key body live t (P_Fail rl e)" using adm True e by simp
    ultimately show ?thesis by (intro exI [of _ "P_Fail rl e"]) simp
  qed
qed

text \<open>A loop ended by the budget answers by what the trace holds.\<close>

lemma filter_all: "length (filter P xs) = length xs \<longleftrightarrow> list_all P xs"
  by (induction xs) (simp_all, metis Suc_n_not_le_n length_filter_le)

lemma retried_reached: "list_all retried ps \<Longrightarrow> filter reached ps = ps"
  by (induction ps rule: list.induct) (auto elim!: retried.elims)

lemma exhausted_trace:
  assumes "tallies ps a" and "list_all retried ps"
  shows "exhausted key body a = spent_reply key body ps"
proof -
  have "at_skipped a = at_made a \<and> at_skipped a > 0 \<longleftrightarrow> list_all is_skip ps \<and> ps \<noteq> []"
    using assms filter_all [of is_skip ps] retried_reached [OF assms(2)]
    by (auto simp: tallies_def)
  with assms(1) show ?thesis by (auto simp: exhausted_def spent_reply_def tallies_def)
qed

text \<open>The last pass.\<close>

lemma attempt_Inl_pass:
  assumes att: "attempt r key body live t (a, g) = Inl (rep, a', g')" and ps: "tallies ps a"
    and re: "list_all retried ps"
  shows "\<exists>p. explains r key body live t p \<and> tallies (ps @ [p]) a' \<and> trace_reply key body live (ps @ [p]) = Some rep
     \<and> (p = P_Spent \<longrightarrow> budget_of (g_st g') (live \<noteq> None) \<le> at_made a')"
proof (cases "budget_of (g_st (entered t g)) (live \<noteq> None) \<le> at_made a")
  case True
  with att have "rep = exhausted key body a" "a' = a" "g' = entered t g" by (auto simp: attempt_unfold)
  with True ps exhausted_trace [OF ps re] show ?thesis
    by (intro exI [of _ P_Spent]) (auto simp: trace_reply_def tallies_def)
next
  case budget: False
  obtain pick g1 where p: "pick_and_begin key (tn_pickAt t) (entered t g) = (pick, g1)"
    by (cases "pick_and_begin key (tn_pickAt t) (entered t g)")
  show ?thesis
  proof (cases pick)
    case None
    with att p budget have "rep = unavailable key" "a' = a" by (simp_all add: attempt_unfold)
    with ps show ?thesis
      by (intro exI [of _ P_NoRelay]) (simp add: trace_reply_def tallies_def unavailable_def)
  next
    case (Some rl)
    note adm = picked_admits [OF p [unfolded Some]]
    have fits: "fits_relay body live rl"
      using att p budget Some by (auto simp: attempt_unfold fits_unless split: if_splits)
    show ?thesis
    proof (cases "tn_answer t (out_request_of r rl body live)")
      case (Ans_Err e dead)
      show ?thesis
      proof (cases dead)
        case True
        with att p budget Some fits Ans_Err
        have "rep = Rp_Nothing" "a' = log_to (line ClientAborted rl) (a\<lparr>at_made := at_made a + 1\<rparr>)"
          by (simp_all add: attempt_unfold fits_unless)
        with ps adm fits Ans_Err True show ?thesis
          by (intro exI [of _ "P_Gone rl e"]) (simp add: trace_reply_def tallies_def log_to_def)
      next
        case False
        with att p budget Some fits Ans_Err
        have "live \<noteq> None" "rep = Rp_Json 502 (''streaming request failed: '' @ ErrorString (Some e))"
          "a' = log_to (line UpstreamPreResponse rl) (a\<lparr>at_made := at_made a + 1, at_err := Some e\<rparr>)"
          by (auto simp: attempt_unfold fits_unless split: if_splits)
        with ps adm fits Ans_Err False show ?thesis
          by (intro exI [of _ "P_Fail rl e"]) (simp add: trace_reply_def tallies_def log_to_def)
      qed
    next
      case (Ans_Resp resp)
      with att p budget Some fits have rep: "rep =
          Rp_Response (ra_status resp) (copyResponseHeader [] (ra_header resp)) (ra_body resp)"
        and a': "at_made a' = at_made a + 1" "at_skipped a' = at_skipped a" "at_err a' = at_err a"
          "at_log a' = at_log a @ pass_lines (P_Answer rl resp)"
        by (auto simp: attempt_unfold fits_unless settle_response_def log_to_def split: if_splits)
      from ps adm fits Ans_Resp rep a' show ?thesis
        by (intro exI [of _ "P_Answer rl resp"]) (simp add: trace_reply_def tallies_def)
    qed
  qed
qed

section \<open>The loop\<close>

text \<open>\<open>pass_trace r key body live ts ps\<close>: the turns used explain the passes, and only the last ends the loop.\<close>

definition pass_trace :: "request \<Rightarrow> string \<Rightarrow> string \<Rightarrow> string option \<Rightarrow> turn list \<Rightarrow> relay_pass list \<Rightarrow> bool" where
  "pass_trace r key body live ts ps \<longleftrightarrow>
     list_all2 (explains r key body live) (take (length ps) ts) ps \<and> list_all retried (butlast ps)"

lemma relay_loop_trace:
  assumes "relay_loop r key body live ts (a, g) = Some (rep, a', g')" and "tallies qs a" and "list_all retried qs"
  shows "\<exists>ps. ps \<noteq> [] \<and> pass_trace r key body live ts ps \<and> tallies (qs @ ps) a'
     \<and> trace_reply key body live (qs @ ps) = Some rep
     \<and> (last ps = P_Spent \<longrightarrow> budget_of (g_st g') (live \<noteq> None) \<le> at_made a')"
  using assms
proof (induction ts arbitrary: a g qs)
  case Nil
  then show ?case by simp
next
  case (Cons t ts)
  show ?case
  proof (cases "attempt r key body live t (a, g)")
    case (Inl x)
    with Cons.prems(1) have "attempt r key body live t (a, g) = Inl (rep, a', g')" by simp
    from attempt_Inl_pass [OF this Cons.prems(2,3)] obtain p where
      "explains r key body live t p" "tallies (qs @ [p]) a'" "trace_reply key body live (qs @ [p]) = Some rep"
      "p = P_Spent \<longrightarrow> budget_of (g_st g') (live \<noteq> None) \<le> at_made a'" by blast
    then show ?thesis by (intro exI [of _ "[p]"]) (simp add: pass_trace_def)
  next
    case (Inr x)
    obtain a1 g1 where x: "x = (a1, g1)" by (cases x)
    from attempt_Inr_pass [OF Inr [unfolded x] Cons.prems(2)] obtain p where
      p: "explains r key body live t p" "retried p" "tallies (qs @ [p]) a1" by blast
    from Cons.prems(1) Inr x have "relay_loop r key body live ts (a1, g1) = Some (rep, a', g')" by simp
    from Cons.IH [OF this p(3)] p(2) Cons.prems(3) obtain ps where
      "ps \<noteq> []" "pass_trace r key body live ts ps" "tallies (qs @ p # ps) a'"
      "trace_reply key body live (qs @ p # ps) = Some rep"
      "last ps = P_Spent \<longrightarrow> budget_of (g_st g') (live \<noteq> None) \<le> at_made a'" by auto
    with p(1,2) show ?thesis by (intro exI [of _ "p # ps"]) (simp add: pass_trace_def)
  qed
qed

lemma relay_loop_passes:
  assumes "relay_loop r key body live ts (no_attempts, g) = Some (rep, a, g')"
  obtains ps where "ps \<noteq> []" "pass_trace r key body live ts ps" "tallies ps a" "trace_reply key body live ps = Some rep"
    "last ps = P_Spent \<Longrightarrow> budget_of (g_st g') (live \<noteq> None) \<le> at_made a"
  using relay_loop_trace [OF assms tallies_Nil] by auto

text \<open>How long a trace is, by what was reached.\<close>

lemma reached_butlast:
  assumes "ps \<noteq> []" and "list_all retried (butlast ps)"
  shows "length (filter reached ps) = length (butlast ps) + (if reached (last ps) then 1 else 0)"
proof -
  have "filter reached ps = filter reached (butlast ps @ [last ps])" using assms(1) by simp
  then show ?thesis using retried_reached [OF assms(2)] by (simp only: filter_append length_append) simp
qed

lemma trace_length:
  assumes "pass_trace r key body live ts ps" and "tallies ps a"
  shows "int (length ps) \<le> at_made a + 1"
  using assms reached_butlast [of ps] by (cases "ps = []") (auto simp: pass_trace_def tallies_def)

lemma tallies_spent:
  assumes "tallies ps a" and "ps \<noteq> []" and "last ps = P_Spent" and "list_all retried (butlast ps)"
  shows "at_made a = int (length (butlast ps))"
  using assms reached_butlast [OF assms(2,4)] by (simp add: tallies_def)

end
