(* ===== verification/Gateway_Properties.thy ===== *)
theory Gateway_Properties
  imports Gateway_Passes
begin

text \<open>
  What the data plane promises a client and the fleet: bounded failover with every pass on record,
  one attempt for a streamed body, a reply that is a function of the passes, balanced in-flight counts under any
  interleaving, honest health evidence, and the meaning of its error replies. The two
  boundary cases at the end are runs in which it does something else.
\<close>

section \<open>A concrete gateway\<close>

text \<open>Two vercel relays with a small body limit and a deno relay with a larger one.\<close>

definition w_small :: "addr \<Rightarrow> relay" where
  "w_small a = (w_relay a ''vercel'')\<lparr>r_maxBody := 2\<rparr>"

definition w_state :: "int \<Rightarrow> int \<Rightarrow> gstate" where
  "w_state retries threshold =
     \<lparr>gs_pool = \<lparr>p_relays = [w_small 0, w_small 1, w_relay 2 ''deno''], p_rr = Map.empty, p_threshold = 2,
               p_cooldown = 30, p_attached = True\<rparr>,
      gs_client = 0, gs_maxRetries = retries, gs_maxBufferBytes = 1000, gs_streamThresholdBytes = threshold,
      gs_lifecycle = []\<rparr>"

definition w_gateway :: "int \<Rightarrow> int \<Rightarrow> gateway" where
  "w_gateway retries threshold =
     New_gateway (w_state retries threshold) ''1'' ''2'' (NewRuntimeState, empty_store)"

definition w_turn :: "answer \<Rightarrow> turn" where
  "w_turn x = \<lparr>tn_before = [], tn_pickAt = 100, tn_during = [], tn_answer = (\<lambda>_. x), tn_copying = [],
               tn_failedAt = 100\<rparr>"

definition w_ok :: response where
  "w_ok = \<lparr>ra_status = 200, ra_header = [], ra_body = ''hi'', ra_copyErr = None, ra_ctxDead = False\<rparr>"

section \<open>Bounds\<close>

lemma relay_loop_bounded:
  assumes "gs_maxRetries (g_st g) \<le> m" and "list_all (bounded_turn m) ts" and "0 \<le> m"
    and "0 \<le> at_made a" and "at_made a \<le> m + 1" and "m + 2 - at_made a \<le> int (length ts)"
  shows "\<exists>rep a' g'. relay_loop r key body live ts (a, g) = Some (rep, a', g') \<and> at_made a' \<le> m + 1"
  using assms
proof (induction ts arbitrary: a g)
  case Nil
  then show ?case by simp
next
  case (Cons t ts)
  have bnd: "gs_maxRetries (g_st (entered t g)) \<le> m"
    unfolding entered_def using Cons.prems(1,2) by (intro others_retries) (simp_all add: bounded_turn_def)
  show ?case
  proof (cases "attempt r key body live t (a, g)")
    case (Inl x)
    obtain rep a' g' where x: "x = (rep, a', g')" by (cases x)
    have "at_made a' \<le> m + 1"
      using attempt_Inl_made [OF Inl [unfolded x]] bnd Cons.prems(3,5) by (auto simp: budget_of_def split: if_splits)
    with Inl x show ?thesis by simp
  next
    case (Inr x)
    obtain a' g' where x: "x = (a', g')" by (cases x)
    note step = attempt_Inr [OF Inr [unfolded x]]
    have "gs_maxRetries (g_st g') \<le> m"
      using attempt_retries [OF Inr [unfolded x] Cons.prems(1)] Cons.prems(2) by simp
    then have "\<exists>rep a2 g2. relay_loop r key body live ts (a', g') = Some (rep, a2, g2) \<and> at_made a2 \<le> m + 1"
      using Cons.prems step bnd by (intro Cons.IH) (simp_all add: budget_of_def)
    then show ?thesis by (simp add: Inr x)
  qed
qed

text \<open>
  C7. Failover is bounded and every pass is accounted for. Whatever the relays answer and
  however the serving state is swapped underneath, as long as every state in force allows at
  most \<open>m\<close> retries, a request is answered, after at most \<open>m + 2\<close> passes that reach for at most
  \<open>m + 1\<close> relays. The passes form a trace: each but possibly the last reached a relay the selector
  admits and skipped it for its size, or got the error or the response the trace names; the attempt counter is the
  number of relays reached, the skip counter the number of size skips, and the log holds exactly
  the lines of the passes, in order.
\<close>

theorem attempts_bounded:
  assumes "0 \<le> m" and "gs_maxRetries (g_st g) \<le> m" and "list_all (bounded_turn m) ts"
    and "m + 2 \<le> int (length ts)"
  shows "\<exists>rep a g' ps. relay_pipeline r provider ts g = Some (rep, a, g')
     \<and> at_made a \<le> m + 1 \<and> int (length ps) \<le> m + 2
     \<and> at_made a = int (length (filter reached ps)) \<and> at_skipped a = int (length (filter is_skip ps))
     \<and> at_log a = concat (map pass_lines ps)
     \<and> (if ReadyCount_pool (gs_pool (g_st g)) = 0 then ps = []
        else case acquire (g_st g) r of
               Inl early \<Rightarrow> ps = [] \<and> rep = early
             | Inr (body, live) \<Rightarrow> ps \<noteq> [] \<and> pass_trace r (selector provider) body live ts ps)"
proof -
  have loop: "\<exists>rep a g' ps. relay_loop r key body live ts (no_attempts, g) = Some (rep, a, g') \<and> at_made a \<le> m + 1
     \<and> tallies ps a \<and> ps \<noteq> [] \<and> int (length ps) \<le> m + 2 \<and> pass_trace r key body live ts ps" for key body live
  proof -
    have "\<exists>rep a g'. relay_loop r key body live ts (no_attempts, g) = Some (rep, a, g') \<and> at_made a \<le> m + 1"
      using assms by (intro relay_loop_bounded) (simp_all add: no_attempts_def)
    then obtain rep a g' where run: "relay_loop r key body live ts (no_attempts, g) = Some (rep, a, g')"
      and made: "at_made a \<le> m + 1" by blast
    obtain ps where ps: "ps \<noteq> []" "pass_trace r key body live ts ps" "tallies ps a"
      using relay_loop_passes [OF run] by blast
    have "int (length ps) \<le> m + 2" using trace_length [OF ps(2,3)] made by simp
    with run made ps show ?thesis by blast
  qed
  show ?thesis
  proof (cases "ReadyCount_pool (gs_pool (g_st g)) = 0")
    case True
    with assms(1) show ?thesis
      by (intro exI [of _ "unavailable (selector provider)"] exI [of _ no_attempts] exI [of _ g] exI [of _ "[]"])
        (simp add: relay_pipeline_def no_attempts_def)
  next
    case ready: False
    show ?thesis
    proof (cases "acquire (g_st g) r")
      case (Inl early)
      with assms(1) ready show ?thesis
        by (intro exI [of _ early] exI [of _ no_attempts] exI [of _ g] exI [of _ "[]"])
          (simp add: relay_pipeline_def no_attempts_def)
    next
      case (Inr x)
      obtain body live where x: "x = (body, live)" by (cases x)
      from loop [of "selector provider" body live] ready Inr x show ?thesis
        by (auto simp: relay_pipeline_def Let_def tallies_def)
    qed
  qed
qed

theorem attempts_bounded_witness:
  "\<exists>rep a g' ps. relay_pipeline w_request ''deno'' (replicate 18 (w_turn (Ans_Err ''refused'' False))) (w_gateway 16 0)
     = Some (rep, a, g') \<and> at_made a \<le> 17 \<and> at_made a = int (length (filter reached ps))
     \<and> at_log a = concat (map pass_lines ps)"
  using attempts_bounded [of 16 "w_gateway 16 0" "replicate 18 (w_turn (Ans_Err ''refused'' False))" w_request "''deno''"]
  by (auto simp: w_gateway_def New_gateway_def w_state_def bounded_turn_def bounded_others_def w_turn_def
      list_all_iff)

text \<open>
  A streamed body is sent at most once: no retry, no size skip.
\<close>

theorem streaming_single_attempt:
  assumes "acquire (g_st g) r = Inr (body, Some s)" and "relay_pipeline r provider ts g = Some (rep, a, g')"
  shows "at_made a \<le> 1 \<and> at_skipped a = 0"
proof (cases ts)
  case Nil
  with assms show ?thesis by (auto simp: relay_pipeline_def Let_def no_attempts_def split: if_splits)
next
  case (Cons t ts')
  show ?thesis
  proof (cases "ReadyCount_pool (gs_pool (g_st g)) = 0")
    case True
    with assms show ?thesis by (auto simp: relay_pipeline_def Let_def no_attempts_def)
  next
    case False
    with assms Cons have "relay_loop r (selector provider) body (Some s) (t # ts') (no_attempts, g) = Some (rep, a, g')"
      by (simp add: relay_pipeline_def Let_def)
    then have "attempt r (selector provider) body (Some s) t (no_attempts, g) = Inl (rep, a, g')"
      using attempt_Inr [of r "selector provider" body "Some s" t no_attempts g] by (auto split: sum.splits)
    then show ?thesis
      by (auto simp: attempt_unfold no_attempts_def log_to_def settle_response_def
          split: if_splits option.splits prod.splits answer.splits)
  qed
qed

text \<open>A threshold of 3 bytes streams the four of the request.\<close>

lemma w_streamed: "acquire (g_st (w_gateway 2 3)) w_request = Inr ([], Some ''data'')"
  by code_simp

definition w_streamed_run :: "(reply \<times> attempts \<times> gateway) option" where
  "w_streamed_run = relay_pipeline w_request ''deno'' (replicate 4 (w_turn (Ans_Resp w_ok))) (w_gateway 2 3)"

lemma w_streamed_run_Some: "\<not> Option.is_none w_streamed_run"
  by code_simp

theorem streaming_single_attempt_witness:
  "\<exists>rep a g'. w_streamed_run = Some (rep, a, g') \<and> at_made a \<le> 1 \<and> at_skipped a = 0"
proof -
  obtain rep a g' where run: "w_streamed_run = Some (rep, a, g')"
    using w_streamed_run_Some by (cases w_streamed_run) (auto simp: Option.is_none_def)
  with streaming_single_attempt [OF w_streamed run [unfolded w_streamed_run_def]] show ?thesis by blast
qed

section \<open>Requests in flight\<close>

lemma relay_loop_counts:
  assumes "relay_loop r key body live ts (a, g) = Some (rep, a', g')"
    and "counts g l" and "may_ops (concat (map turn_flights ts)) l"
  shows "\<exists>xs. prefix xs (concat (map turn_flights ts)) \<and> counts g' (fold live_op xs l)"
  using assms
proof (induction ts arbitrary: a g l)
  case Nil
  then show ?case by simp
next
  case (Cons t ts)
  have may: "may_ops (turn_flights t) l" "may_ops (concat (map turn_flights ts)) (fold live_op (turn_flights t) l)"
    using Cons.prems(3) by (simp_all add: may_ops_append)
  show ?case
  proof (cases "attempt r key body live t (a, g)")
    case (Inl x)
    with Cons.prems(1) have "attempt r key body live t (a, g) = Inl (rep, a', g')" by simp
    from attempt_Inl_counts [OF this Cons.prems(2) may(1)] show ?thesis by (auto intro: prefix_prefix)
  next
    case (Inr x)
    obtain a1 g1 where x: "x = (a1, g1)" by (cases x)
    with Inr Cons.prems(1) have "relay_loop r key body live ts (a1, g1) = Some (rep, a', g')" by simp
    from Cons.IH [OF this attempt_Inr_counts [OF Inr [unfolded x] Cons.prems(2) may(1)] may(2)]
    obtain xs where "prefix xs (concat (map turn_flights ts))"
      "counts g' (fold live_op xs (fold live_op (turn_flights t) l))" by blast
    then show ?thesis by (intro exI [of _ "turn_flights t @ xs"]) simp
  qed
qed

text \<open>
  C6. A request gives back what it took: under any interleaving with other requests that
  end only what they began, the counter stays sound (no channel is closed twice) and, when
  the request returns on whatever path, shows exactly the other requests.
\<close>

theorem inflight_balanced:
  assumes "relay_pipeline r provider ts g = Some (rep, a, g')"
    and "inflight_ok (g_inflight g)" and "may_ops (concat (map turn_flights ts)) (running (g_inflight g))"
  shows "inflight_ok (g_inflight g') \<and> (\<exists>xs. prefix xs (concat (map turn_flights ts))
           \<and> running (g_inflight g') = fold live_op xs (running (g_inflight g)))"
proof -
  have c: "counts g (running (g_inflight g))" using assms(2) by (simp add: counts_def)
  consider "g' = g" | key body live where "relay_loop r key body live ts (no_attempts, g) = Some (rep, a, g')"
    using assms(1) by (auto simp: relay_pipeline_def Let_def split: if_splits sum.splits)
  then show ?thesis
  proof cases
    case 1
    with assms(2) show ?thesis by (auto intro!: exI [of _ "[]"])
  next
    case 2
    from relay_loop_counts [OF this c assms(3)] show ?thesis by (auto simp: counts_def)
  qed
qed

text \<open>Another request of the same relay begins during a failed first attempt.\<close>

definition w_busy_turns :: "turn list" where
  "w_busy_turns =
     [(w_turn (Ans_Err ''refused'' False))\<lparr>tn_during := [O_Flight (Start ''deno'' ''edge'')]\<rparr>, w_turn (Ans_Resp w_ok)]"

definition w_busy_run :: "(reply \<times> attempts \<times> gateway) option" where
  "w_busy_run = relay_pipeline w_request ''deno'' w_busy_turns (w_gateway 2 0)"

lemma w_busy_run_log:
  "map_option (\<lambda>(rep, a, g'). map lg_outcome (at_log a)) w_busy_run = Some [UpstreamPreResponse, Relayed]"
  by code_simp

lemma w_busy_runE:
  obtains rep a g' where "w_busy_run = Some (rep, a, g')" "at_log a \<noteq> []"
  using w_busy_run_log by (cases w_busy_run) auto

theorem inflight_balanced_witness:
  "\<exists>rep a g'. w_busy_run = Some (rep, a, g') \<and> inflight_ok (g_inflight g')"
proof -
  obtain rep a g' where run: "w_busy_run = Some (rep, a, g')" by (rule w_busy_runE)
  have "inflight_ok (g_inflight (w_gateway 2 0))"
    by (simp add: w_gateway_def New_gateway_def no_inflight_ok)
  moreover have "may_ops (concat (map turn_flights w_busy_turns)) (running (g_inflight (w_gateway 2 0)))"
    by (simp add: w_busy_turns_def turn_flights_def flights_def w_turn_def)
  ultimately show ?thesis
    using inflight_balanced [OF run [unfolded w_busy_run_def]] run by blast
qed

section \<open>Retries and replies\<close>

text \<open>What may follow the retried passes, by the reply.\<close>

definition reply_log :: "reply \<Rightarrow> outcome list \<Rightarrow> bool" where
  "reply_log rep os \<longleftrightarrow>
     (case rep of
        Rp_Response st h b \<Rightarrow> os \<in> {[Relayed], [Relayed, ClientAborted], [Relayed, UpstreamMidstream]}
      | Rp_Nothing \<Rightarrow> os = [ClientAborted]
      | Rp_Json c m \<Rightarrow> os \<in> {[], [UpstreamPreResponse]}
      | _ \<Rightarrow> False)"

lemma relay_loop_log:
  assumes "relay_loop r key body live ts (no_attempts, g) = Some (rep, a, g')"
  shows "\<exists>rs ls. at_log a = rs @ ls \<and> list_all retryable rs \<and> reply_log rep (map lg_outcome ls)"
proof -
  let ?P = "\<lambda>ag. list_all retryable (at_log (fst ag))"
  let ?Q = "\<lambda>res. \<exists>rs ls. at_log (fst (snd res)) = rs @ ls \<and> list_all retryable rs
              \<and> reply_log (fst res) (map lg_outcome ls)"
  have "?Q (rep, a, g')"
  proof (rule relay_loop_rule [where P = ?P, OF assms])
    show "?P (no_attempts, g)" by (simp add: no_attempts_def)
    show "?P ag'" if p: "?P ag" and att: "attempt r key body live t ag = Inr ag'" for t ag ag'
    proof -
      obtain l where "at_log (fst ag') = at_log (fst ag) @ [l]" "retryable l"
        using attempt_Inr_log [of r key body live t "fst ag" "snd ag" "fst ag'" "snd ag'"] att by auto
      with p show ?thesis by simp
    qed
    show "?Q res" if p: "?P ag" and att: "attempt r key body live t ag = Inl res" for t ag res
    proof -
      obtain ls where "at_log (fst (snd res)) = at_log (fst ag) @ ls" "reply_log (fst res) (map lg_outcome ls)"
        using attempt_Inl_log [of r key body live t "fst ag" "snd ag" "fst res" "fst (snd res)" "snd (snd res)"] att
        unfolding reply_log_def by auto
      with p show ?thesis by blast
    qed
  qed
  then show ?thesis by simp
qed

text \<open>
  C8. The reply is the one of the trace. Once a relay is ready and the body acquired, the
  turns explain a trace of passes in which every pass before the last was a size skip or an
  error before any response byte, so a response, a departed client, an empty selection and a
  failed streamed body each end the loop. The reply is a function of the trace: the relayed
  status, headers and body of the last pass; nothing for a departed client; 503 when no relay
  was found; 502 for a failed streamed body; and, with the budget spent, 413 exactly when every
  pass was a size skip and 502 with the last error otherwise; the budget counts as spent only when
  as many passes as the state in force allows went before. Nothing else is logged.
\<close>

theorem response_is_final:
  assumes "relay_pipeline r provider ts g = Some (rep, a, g')"
    and "ReadyCount_pool (gs_pool (g_st g)) \<noteq> 0" and "acquire (g_st g) r = Inr (body, live)"
  shows "\<exists>ps. ps \<noteq> [] \<and> list_all2 (explains r (selector provider) body live) (take (length ps) ts) ps
     \<and> list_all retried (butlast ps) \<and> trace_reply (selector provider) body live ps = Some rep
     \<and> at_log a = concat (map pass_lines ps)
     \<and> (last ps = P_Spent \<longrightarrow> budget_of (g_st g') (live \<noteq> None) \<le> int (length (butlast ps)))"
proof -
  from assms have "relay_loop r (selector provider) body live ts (no_attempts, g) = Some (rep, a, g')"
    by (simp add: relay_pipeline_def Let_def)
  then obtain ps where ps: "ps \<noteq> []" "pass_trace r (selector provider) body live ts ps" "tallies ps a"
    "trace_reply (selector provider) body live ps = Some rep"
    and spent: "last ps = P_Spent \<Longrightarrow> budget_of (g_st g') (live \<noteq> None) \<le> at_made a"
    by (rule relay_loop_passes) blast
  have "at_made a = int (length (butlast ps))" if "last ps = P_Spent"
    using tallies_spent [OF ps(3,1) that] ps(2) by (simp add: pass_trace_def)
  with ps spent show ?thesis unfolding pass_trace_def tallies_def by auto
qed

lemma w_busy_acquired: "acquire (g_st (w_gateway 2 0)) w_request = Inr (''data'', None)"
  by code_simp

lemma w_busy_ready: "ReadyCount_pool (gs_pool (g_st (w_gateway 2 0))) \<noteq> 0"
  by code_simp

theorem response_is_final_witness:
  "\<exists>rep a g' ps. w_busy_run = Some (rep, a, g') \<and> list_all retried (butlast ps)
     \<and> trace_reply ''deno'' ''data'' None ps = Some rep \<and> at_log a = concat (map pass_lines ps)"
proof -
  obtain rep a g' where run: "w_busy_run = Some (rep, a, g')" by (rule w_busy_runE)
  from response_is_final [OF run [unfolded w_busy_run_def] w_busy_ready w_busy_acquired] run show ?thesis
    by (auto simp: selector_def)
qed

text \<open>
  A pinned request only ever reaches relays of its provider.
\<close>

theorem pin_respected:
  assumes "relay_pipeline r provider ts g = Some (rep, a, g')" and "provider \<noteq> []" and "provider \<noteq> KeyAll"
    and "l \<in> set (at_log a)"
  shows "lg_provider l = provider"
proof -
  have key: "selector provider = provider" using assms(2) by (simp add: selector_def)
  have no: "at_log no_attempts = []" by (simp add: no_attempts_def)
  obtain body live where "relay_loop r provider body live ts (no_attempts, g) = Some (rep, a, g')"
    using assms(1,4) no by (auto simp: relay_pipeline_def Let_def key split: if_splits sum.splits)
  then have "\<forall>l \<in> set (at_log (fst (snd (rep, a, g')))). lg_provider l = provider"
  proof (rule relay_loop_rule [where P = "\<lambda>ag. \<forall>l \<in> set (at_log (fst ag)). lg_provider l = provider"])
    show "\<forall>l \<in> set (at_log (fst (no_attempts, g))). lg_provider l = provider" by (simp add: no)
    show "\<forall>l \<in> set (at_log (fst ag')). lg_provider l = provider"
      if "\<forall>l \<in> set (at_log (fst ag)). lg_provider l = provider" "attempt r provider body live t ag = Inr ag'" for t ag ag'
      using attempt_lines(1) [OF that(1) assms(3), of r body live t "snd ag" "fst ag'" "snd ag'"] that(2) by simp
    show "\<forall>l \<in> set (at_log (fst (snd res))). lg_provider l = provider"
      if "\<forall>l \<in> set (at_log (fst ag)). lg_provider l = provider" "attempt r provider body live t ag = Inl res" for t ag res
      using attempt_lines(2) [OF that(1) assms(3), of r body live t "snd ag" "fst res" "fst (snd res)" "snd (snd res)"]
        that(2) by simp
  qed
  with assms(4) show ?thesis by simp
qed

theorem pin_respected_witness:
  "\<exists>rep a g'. w_busy_run = Some (rep, a, g') \<and> at_log a \<noteq> [] \<and> (\<forall>l \<in> set (at_log a). lg_provider l = ''deno'')"
proof -
  obtain rep a g' where run: "w_busy_run = Some (rep, a, g')" and "at_log a \<noteq> []" by (rule w_busy_runE)
  moreover have "''deno'' \<noteq> KeyAll" by (simp add: KeyAll_def)
  ultimately show ?thesis
    using pin_respected [OF run [unfolded w_busy_run_def]] by blast
qed

text \<open>After the retries the count of skips is the count of skip lines.\<close>

definition skips :: "attempts \<Rightarrow> bool" where
  "skips a \<longleftrightarrow> at_made a = int (length (at_log a))
     \<and> at_skipped a = int (length (filter (\<lambda>l. lg_outcome l = SkippedBySize) (at_log a)))
     \<and> list_all retryable (at_log a)"

lemma skips_attempt:
  assumes "skips a" and "attempt r key body live t (a, g) = Inr (a', g')"
  shows "skips a'"
  using attempt_Inr [OF assms(2)] attempt_Inr_log [OF assms(2)] assms(1) by (auto simp: skips_def)

lemma filter_all_length: "length (filter P xs) = length xs \<Longrightarrow> list_all P xs"
  by (metis length_filter_less less_irrefl list_all_iff)

text \<open>
  What a 413 means: when the retry loop answers it, at least one relay was reached for,
  every one of them was skipped for its size, and the retry budget is spent. It says
  nothing about the relays the budget did not reach.
\<close>

theorem oversize_reply_meaning:
  assumes "relay_loop r key body live ts (no_attempts, g) = Some (Rp_Json 413 msg, a, g')"
  shows "at_log a \<noteq> [] \<and> list_all (\<lambda>l. lg_outcome l = SkippedBySize) (at_log a)
     \<and> budget_of (g_st g') (live \<noteq> None) \<le> int (length (at_log a))"
proof -
  let ?Q = "\<lambda>res. fst res = Rp_Json 413 msg \<longrightarrow> at_log (fst (snd res)) \<noteq> []
     \<and> list_all (\<lambda>l. lg_outcome l = SkippedBySize) (at_log (fst (snd res)))
     \<and> budget_of (g_st (snd (snd res))) (live \<noteq> None) \<le> int (length (at_log (fst (snd res))))"
  have "?Q (Rp_Json 413 msg, a, g')"
  proof (rule relay_loop_rule [where P = "\<lambda>ag. skips (fst ag)", OF assms])
    show "skips (fst (no_attempts, g))" by (simp add: skips_def no_attempts_def)
    show "skips (fst ag')" if "skips (fst ag)" "attempt r key body live t ag = Inr ag'" for t ag ag'
      using skips_attempt [of "fst ag" r key body live t "snd ag" "fst ag'" "snd ag'"] that by simp
    show "?Q res" if s: "skips (fst ag)" and att: "attempt r key body live t ag = Inl res" for t ag res
    proof
      assume "fst res = Rp_Json 413 msg"
      with att have full: "at_skipped (fst ag) = at_made (fst ag)" "0 < at_skipped (fst ag)"
        and out: "fst (snd res) = fst ag" "budget_of (g_st (snd (snd res))) (live \<noteq> None) \<le> at_made (fst ag)"
        by (cases ag; cases res; auto simp: attempt_unfold exhausted_def unavailable_def
            split: if_splits option.splits prod.splits answer.splits)+
      from s full have "length (filter (\<lambda>l. lg_outcome l = SkippedBySize) (at_log (fst ag))) = length (at_log (fst ag))"
        by (simp add: skips_def)
      from filter_all_length [OF this] s full out show "at_log (fst (snd res)) \<noteq> []
          \<and> list_all (\<lambda>l. lg_outcome l = SkippedBySize) (at_log (fst (snd res)))
          \<and> budget_of (g_st (snd (snd res))) (live \<noteq> None) \<le> int (length (at_log (fst (snd res))))"
        by (auto simp: skips_def)
    qed
  qed
  then show ?thesis by simp
qed

text \<open>One retry, so two passes: both vercel relays are too small, the deno relay is not.\<close>

definition w_oversize_run :: "(reply \<times> attempts \<times> gateway) option" where
  "w_oversize_run = relay_loop w_request KeyAll ''data'' None (replicate 3 (w_turn (Ans_Resp w_ok)))
                      (no_attempts, w_gateway 1 0)"

definition w_oversize_msg :: string where
  "w_oversize_msg = ''body of 4 bytes exceeds the all provider limit''"

lemma w_oversize_reply: "map_option fst w_oversize_run = Some (Rp_Json 413 w_oversize_msg)"
  by code_simp

theorem oversize_reply_meaning_witness:
  "\<exists>a g'. w_oversize_run = Some (Rp_Json 413 w_oversize_msg, a, g') \<and> at_log a \<noteq> []
     \<and> list_all (\<lambda>l. lg_outcome l = SkippedBySize) (at_log a)"
proof -
  obtain a g' where run: "w_oversize_run = Some (Rp_Json 413 w_oversize_msg, a, g')"
    using w_oversize_reply by (cases w_oversize_run) auto
  with oversize_reply_meaning [OF run [unfolded w_oversize_run_def]] show ?thesis by blast
qed

text \<open>
  C40. A 413 although a relay would take the body: the size skips use up the retry budget,
  so with the small relays first in the rotation the request is refused while the pool
  holds a healthy relay with room for it.
\<close>

theorem oversize_despite_room:
  "\<exists>msg a g' rl. relay_loop w_request KeyAll ''data'' None (replicate 3 (w_turn (Ans_Resp w_ok)))
       (no_attempts, w_gateway 1 0) = Some (Rp_Json 413 msg, a, g')
     \<and> rl \<in> set (p_relays (gs_pool (g_st (w_gateway 1 0)))) \<and> healthy (st_cells (g_store g') (r_state rl)) 100
     \<and> int (length ''data'') \<le> r_maxBody rl"
proof -
  obtain a g' where run: "w_oversize_run = Some (Rp_Json 413 w_oversize_msg, a, g')"
    using w_oversize_reply by (cases w_oversize_run) auto
  have "map_option (\<lambda>(rep, a, g'). healthy (st_cells (g_store g') 2) 100) w_oversize_run = Some True"
    by code_simp
  then have "healthy (st_cells (g_store g') 2) 100" unfolding run by simp
  moreover have "w_relay 2 ''deno'' \<in> set (p_relays (gs_pool (g_st (w_gateway 1 0))))"
    by (simp add: w_gateway_def New_gateway_def w_state_def)
  moreover have "int (length ''data'') \<le> r_maxBody (w_relay 2 ''deno'')" "r_state (w_relay 2 ''deno'') = 2"
    by (code_simp, code_simp)
  ultimately show ?thesis using run unfolding w_oversize_run_def by metis
qed

end
