(* ===== verification/Gateway_Evidence.thy ===== *)
theory Gateway_Evidence
  imports Gateway_Properties
begin

text \<open>
  What a request leaves behind as evidence about a relay, what it forwards of its body, and
  how the entry point answers when there is nothing to relay to.
\<close>

section \<open>Bodies\<close>

definition readCap :: "gstate \<Rightarrow> int" where
  "readCap st = (if gs_streamThresholdBytes st > 0 then gs_streamThresholdBytes st else gs_maxBufferBytes st)"

definition forwarded :: "string \<times> string option \<Rightarrow> string" where
  "forwarded bl = (case snd bl of Some s \<Rightarrow> s | None \<Rightarrow> fst bl)"

lemma out_request_body: "oq_body (out_request_of r rl body live) = forwarded (body, live)"
  by (cases live) (simp_all add: out_request_of_def forwarded_def Let_def)

lemma acquired_forwards:
  "acquired st r c (take n (rq_body r)) = Inr bl \<Longrightarrow> length (rq_body r) \<le> n \<or> \<not> int n \<le> c \<Longrightarrow>
     forwarded bl = rq_body r \<and> (snd bl = None \<longrightarrow> int (length (fst bl)) \<le> c)"
  by (auto simp: acquired_def forwarded_def split: if_splits)

text \<open>
  A body that passes acquisition reaches the relay byte for byte, buffered or streamed,
  and a buffered one is within the cap; as long as the cap leaves room for the one byte the
  reader asks for beyond it.
\<close>

theorem body_forwarded_verbatim:
  assumes "acquire (g_st g) r = Inr (body, live)" and "0 \<le> readCap (g_st g)" and "readCap (g_st g) < 2 ^ 63 - 1"
    and "\<forall>n e. rq_bodyErr r = Some (n, e) \<longrightarrow> n \<le> length (rq_body r)"
  shows "oq_body (out_request_of r rl body live) = rq_body r
     \<and> (live = None \<longrightarrow> int (length body) \<le> readCap (g_st g))"
proof (cases "gs_streamThresholdBytes (g_st g) > 0 \<and> rq_contentLength r > gs_streamThresholdBytes (g_st g)")
  case True
  with assms(1) show ?thesis by (auto simp: acquire_def out_request_body forwarded_def)
next
  case False
  let ?c = "readCap (g_st g)" and ?n = "nat (readCap (g_st g) + 1)"
  have w: "wrap64 (?c + 1) = ?c + 1" using assms(2,3) by (intro wrap64_id) simp_all
  have big: "\<not> int ?n \<le> ?c" using assms(2) by simp
  have "acquired (g_st g) r ?c (take ?n (rq_body r)) = Inr (body, live)"
    using assms(1) False w by (auto simp: acquire_def readCap_def Let_def split: option.splits prod.splits if_splits)
  from acquired_forwards [OF this] big show ?thesis by (simp add: out_request_body)
qed

theorem body_forwarded_verbatim_witness:
  "oq_body (out_request_of w_request (w_relay 2 ''deno'') [] (Some ''data'')) = ''data''"
proof -
  have "readCap (g_st (w_gateway 2 3)) = 3" "rq_bodyErr w_request = None" "rq_body w_request = ''data''"
    by (code_simp, code_simp, code_simp)
  with body_forwarded_verbatim [OF w_streamed] show ?thesis by simp
qed

text \<open>
  C37. At the largest threshold an \<open>int64\<close> can hold the limit of the reader wraps to a
  negative number: nothing is read, and every request goes out with an empty body.
\<close>

theorem largest_threshold_drops_bodies:
  assumes "gs_streamThresholdBytes st = 2 ^ 63 - 1" and "rq_contentLength r < 2 ^ 63" and "rq_bodyErr r = None"
  shows "acquire st r = Inr ([], None)"
  using assms by (simp add: acquire_def acquired_def wrap64_def)

theorem largest_threshold_drops_bodies_witness:
  "rq_body w_request = ''data'' \<and> acquire (w_state 2 (2 ^ 63 - 1)) w_request = Inr ([], None)"
proof -
  have "gs_streamThresholdBytes (w_state 2 (2 ^ 63 - 1)) = 2 ^ 63 - 1" by (simp add: w_state_def)
  moreover have "rq_contentLength w_request < 2 ^ 63" "rq_bodyErr w_request = None" "rq_body w_request = ''data''"
    by (simp_all add: w_request_def)
  ultimately show ?thesis using largest_threshold_drops_bodies by blast
qed

section \<open>Entry\<close>

lemma acquire_reply: "acquire st r = Inl rep \<Longrightarrow> \<exists>c m. rep = Rp_Json c m"
  by (auto simp: acquire_def acquired_def Let_def split: if_splits option.splits prod.splits)

lemma pipeline_reply:
  assumes "relay_pipeline r provider ts g = Some (rep, a, g')"
  shows "(\<exists>c m. rep = Rp_Json c m) \<or> (\<exists>c h b. rep = Rp_Response c h b) \<or> rep = Rp_Nothing"
proof -
  have "(\<exists>c m. rep = Rp_Json c m) \<or> (\<exists>c h b. rep = Rp_Response c h b) \<or> rep = Rp_Nothing"
    if "relay_loop r key body live ts (no_attempts, g) = Some (rep, a, g')" for key body live
    using relay_loop_log [OF that] by (cases rep) (auto simp: reply_log_def)
  with assms show ?thesis
    by (auto simp: relay_pipeline_def Let_def unavailable_def split: if_splits sum.splits dest: acquire_reply)
qed

text \<open>
  A forward-proxy request is about some other host: whatever its path, \<open>/healthz\<close>
  included, it is never answered by a control endpoint of this process.
\<close>

theorem proxy_form_never_control:
  assumes "rq_method r = ''CONNECT'' \<or> u_host (rq_url r) \<noteq> []"
    and "ServeHTTP r now ts g = Some (rep, a, g')"
  shows "rep \<noteq> Rp_Healthz \<and> (\<forall>d. rep \<noteq> Rp_Stats d) \<and> (\<forall>c b n. rep \<noteq> Rp_Readyz c b n)"
  using assms pipeline_reply [of "proxy_request r" _ ts g rep a g']
  by (auto simp: ServeHTTP_def handleProxy_def Let_def split: if_splits prod.splits)

definition w_absolute :: request where
  "w_absolute = w_request\<lparr>rq_url := (rq_url w_request)\<lparr>u_scheme := ''http'', u_host := ''a.example'', u_path := ''/healthz''\<rparr>\<rparr>"

lemma w_absolute_run:
  "\<not> Option.is_none (ServeHTTP w_absolute 100 (replicate 4 (w_turn (Ans_Resp w_ok))) (w_gateway 2 0))"
  by code_simp

theorem proxy_form_never_control_witness:
  "\<exists>rep a g'. ServeHTTP w_absolute 100 (replicate 4 (w_turn (Ans_Resp w_ok))) (w_gateway 2 0) = Some (rep, a, g')
     \<and> rep \<noteq> Rp_Healthz"
proof -
  obtain rep a g' where
    run: "ServeHTTP w_absolute 100 (replicate 4 (w_turn (Ans_Resp w_ok))) (w_gateway 2 0) = Some (rep, a, g')"
    using w_absolute_run by (auto simp: Option.is_none_def)
  have "u_host (rq_url w_absolute) \<noteq> []" by (simp add: w_absolute_def)
  with proxy_form_never_control [OF _ run] run show ?thesis by blast
qed

text \<open>
  With no relay ready every relay request gets the retryable 503, before its body is
  read, whatever provider it pins, and \<open>/readyz\<close> answers 503; the gateway is unchanged.
\<close>

theorem zero_ready_503:
  assumes "ReadyCount_pool (gs_pool (g_st g)) = 0"
    and "rq_method r \<noteq> ''CONNECT''" and "u_host (rq_url r) = []"
    and "u_path (rq_url r) \<notin> {''/healthz'', ''/stats'', ''/readyz''}"
  shows "ServeHTTP r now ts g
           = Some (unavailable (if unpinned (requested r) then KeyAll else requested r), no_attempts, g)
         \<and> handleReadyz g = Rp_Readyz 503 False 0"
proof -
  have "parseProvider r (gs_pool (g_st g)) = (if unpinned (requested r) then [] else requested r, True)"
    using assms(1) by (simp add: parseProvider_def headerProvider_def requested_def Let_def)
  moreover have "unpinned []" by (simp add: unpinned_def)
  ultimately show ?thesis
    using assms by (auto simp: ServeHTTP_def handleRelay_def relay_pipeline_def handleReadyz_def selector_def Let_def)
qed

definition w_empty :: gateway where
  "w_empty = New_gateway ((w_state 2 0)\<lparr>gs_pool := (gs_pool (w_state 2 0))\<lparr>p_relays := []\<rparr>\<rparr>) ''1'' ''2''
               (NewRuntimeState, empty_store)"

theorem zero_ready_503_witness:
  "ServeHTTP w_request 100 [] w_empty = Some (unavailable ''deno'', no_attempts, w_empty)"
proof -
  have "ReadyCount_pool (gs_pool (g_st w_empty)) = 0" "rq_method w_request \<noteq> ''CONNECT''"
    "u_host (rq_url w_request) = []" "u_path (rq_url w_request) \<notin> {''/healthz'', ''/stats'', ''/readyz''}"
    "requested w_request = ''deno''" "\<not> unpinned (requested w_request)"
    by (code_simp, code_simp, code_simp, code_simp, code_simp, code_simp)
  with zero_ready_503 [of w_empty w_request 100 "[]"] show ?thesis by simp
qed

section \<open>Health evidence\<close>

text \<open>A turn in which nobody else acts.\<close>

definition quiet_turn :: "turn \<Rightarrow> bool" where
  "quiet_turn t \<longleftrightarrow> tn_before t = [] \<and> tn_during t = [] \<and> tn_copying t = []"

text \<open>Everything of an endpoint's state but the request counter.\<close>

definition evidence :: "relay_state \<Rightarrow> int \<times> int \<times> int \<times> instant \<times> string" where
  "evidence rs = (rs_failures rs, rs_midstream rs, rs_consecFails rs, rs_downUntil rs, rs_lastErr rs)"

definition client_gone :: "answer \<Rightarrow> bool" where
  "client_gone x = (case x of Ans_Err e dead \<Rightarrow> dead | Ans_Resp resp \<Rightarrow> ra_ctxDead resp)"

lemma attempt_gone:
  assumes "quiet_turn t" and "\<And>q. client_gone (tn_answer t q)"
  shows "attempt r key body live t (a, g) = Inr (a', g') \<Longrightarrow>
           evidence (st_cells (g_store g') x) = evidence (st_cells (g_store g) x)"
    and "attempt r key body live t (a, g) = Inl (rep, a', g') \<Longrightarrow>
           evidence (st_cells (g_store g') x) = evidence (st_cells (g_store g) x)"
proof -
  have pick: "g_store g1 = g_store g" if "pick_and_begin key now g = (rl, g1)" for now rl g1
    using that by (auto simp: pick_and_begin_def Let_def split: prod.splits option.splits)
  have dead: "client_gone (tn_answer t (out_request_of r rl body live))" for rl using assms(2) .
  show "attempt r key body live t (a, g) = Inr (a', g') \<Longrightarrow>
           evidence (st_cells (g_store g') x) = evidence (st_cells (g_store g) x)"
    using assms(1) dead pick
    by (fastforce simp: attempt_def quiet_turn_def client_gone_def Let_def
        split: if_splits option.splits prod.splits answer.splits)
  show "attempt r key body live t (a, g) = Inl (rep, a', g') \<Longrightarrow>
           evidence (st_cells (g_store g') x) = evidence (st_cells (g_store g) x)"
    using assms(1) dead pick
    by (fastforce simp: attempt_def quiet_turn_def client_gone_def settle_response_def Let_def
        upd_cell_def evidence_def count_request_def
        split: if_splits option.splits prod.splits answer.splits)
qed

text \<open>
  A client that leaves is evidence of nothing: if the request context is dead by the
  time each attempt ends, whether in an error or in a response of any kind, no relay's
  failure counts, streak, cooldown or last error change.
\<close>

theorem client_abort_neutral:
  assumes "relay_pipeline r provider ts g = Some (rep, a, g')"
    and "\<forall>t \<in> set ts. quiet_turn t \<and> (\<forall>q. client_gone (tn_answer t q))"
  shows "evidence (st_cells (g_store g') x) = evidence (st_cells (g_store g) x)"
proof -
  let ?P = "\<lambda>h. evidence (st_cells (g_store h) x) = evidence (st_cells (g_store g) x)"
  have "?P (snd (snd (rep, a, g')))"
    if "relay_loop r key body live ts (no_attempts, g) = Some (rep, a, g')" for key body live
  proof (rule relay_loop_rule [where P = "\<lambda>ag. ?P (snd ag)" and Q = "\<lambda>res. ?P (snd (snd res))", OF that])
    show "?P (snd ag')" if "t \<in> set ts" "?P (snd ag)" "attempt r key body live t ag = Inr ag'" for t ag ag'
      using attempt_gone(1) [of t r key body live "fst ag" "snd ag" "fst ag'" "snd ag'"] assms(2) that by simp
    show "?P (snd (snd res))" if "t \<in> set ts" "?P (snd ag)" "attempt r key body live t ag = Inl res" for t ag res
      using attempt_gone(2) [of t r key body live "fst ag" "snd ag" "fst res" "fst (snd res)" "snd (snd res)"]
        assms(2) that by simp
  qed simp
  with assms(1) show ?thesis
    by (auto simp: relay_pipeline_def Let_def split: if_splits sum.splits)
qed

definition w_aborted_run :: "(reply \<times> attempts \<times> gateway) option" where
  "w_aborted_run = relay_pipeline w_request ''deno'' [w_turn (Ans_Err ''context canceled'' True)] (w_gateway 2 0)"

lemma w_aborted_run_Some: "\<not> Option.is_none w_aborted_run"
  by code_simp

theorem client_abort_neutral_witness:
  "\<exists>rep a g'. w_aborted_run = Some (rep, a, g')
     \<and> evidence (st_cells (g_store g') 2) = evidence (st_cells (g_store (w_gateway 2 0)) 2)"
proof -
  obtain rep a g' where run: "w_aborted_run = Some (rep, a, g')"
    using w_aborted_run_Some by (cases w_aborted_run) (auto simp: Option.is_none_def)
  have "\<forall>t \<in> set [w_turn (Ans_Err ''context canceled'' True)]. quiet_turn t \<and> (\<forall>q. client_gone (tn_answer t q))"
    by (simp add: quiet_turn_def w_turn_def client_gone_def)
  from client_abort_neutral [OF run [unfolded w_aborted_run_def] this] run show ?thesis by blast
qed

text \<open>Requests one after the other, each answered by a response that breaks mid-body.\<close>

fun serve_all :: "request \<Rightarrow> string \<Rightarrow> turn list \<Rightarrow> gateway \<Rightarrow> gateway option" where
  "serve_all r provider [] g = Some g"
| "serve_all r provider (t # ts) g =
     (case relay_pipeline r provider [t] g of None \<Rightarrow> None | Some (rep, a, g') \<Rightarrow> serve_all r provider ts g')"

definition broken_turn :: "response \<Rightarrow> string \<Rightarrow> instant \<Rightarrow> turn" where
  "broken_turn resp e now =
     \<lparr>tn_before = [], tn_pickAt = now, tn_during = [],
      tn_answer = (\<lambda>_. Ans_Resp (resp\<lparr>ra_copyErr := Some e, ra_ctxDead := False\<rparr>)), tn_copying = [],
      tn_failedAt = now\<rparr>"

text \<open>A serving state in which the selector has one candidate, with room for the body.\<close>

definition sole :: "request \<Rightarrow> string \<Rightarrow> relay \<Rightarrow> int \<Rightarrow> duration \<Rightarrow> gstate \<Rightarrow> bool" where
  "sole r provider rl threshold cooldown st \<longleftrightarrow>
     candidates (gs_pool st) (selector provider) = [rl] \<and> 0 \<le> gs_maxRetries st
     \<and> p_threshold (gs_pool st) = threshold \<and> p_cooldown (gs_pool st) = cooldown
     \<and> (case acquire st r of
          Inl rep \<Rightarrow> False
        | Inr (body, live) \<Rightarrow> live \<noteq> None \<or> int (length body) \<le> r_maxBody rl)"

lemma sole_pool:
  assumes "sole r provider rl th cd st" and "p_relays p = p_relays (gs_pool st)"
    and "p_threshold p = p_threshold (gs_pool st)" and "p_cooldown p = p_cooldown (gs_pool st)"
  shows "sole r provider rl th cd (st\<lparr>gs_pool := p\<rparr>)"
proof -
  have same: "acquired (st\<lparr>gs_pool := p\<rparr>) = acquired st"
    by (simp add: acquired_def fun_eq_iff)
  have caps: "gs_streamThresholdBytes (st\<lparr>gs_pool := p\<rparr>) = gs_streamThresholdBytes st"
    "gs_maxBufferBytes (st\<lparr>gs_pool := p\<rparr>) = gs_maxBufferBytes st"
    by simp_all
  have "acquire (st\<lparr>gs_pool := p\<rparr>) r = acquire st r"
    unfolding acquire_def same caps ..
  with assms show ?thesis by (simp add: sole_def candidates_def)
qed

lemma sole_pick:
  assumes "sole r provider rl th cd (g_st g)"
  obtains g1 where "pick_and_begin (selector provider) now g = (Some rl, g1)" "g_store g1 = g_store g"
    "sole r provider rl th cd (g_st g1)"
proof -
  let ?rp = "(g_rt g, gs_pool (g_st g))" and ?key = "selector provider"
  have c: "candidates (gs_pool (g_st g)) ?key = [rl]" using assms by (simp add: sole_def)
  then have use: "pick_list (g_store g) now (gs_pool (g_st g)) ?key = [rl]"
    by (auto simp: pick_list_def Let_def)
  obtain i rt p where cur: "cursor ?rp ?key 1 = (i, rt, p)" by (cases "cursor ?rp ?key 1")
  have "i = 0" using pr.next_bound [of 1 ?rp ?key] cur by simp
  then have pick: "Pick (g_store g) now ?rp ?key = (Some rl, rt, p)"
    using use cur by (simp add: Pick_def)
  have "sole r provider rl th cd ((g_st g)\<lparr>gs_pool := p\<rparr>)"
    using cursor_frame [of ?rp ?key 1] cur by (intro sole_pool [OF assms]) simp_all
  moreover have "pick_and_begin ?key now g = (Some rl, g\<lparr>g_rt := rt, g_st := (g_st g)\<lparr>gs_pool := p\<rparr>,
      g_inflight := begin_flight (r_provider rl) (r_name rl) (g_inflight g)\<rparr>)" (is "_ = (_, ?g1)")
    by (simp add: pick_and_begin_def pick)
  ultimately show ?thesis using that [of ?g1] by simp
qed

definition after_broken :: "string \<Rightarrow> int \<Rightarrow> duration \<Rightarrow> instant \<Rightarrow> relay_state \<Rightarrow> relay_state" where
  "after_broken e th cd now c = count_midstream (record_failure (Some e) th cd now (count_request c))"

lemma serve_broken:
  assumes "sole r provider rl th cd (g_st g)"
  shows "\<exists>rep a g'. relay_pipeline r provider [broken_turn resp e now] g = Some (rep, a, g')
     \<and> sole r provider rl th cd (g_st g')
     \<and> st_cells (g_store g') (r_state rl) = after_broken e th cd now (st_cells (g_store g) (r_state rl))"
proof -
  obtain body live where acq: "acquire (g_st g) r = Inr (body, live)"
    and fits: "live \<noteq> None \<or> int (length body) \<le> r_maxBody rl"
    using assms by (auto simp: sole_def split: sum.splits)
  obtain g1 where pick: "pick_and_begin (selector provider) now g = (Some rl, g1)" and
    g1: "g_store g1 = g_store g" "sole r provider rl th cd (g_st g1)"
    using sole_pick [OF assms] by blast
  have ready: "ReadyCount_pool (gs_pool (g_st g)) \<noteq> 0"
    using assms by (auto simp: sole_def ReadyCount_pool_def candidates_def)
  have budget: "\<not> budget_of (g_st g) b \<le> at_made no_attempts" for b
    using assms by (simp add: sole_def budget_of_def no_attempts_def)
  have thr: "p_threshold (gs_pool (g_st g)) = th" "p_cooldown (gs_pool (g_st g)) = cd"
    using assms by (simp_all add: sole_def)
  show ?thesis
    using acq fits pick g1 ready budget thr
    by (auto simp: relay_pipeline_def attempt_def broken_turn_def settle_response_def Let_def
        RecordFailure_def upd_cell_def after_broken_def)
qed

lemma serve_all_broken:
  assumes "sole r provider rl th cd (g_st g)"
  shows "\<exists>g'. serve_all r provider (map (broken_turn resp e) nows) g = Some g' \<and> sole r provider rl th cd (g_st g')
     \<and> st_cells (g_store g') (r_state rl) = fold (after_broken e th cd) nows (st_cells (g_store g) (r_state rl))"
  using assms
proof (induction nows arbitrary: g)
  case Nil
  then show ?case by simp
next
  case (Cons now nows)
  from serve_broken [OF Cons.prems, of resp e now] obtain rep a g1 where
    one: "relay_pipeline r provider [broken_turn resp e now] g = Some (rep, a, g1)"
    and g1: "sole r provider rl th cd (g_st g1)"
    "st_cells (g_store g1) (r_state rl) = after_broken e th cd now (st_cells (g_store g) (r_state rl))"
    by blast
  from Cons.IH [OF g1(1)] show ?case by (simp add: one g1(2))
qed

lemma counted [simp]: "rs_consecFails (count_request c) = rs_consecFails c"
  "rs_consecFails (count_midstream c) = rs_consecFails c"
  "healthy (count_request c) now = healthy c now" "healthy (count_midstream c) now = healthy c now"
  by (simp_all add: count_request_def count_midstream_def healthy_def)

lemma broken_below:
  "rs_consecFails c + int (length nows) < th \<Longrightarrow>
     rs_consecFails (fold (after_broken e th cd) nows c) = rs_consecFails c + int (length nows)"
proof (induction nows arbitrary: c)
  case (Cons now nows)
  have "rs_consecFails (after_broken e th cd now c) = rs_consecFails c + 1"
    using ph.fail_below [of "count_request c" th] Cons.prems by (simp add: after_broken_def)
  with Cons show ?case by simp
qed simp

text \<open>Where a healthy candidate exists, an unhealthy one is passed over.\<close>

lemma Pick_healthy:
  assumes "fst (Pick st now (rt, p) key) = Some r"
    and "list_ex (\<lambda>c. healthy (st_cells st (r_state c)) now) (candidates p key)"
  shows "healthy (st_cells st (r_state r)) now"
  using Pick_Some [OF assms(1)] assms(2)
  by (auto simp: pick_list_def Let_def filter_empty_conv list_ex_iff split: if_splits)

text \<open>
  C30. Responses that break mid-body count: although each of them began with an answer of
  the relay, as many in a row as the failure threshold make the relay unhealthy for exactly the
  cooldown, measured from the last of them. Until then every pick that has a healthy candidate
  passes it over, whatever the pool and its cursors. The selector whose only candidate it is
  still gets it, cooldown or not.
\<close>

theorem broken_bodies_trip_cooldown:
  assumes "sole r provider rl (int (length nows) + 1) cd (g_st g)"
    and "rs_consecFails (st_cells (g_store g) (r_state rl)) = 0" and "latest + cd \<noteq> zero_time"
  shows "\<exists>g'. serve_all r provider (map (broken_turn resp e) (nows @ [latest])) g = Some g'
     \<and> (\<forall>now. healthy (st_cells (g_store g') (r_state rl)) now \<longleftrightarrow> latest + cd < now)
     \<and> (\<forall>now rt p key other. now \<le> latest + cd \<longrightarrow>
          list_ex (\<lambda>c. healthy (st_cells (g_store g') (r_state c)) now) (candidates p key) \<longrightarrow>
          fst (Pick (g_store g') now (rt, p) key) = Some other \<longrightarrow> r_state other \<noteq> r_state rl)
     \<and> (\<forall>now. fst (pick_and_begin (selector provider) now g') = Some rl)"
proof -
  let ?th = "int (length nows) + 1" and ?c = "st_cells (g_store g) (r_state rl)"
  obtain g' where run: "serve_all r provider (map (broken_turn resp e) (nows @ [latest])) g = Some g'"
    and sole: "sole r provider rl ?th cd (g_st g')"
    and cell: "st_cells (g_store g') (r_state rl) = fold (after_broken e ?th cd) (nows @ [latest]) ?c"
    using serve_all_broken [OF assms(1)] by blast
  let ?b = "fold (after_broken e ?th cd) nows ?c"
  have b: "rs_consecFails ?b = int (length nows)"
    using broken_below [of ?c nows ?th e cd] assms(2) by simp
  have h: "healthy (st_cells (g_store g') (r_state rl)) now \<longleftrightarrow> latest + cd < now" for now
    using ph.fail_trip [of ?th "count_request ?b" latest cd "Some e" now] assms(3) b cell
    by (simp add: after_broken_def)
  have "r_state other \<noteq> r_state rl"
    if "now \<le> latest + cd" "list_ex (\<lambda>c. healthy (st_cells (g_store g') (r_state c)) now) (candidates p key)"
      "fst (Pick (g_store g') now (rt, p) key) = Some other" for now rt p key other
    using Pick_healthy [OF that(3,2)] h [of now] that(1) by auto
  moreover have "fst (pick_and_begin (selector provider) now g') = Some rl" for now
    using sole_pick [OF sole, of now] by (metis fst_conv)
  ultimately show ?thesis using run h by blast
qed

theorem broken_bodies_trip_cooldown_witness:
  "\<exists>g'. serve_all w_request ''deno'' (map (broken_turn w_ok ''unexpected EOF'') [100, 110]) (w_gateway 2 0) = Some g'
     \<and> \<not> healthy (st_cells (g_store g') 2) 140 \<and> healthy (st_cells (g_store g') 2) 141
     \<and> fst (pick_and_begin ''deno'' 140 g') = Some (w_relay 2 ''deno'')"
proof -
  have "sole w_request ''deno'' (w_relay 2 ''deno'') (int (length [100 :: instant]) + 1) 30 (g_st (w_gateway 2 0))"
    by code_simp
  moreover have "rs_consecFails (st_cells (g_store (w_gateway 2 0)) (r_state (w_relay 2 ''deno''))) = 0"
    by code_simp
  moreover have "(110 :: instant) + 30 \<noteq> zero_time" by code_simp
  ultimately obtain g' where
    "serve_all w_request ''deno'' (map (broken_turn w_ok ''unexpected EOF'') ([100] @ [110])) (w_gateway 2 0) = Some g'"
    "\<forall>now. healthy (st_cells (g_store g') (r_state (w_relay 2 ''deno''))) now \<longleftrightarrow> 110 + 30 < now"
    "\<forall>now. fst (pick_and_begin (selector ''deno'') now g') = Some (w_relay 2 ''deno'')"
    using broken_bodies_trip_cooldown [of w_request "''deno''" "w_relay 2 ''deno''" "[100]" 30 "w_gateway 2 0" 110
        w_ok "''unexpected EOF''"] by blast
  moreover have "r_state (w_relay 2 ''deno'') = 2" "selector ''deno'' = ''deno''" by (code_simp, code_simp)
  ultimately show ?thesis by simp
qed

end
