(* ===== verification/Netaddr.thy ===== *)
theory Netaddr
  imports Config
begin

text \<open>
  Addresses: what \<open>validateListenAddr\<close> of \<open>internal/config/config.go\<close> and the probe
  subcommands use of the standard library. \<open>SplitHostPort\<close> and \<open>JoinHostPort\<close> of \<open>net\<close>,
  \<open>strconv.Atoi\<close>, and whether \<open>net.ParseIP\<close> accepts a string.
\<close>

section \<open>Host and port\<close>

fun index_byte :: "char \<Rightarrow> string \<Rightarrow> nat option" where
  "index_byte c [] = None"
| "index_byte c (d # s) = (if d = c then Some 0 else map_option Suc (index_byte c s))"

definition SplitHostPort :: "string \<Rightarrow> (string \<times> string) option" where
  "SplitHostPort hp =
    (case last_index_byte hp (CHR '':'') of
       None \<Rightarrow> None
     | Some i \<Rightarrow>
         (let split =
                (if hd hp = CHR ''['' then
                   (case index_byte (CHR '']'') hp of
                      None \<Rightarrow> None
                    | Some stop \<Rightarrow>
                        if stop + 1 = length hp then None
                        else if stop + 1 = i then Some (drop 1 (take stop hp), 1, stop + 1)
                        else None)
                 else if CHR '':'' \<in> set (take i hp) then None
                 else Some (take i hp, 0, 0))
          in case split of
               None \<Rightarrow> None
             | Some (host, j, k) \<Rightarrow>
                 if CHR ''['' \<in> set (drop j hp) then None
                 else if CHR '']'' \<in> set (drop k hp) then None
                 else Some (host, drop (i + 1) hp)))"

definition JoinHostPort :: "string \<Rightarrow> string \<Rightarrow> string" where
  "JoinHostPort host port =
     (if CHR '':'' \<in> set host then ''['' @ host @ '']:'' @ port else host @ '':'' @ port)"

fun decimal :: "int \<Rightarrow> string \<Rightarrow> int" where
  "decimal x [] = x"
| "decimal x (c # s) = decimal (x * 10 + digit_val c) s"

text \<open>An optional sign, at least one digit, and a value of 64 bits.\<close>

definition Atoi :: "string \<Rightarrow> int option" where
  "Atoi s =
    (let neg = (s \<noteq> [] \<and> hd s = CHR ''-'');
         ds = (if s \<noteq> [] \<and> (hd s = CHR ''-'' \<or> hd s = CHR ''+'') then tl s else s);
         v = (if neg then - decimal 0 ds else decimal 0 ds)
     in if ds = [] \<or> \<not> list_all is_digit ds then None
        else if v < - (2 ^ 63) \<or> v > 2 ^ 63 - 1 then None
        else Some v)"

section \<open>IP literals\<close>

definition ipv4_field :: "string \<Rightarrow> bool" where
  "ipv4_field f \<longleftrightarrow>
     f \<noteq> [] \<and> list_all is_digit f \<and> (length f > 1 \<longrightarrow> hd f \<noteq> CHR ''0'') \<and> decimal 0 f \<le> 255"

definition ipv4_ok :: "string \<Rightarrow> bool" where
  "ipv4_ok s \<longleftrightarrow> (let fs = split_byte (CHR ''.'') s in length fs = 4 \<and> list_all ipv4_field fs)"

text \<open>
  The group loop: \<open>i\<close> bytes are filled, \<open>ell\<close> tells that an ellipsis was seen. The answer is
  whether the rest is an address, an ellipsis standing for one group of zeros at least.
\<close>

function ipv6_groups :: "nat \<Rightarrow> bool \<Rightarrow> string \<Rightarrow> bool" where
  "ipv6_groups i ell s =
     (if i \<ge> 16 then s = [] \<and> \<not> ell
      else
        (let g = takeWhile is_hex s; rest = drop (length g) s in
         if g = [] \<or> length g > 4 then False
         else if rest \<noteq> [] \<and> hd rest = CHR ''.'' then
           (ell \<or> i = 12) \<and> i + 4 \<le> 16 \<and> ipv4_ok s \<and> (if i + 4 < 16 then ell else \<not> ell)
         else if rest = [] then (if i + 2 < 16 then ell else \<not> ell)
         else if hd rest \<noteq> CHR '':'' \<or> length rest = 1 then False
         else if hd (tl rest) = CHR '':'' then
           (if ell then False
            else if tl (tl rest) = [] then i + 2 < 16
            else ipv6_groups (i + 2) True (tl (tl rest)))
         else ipv6_groups (i + 2) ell (tl rest)))"
  by pat_completeness auto
termination by (relation "measure (\<lambda>(i, ell, s). 16 - i)") auto

declare ipv6_groups.simps [simp del]

text \<open>\<open>ParseIP\<close> refuses zones, so an address with a percent sign is not one.\<close>

definition ParseIP_ok :: "string \<Rightarrow> bool" where
  "ParseIP_ok s \<longleftrightarrow>
    (case dropWhile (\<lambda>c. c \<noteq> CHR ''.'' \<and> c \<noteq> CHR '':'' \<and> c \<noteq> CHR ''%'') s of
       [] \<Rightarrow> False
     | c # _ \<Rightarrow>
         if c = CHR ''.'' then ipv4_ok s
         else if c = CHR '':'' then
           CHR ''%'' \<notin> set s
           \<and> (if has_prefix ''::'' s then drop 2 s = [] \<or> ipv6_groups 0 True (drop 2 s)
              else ipv6_groups 0 False s)
         else False)"

section \<open>The listen address\<close>

definition validateListenAddr :: "string \<Rightarrow> cfg_error option" where
  "validateListenAddr addr =
    (case SplitHostPort addr of
       None \<Rightarrow> Some (BadListenAddr addr)
     | Some (host, port) \<Rightarrow>
         (case Atoi port of
            None \<Rightarrow> Some (BadListenAddr addr)
          | Some n \<Rightarrow>
              if n < 1 \<or> n > 65535 then Some (BadListenAddr addr)
              else if host = [] \<or> host = ''0.0.0.0'' \<or> host = ''::'' then None
              else if ParseIP_ok host then None
              else if \<not> validListenerHostname host then Some (BadListenAddr addr)
              else None))"

section \<open>Joining and splitting\<close>

lemma last_index_byte_None: "c \<notin> set s \<Longrightarrow> last_index_byte s c = None"
  by (induction s) auto

lemma last_index_byte_snoc: "c \<notin> set t \<Longrightarrow> last_index_byte (s @ c # t) c = Some (length s)"
  by (induction s) (simp_all add: last_index_byte_None)

lemma index_byte_snoc: "c \<notin> set s \<Longrightarrow> index_byte c (s @ c # t) = Some (length s)"
  by (induction s) auto

text \<open>
  Joining a host and a port and splitting the address again gives both back, IPv6
  hosts with their brackets included.
\<close>

theorem SplitHostPort_JoinHostPort:
  assumes "set host \<inter> {CHR ''['', CHR '']''} = {}" and "set port \<inter> {CHR '':'', CHR ''['', CHR '']''} = {}"
  shows "SplitHostPort (JoinHostPort host port) = Some (host, port)"
proof (cases "CHR '':'' \<in> set host")
  case True
  let ?hp = "(''['' @ host @ '']'') @ CHR '':'' # port"
  have "JoinHostPort host port = ?hp" using True by (simp add: JoinHostPort_def)
  moreover have "last_index_byte ?hp (CHR '':'') = Some (length host + 2)"
    using assms(2) last_index_byte_snoc [of "CHR '':''" port "''['' @ host @ '']''"] by auto
  moreover have "index_byte (CHR '']'') ?hp = Some (length host + 1)"
    using assms(1) index_byte_snoc [of "CHR '']''" "''['' @ host" "CHR '':'' # port"] by auto
  ultimately show ?thesis using assms by (auto simp: SplitHostPort_def Let_def)
next
  case False
  have "JoinHostPort host port = host @ CHR '':'' # port" using False by (simp add: JoinHostPort_def)
  moreover have "last_index_byte (host @ CHR '':'' # port) (CHR '':'') = Some (length host)"
    using assms(2) by (intro last_index_byte_snoc) auto
  moreover have "hd (host @ CHR '':'' # port) \<noteq> CHR ''[''"
    using assms(1) by (cases host) auto
  ultimately show ?thesis using assms False by (auto simp: SplitHostPort_def Let_def)
qed

theorem SplitHostPort_JoinHostPort_witness:
  "SplitHostPort (JoinHostPort ''::1'' ''8080'') = Some (''::1'', ''8080'')"
  by (rule SplitHostPort_JoinHostPort) auto

end
