(* ===== verification/Go_Encoding.thy ===== *)
theory Go_Encoding
  imports Go_Strings
begin

text \<open>
  The part of Go's \<open>net/url\<close>, \<open>encoding/base64\<close>, \<open>encoding/json\<close> and \<open>strconv\<close> packages
  that the platform clients use. None of these definitions model a line of the
  repository; they are the standard library's documented behaviour on bytes.
\<close>

section \<open>Escaping\<close>

definition upper_hex :: "nat \<Rightarrow> char" where
  "upper_hex n = (if n < 10 then char_of (48 + n) else char_of (55 + n))"

definition percent :: "char \<Rightarrow> string" where
  "percent c = [CHR ''%'', upper_hex (byte c div 16), upper_hex (byte c mod 16)]"

definition unreserved :: "char \<Rightarrow> bool" where
  "unreserved c \<longleftrightarrow> is_upper c \<or> is_lower c \<or> is_digit c \<or> c \<in> set ''-_.~''"

definition PathEscape :: "string \<Rightarrow> string" where
  "PathEscape s = concat (map (\<lambda>c. if unreserved c \<or> c \<in> set ''$&+:=@'' then [c] else percent c) s)"

definition QueryEscape :: "string \<Rightarrow> string" where
  "QueryEscape s =
     concat (map (\<lambda>c. if unreserved c then [c] else if c = CHR '' '' then ''+'' else percent c) s)"

text \<open>\<open>%q\<close>; a byte outside ASCII is kept, which Go does for printable runes.\<close>

definition quote_byte :: "char \<Rightarrow> string" where
  "quote_byte c =
     (if byte c = 34 \<or> byte c = 92 then [char_of (92 :: nat), c]
      else if byte c = 7 then [char_of (92 :: nat), CHR ''a'']
      else if byte c = 8 then [char_of (92 :: nat), CHR ''b'']
      else if byte c = 9 then [char_of (92 :: nat), CHR ''t'']
      else if byte c = 10 then [char_of (92 :: nat), CHR ''n'']
      else if byte c = 11 then [char_of (92 :: nat), CHR ''v'']
      else if byte c = 12 then [char_of (92 :: nat), CHR ''f'']
      else if byte c = 13 then [char_of (92 :: nat), CHR ''r'']
      else if is_control c
      then [char_of (92 :: nat), CHR ''x'', lower_byte (upper_hex (byte c div 16)), lower_byte (upper_hex (byte c mod 16))]
      else [c])"

definition go_quote :: "string \<Rightarrow> string" where
  "go_quote s = [char_of (34 :: nat)] @ concat (map quote_byte s) @ [char_of (34 :: nat)]"

section \<open>Base64\<close>

definition b64_digit :: "nat \<Rightarrow> char" where
  "b64_digit n = ''ABCDEFGHIJKLMNOPQRSTUVWXYZabcdefghijklmnopqrstuvwxyz0123456789+/'' ! n"

fun base64 :: "string \<Rightarrow> string" where
  "base64 [] = []"
| "base64 [a] = [b64_digit (byte a div 4), b64_digit ((byte a mod 4) * 16), CHR ''='', CHR ''='']"
| "base64 [a, b] =
     [b64_digit (byte a div 4), b64_digit ((byte a mod 4) * 16 + byte b div 16),
      b64_digit ((byte b mod 16) * 4), CHR ''='']"
| "base64 (a # b # c # s) =
     b64_digit (byte a div 4) # b64_digit ((byte a mod 4) * 16 + byte b div 16)
       # b64_digit ((byte b mod 16) * 4 + byte c div 64) # b64_digit (byte c mod 64) # base64 s"

section \<open>JSON values\<close>

text \<open>A number is kept when it is an integer, which is all the code decodes.\<close>

datatype json = JNull | JBool bool | JNum "int option" | JStr string | JArr "json list" | JObj "(string \<times> json) list"

text \<open>
  \<open>json.Unmarshal\<close> into a field: names match up to case, the last value counts, and \<open>null\<close>
  leaves the zero value. None is a value of the wrong type, which is an error, of whichever
  duplicate it is. Beside the ASCII letters two runes fold to one, U+017F (bytes C5 BF) to \<open>s\<close> and
  the Kelvin sign (bytes E2 84 AA) to \<open>k\<close>; the names of the code are ASCII.
\<close>

fun json_fold :: "string \<Rightarrow> string" where
  "json_fold [] = []"
| "json_fold (c # s) =
     (if byte c = 197 \<and> take 1 s = [CHR 0xBF] then CHR ''s'' # json_fold (drop 1 s)
      else if byte c = 226 \<and> take 2 s = [CHR 0x84, CHR 0xAA] then CHR ''k'' # json_fold (drop 2 s)
      else lower_byte c # json_fold s)"

definition json_values :: "string \<Rightarrow> (string \<times> json) list \<Rightarrow> json list" where
  "json_values name ms =
     filter (\<lambda>v. v \<noteq> JNull) (map snd (filter (\<lambda>(k, v). json_fold k = json_fold name) ms))"

definition json_field :: "string \<Rightarrow> (string \<times> json) list \<Rightarrow> json" where
  "json_field name ms = (case rev (json_values name ms) of [] \<Rightarrow> JNull | v # _ \<Rightarrow> v)"

text \<open>A field of a scalar type, decoded by \<open>dec\<close>.\<close>

definition dec_field :: "(json \<Rightarrow> 'a option) \<Rightarrow> string \<Rightarrow> (string \<times> json) list \<Rightarrow> 'a option" where
  "dec_field dec name ms =
     (if list_all (\<lambda>v. dec v \<noteq> None) (json_values name ms) then dec (json_field name ms) else None)"

fun dec_string :: "json \<Rightarrow> string option" where
  "dec_string JNull = Some []"
| "dec_string (JStr s) = Some s"
| "dec_string _ = None"

fun dec_bool :: "json \<Rightarrow> bool option" where
  "dec_bool JNull = Some False"
| "dec_bool (JBool b) = Some b"
| "dec_bool _ = None"

fun dec_int :: "json \<Rightarrow> int option" where
  "dec_int JNull = Some 0"
| "dec_int (JNum n) = n"
| "dec_int _ = None"

fun dec_members :: "json \<Rightarrow> (string \<times> json) list option" where
  "dec_members JNull = Some []"
| "dec_members (JObj ms) = Some ms"
| "dec_members _ = None"

fun dec_array :: "(json \<Rightarrow> 'a option) \<Rightarrow> json \<Rightarrow> 'a list option" where
  "dec_array f JNull = Some []"
| "dec_array f (JArr xs) = those (map f xs)"
| "dec_array f _ = None"

text \<open>Two fields of a struct.\<close>

definition dec_pair :: "'a option \<Rightarrow> 'b option \<Rightarrow> ('a \<Rightarrow> 'b \<Rightarrow> 'c) \<Rightarrow> 'c option" where
  "dec_pair x y f = (case (x, y) of (Some a, Some b) \<Rightarrow> Some (f a b) | _ \<Rightarrow> None)"

end
