(* ===== verification/Main_Process.thy ===== *)
theory Main_Process
  imports Gateway Netaddr Registry Pool_Rebuild Go_Encoding
begin

text \<open>
  \<open>cmd/http-relay-gateway/main.go\<close>: the derivation of a serving state from the registry
  (\<open>buildState\<close>), the applier's rebuild, the desired-state store with its polling, and the
  command line. The order in which the applier, the reconciler and the requests interleave
  is the subject of \<^theory_text>\<open>System\<close>.

  \<open>url.Parse\<close> is a parameter: the host of the URL and the URL as \<open>String\<close> prints it, or None.
\<close>

section \<open>buildState\<close>

type_synonym url_parser = "string \<Rightarrow> (string \<times> string) option"

definition relay_input_of :: "serving \<Rightarrow> string \<Rightarrow> relay_input" where
  "relay_input_of s u =
     \<lparr>ri_name = key_name (sv_key s), ri_provider = key_provider (sv_key s), ri_url = u,
      ri_token = sv_token s, ri_maxBody = ProviderMaxBody (key_provider (sv_key s)),
      ri_incarnation = sv_version s,
      ri_runtime = \<lparr>rk_provider = key_provider (sv_key s), rk_name = key_name (sv_key s),
                    rk_scopeFP = sv_scopeFP s, rk_url = u, rk_tokenFP = TokenFingerprint (sv_token s)\<rparr>\<rparr>"

text \<open>A row whose URL does not parse, or has no host, is left out.\<close>

fun relay_inputs :: "url_parser \<Rightarrow> serving list \<Rightarrow> relay_input list" where
  "relay_inputs up [] = []"
| "relay_inputs up (s # ss) =
     (case up (sv_url s) of
        None \<Rightarrow> relay_inputs up ss
      | Some (host, u) \<Rightarrow> if host = [] then relay_inputs up ss
                        else relay_input_of s u # relay_inputs up ss)"

fun max_buffer :: "int \<Rightarrow> relay_input list \<Rightarrow> int" where
  "max_buffer m [] = m"
| "max_buffer m (i # ins) = max_buffer (if ri_maxBody i > m then ri_maxBody i else m) ins"

definition lifecycle_of :: "reg_record \<Rightarrow> lifecycle_row" where
  "lifecycle_of c =
     \<lparr>lc_name = key_name (rec_key c), lc_provider = key_provider (rec_key c),
      lc_state = state_string (rec_state c), lc_reason = rec_reason c, lc_generation = rec_generation c\<rparr>"

text \<open>
  \<open>reg\<close> is the registry when \<open>Serving\<close> is read, \<open>reg'\<close> when \<open>Snapshot\<close> is: other threads may
  act in between.
\<close>

definition buildState ::
    "url_parser \<Rightarrow> registry \<Rightarrow> registry \<Rightarrow> cfg_settings \<Rightarrow> runtime \<times> store \<Rightarrow> client_cache
      \<Rightarrow> gstate \<times> (runtime \<times> store) \<times> client_cache" where
  "buildState up reg reg' settings rs cc =
    (let ins = relay_inputs up (Serving reg);
         (p, rs') = NewAttached \<lparr>pi_failureThreshold = se_failureThreshold settings,
                                pi_cooldown = se_cooldown settings, pi_relays = ins\<rparr> rs;
         (client, cc') = Client (se_dialTimeout settings) (se_responseHeaderTimeout settings) cc
     in (\<lparr>gs_pool = p, gs_client = client, gs_maxRetries = se_maxRetries settings,
          gs_maxBufferBytes = max_buffer 0 ins,
          gs_streamThresholdBytes = se_streamThresholdBytes settings,
          gs_lifecycle = map lifecycle_of (Snapshot reg')\<rparr>, rs', cc'))"

definition desiredIdentities :: "config option \<Rightarrow> string set" where
  "desiredIdentities cfg =
     (case cfg of None \<Rightarrow> {} | Some c \<Rightarrow> (\<lambda>r. rl_provider r @ ''/'' @ rl_name r) ` set (cf_relays c))"

text \<open>The settings a registry is seeded with, and pushed on an accepted reload.\<close>

definition registry_settings :: "cfg_settings \<Rightarrow> settings" where
  "registry_settings s =
     \<lparr>rs_backoffBase = se_verifyBackoffBase s, rs_backoffMax = se_verifyBackoffMax s,
      rs_recoverMax = se_verifyRecoverMax s, rs_pauseRetry = se_reviveScanInterval s,
      rs_demoteAfter = se_verifyDemoteAfter s\<rparr>"

definition effective :: "config option \<Rightarrow> cfg_settings" where
  "effective cfg = (case cfg of None \<Rightarrow> defaultSettings | Some c \<Rightarrow> cf_settings c)"

text \<open>The body of \<open>apply\<close> after the count is captured, run without interference.\<close>

definition rebuild ::
    "url_parser \<Rightarrow> bool \<Rightarrow> config option \<Rightarrow> registry \<times> gateway \<times> client_cache
      \<Rightarrow> registry \<times> gateway \<times> client_cache" where
  "rebuild up from_config cfg rgc =
    (let (reg, g, cc) = rgc;
         s = effective cfg;
         reg1 = (if from_config then UpdateSettings (registry_settings s) reg else reg);
         rt = Prune (desiredIdentities cfg) (g_rt g);
         (st, (rt', store'), cc') = buildState up reg1 reg1 s (rt, g_store g) cc
     in (reg1, Swap st (g\<lparr>g_rt := rt', g_store := store'\<rparr>), cc'))"

section \<open>The desired-state store\<close>

record desired_store =
  ds_p :: "config option"
  ds_lastKey :: string
  ds_appliedKey :: string

definition newDesiredStore :: desired_store where
  "newDesiredStore = \<lparr>ds_p = None, ds_lastKey = [], ds_appliedKey = []\<rparr>"

definition hash_key :: "string \<Rightarrow> string" where
  "hash_key raw = ''hash: '' @ hex_encode (sha256 raw)"

text \<open>
  \<open>poll\<close> reads the file twice: once for the hash (\<open>raw\<close>, or the error text), once inside
  \<open>config.Load\<close> (\<open>loaded\<close>, or the error text). The flag tells whether a warning is logged.
\<close>

definition poll :: "string + string \<Rightarrow> string + config \<Rightarrow> desired_store \<Rightarrow> bool \<times> bool \<times> desired_store" where
  "poll raw loaded s =
    (case raw of
       Inl err \<Rightarrow>
         (let key = ''unreadable: '' @ ErrorString (Some err)
          in (False, key \<noteq> ds_lastKey s, s\<lparr>ds_lastKey := key\<rparr>))
     | Inr content \<Rightarrow>
         (case loaded of
            Inl err \<Rightarrow>
              (let key = ''invalid: '' @ ErrorString (Some err)
               in (False, key \<noteq> ds_lastKey s, s\<lparr>ds_lastKey := key\<rparr>))
          | Inr cfg \<Rightarrow>
              (let key = hash_key content; s1 = s\<lparr>ds_lastKey := key\<rparr>
               in if key = ds_appliedKey s1 then (False, False, s1)
                  else (True, False, s1\<lparr>ds_appliedKey := key, ds_p := Some cfg\<rparr>))))"

section \<open>Command line\<close>

datatype cli_output = OutVersion | OutUsage | ErrUnknown string | ErrSurplus string "string list" | ErrUsage

text \<open>\<open>checker\<close> stands for the probe subcommand's exit code; the answer is code, handled, output.\<close>

definition dispatch :: "(string \<Rightarrow> string \<Rightarrow> int) \<Rightarrow> string list \<Rightarrow> int \<times> bool \<times> cli_output list" where
  "dispatch checker args =
    (case args of
       [] \<Rightarrow> (0, False, [])
     | a # rest \<Rightarrow>
         if a \<notin> set [''version'', ''healthcheck'', ''readinesscheck'', ''-h'', ''--help'']
         then (2, True, [ErrUnknown a, ErrUsage])
         else if rest \<noteq> [] then (2, True, [ErrSurplus a rest, ErrUsage])
         else if a = ''version'' then (0, True, [OutVersion])
         else if a = ''healthcheck'' then (checker ''/healthz'' (''ok'' @ [CHR 0x0A]), True, [])
         else if a = ''readinesscheck'' then (checker ''/readyz'' [], True, [])
         else (0, True, [OutUsage]))"

text \<open>How \<open>url.URL.String\<close> escapes a host.\<close>

definition host_byte :: "char \<Rightarrow> bool" where
  "host_byte c \<longleftrightarrow>
     is_upper c \<or> is_lower c \<or> is_digit c \<or> c \<in> set ''!$&()*+,;=:[]<>-_.~'' \<or> byte c = 39 \<or> byte c = 34"

definition escape_host :: "string \<Rightarrow> string" where
  "escape_host h =
     concat (map (\<lambda>c. if host_byte c then [c] else percent c) h)"

definition probeURL :: "string \<Rightarrow> string \<Rightarrow> string option" where
  "probeURL addr path =
    (case SplitHostPort addr of
       None \<Rightarrow> None
     | Some (host, port) \<Rightarrow>
         (let h = (if host = [] \<or> host = ''0.0.0.0'' then ''127.0.0.1'' else if host = ''::'' then ''::1'' else host)
          in Some (''http://'' @ escape_host (JoinHostPort h port) @ path)))"

text \<open>\<open>fetch\<close> performs the request: an error, or the status and the body.\<close>

definition healthcheck ::
    "(string \<Rightarrow> string option) \<Rightarrow> (string \<Rightarrow> (int \<times> string) option) \<Rightarrow> string \<Rightarrow> string \<Rightarrow> int" where
  "healthcheck env fetch path wantBody =
    (let addr = (case env ''LISTEN_ADDR'' of None \<Rightarrow> '':8080'' | Some v \<Rightarrow> if v = [] then '':8080'' else v)
     in case probeURL addr path of
          None \<Rightarrow> 1
        | Some target \<Rightarrow>
            (case fetch target of
               None \<Rightarrow> 1
             | Some (status, body) \<Rightarrow>
                 if status \<noteq> 200 \<or> (wantBody \<noteq> [] \<and> take 64 body \<noteq> wantBody) then 1 else 0))"

datatype level = DebugLevel | InfoLevel | WarnLevel | ErrorLevel

definition parseZerologLevel :: "string \<Rightarrow> level" where
  "parseZerologLevel l =
     (if l = ''debug'' then DebugLevel else if l = ''warn'' then WarnLevel
      else if l = ''error'' then ErrorLevel else InfoLevel)"

end
