(* ===== verification/Main_Properties.thy ===== *)
theory Main_Properties
  imports Main_Process Registry_Properties
begin

text \<open>
  The process wiring: a rebuilt serving state lists exactly the registry's serving rows, a
  rebuild resets no endpoint it keeps, the store tracks the last valid file, and what an
  accepted listen address guarantees the probe subcommands.
\<close>

section \<open>The serving state\<close>

lemma relay_inputs_total:
  assumes "\<forall>s \<in> set ss. \<exists>h u. up (sv_url s) = Some (h, u) \<and> h \<noteq> []"
  shows "relay_inputs up ss = map (\<lambda>s. relay_input_of s (snd (the (up (sv_url s))))) ss"
  using assms by (induction ss) auto

lemma max_buffer_bounds:
  "m \<le> max_buffer m ins \<and> (\<forall>i \<in> set ins. ri_maxBody i \<le> max_buffer m ins)
   \<and> max_buffer m ins \<in> insert m (ri_maxBody ` set ins)"
  by (induction m ins rule: max_buffer.induct) (auto split: if_splits)

lemma ProviderMaxBody_pos: "0 < ProviderMaxBody p"
  by (simp add: ProviderMaxBody_def VercelMaxBody_def CloudflareMaxBody_def DenoMaxBody_def)

text \<open>What a pool relay says about the row it was built from.\<close>

definition relay_row :: "relay \<Rightarrow> relay_key \<times> string \<times> string \<times> nat \<times> int" where
  "relay_row r = (RelayKey (r_provider r) (r_name r), r_url r, r_token r, r_incarnation r, r_maxBody r)"

definition serving_row :: "url_parser \<Rightarrow> serving \<Rightarrow> relay_key \<times> string \<times> string \<times> nat \<times> int" where
  "serving_row up s = (sv_key s, snd (the (up (sv_url s))), sv_token s, sv_version s,
                       ProviderMaxBody (key_provider (sv_key s)))"

lemma shape_rows:
  "list_all2 (\<lambda>r i. \<exists>a. r = relay_of a i) rels (map (\<lambda>s. relay_input_of s (snd (the (up (sv_url s))))) ss) \<Longrightarrow>
     map relay_row rels = map (serving_row up) ss"
proof (induction ss arbitrary: rels)
  case (Cons s ss)
  then obtain a rels' where "rels = relay_of a (relay_input_of s (snd (the (up (sv_url s))))) # rels'"
    "map relay_row rels' = map (serving_row up) ss"
    by (auto simp: list_all2_Cons2)
  moreover have "relay_row (relay_of a (relay_input_of s (snd (the (up (sv_url s)))))) = serving_row up s"
    by (simp add: relay_row_def serving_row_def relay_input_of_def)
  ultimately show ?case by simp
qed simp

lemma shape_limits:
  "list_all2 (\<lambda>r i. \<exists>a. r = relay_of a i) rels ins \<Longrightarrow> map r_maxBody rels = map ri_maxBody ins"
  by (induction rule: list_all2_induct) auto

lemma max_buffer_zero:
  assumes "\<forall>i \<in> set ins. 0 < ri_maxBody i"
  shows "max_buffer 0 ins = 0 \<longleftrightarrow> ins = []"
proof (cases ins)
  case (Cons i js)
  then have "ri_maxBody i \<le> max_buffer 0 ins" "0 < ri_maxBody i"
    using max_buffer_bounds [of 0 ins] assms by auto
  with Cons show ?thesis by simp
qed simp

lemma max_buffer_Max:
  assumes "\<forall>i \<in> set ins. 0 < ri_maxBody i"
  shows "max_buffer 0 ins = Max (insert 0 (ri_maxBody ` set ins))"
  using max_buffer_bounds [of 0 ins] assms by (intro Max_eqI [symmetric]) auto

text \<open>
  C28. The serving state is the registry's verified snapshot: as long as every verified URL
  parses, the pool lists exactly the serving rows, in their order, each with the verified
  URL and relay key, the incarnation and its provider's body limit; the buffer cap is the
  maximum of these limits and zero, hence the limit of a relay of the pool unless the fleet is
  empty, when it is zero.
\<close>

theorem buildState_exact:
  assumes "\<forall>s \<in> set (Serving reg). \<exists>h u. up (sv_url s) = Some (h, u) \<and> h \<noteq> []"
    and "buildState up reg reg' settings rs cc = (st, rs', cc')"
  shows "map relay_row (p_relays (gs_pool st)) = map (serving_row up) (Serving reg)
    \<and> gs_maxBufferBytes st = Max (insert 0 (r_maxBody ` set (p_relays (gs_pool st))))
    \<and> (gs_maxBufferBytes st = 0 \<longleftrightarrow> Serving reg = [])"
proof -
  let ?ins = "map (\<lambda>s. relay_input_of s (snd (the (up (sv_url s))))) (Serving reg)"
  obtain rels rs1 where b: "build_relays True ?ins rs = (rels, rs1)" by (cases "build_relays True ?ins rs")
  obtain c cc1 where c: "Client (se_dialTimeout settings) (se_responseHeaderTimeout settings) cc = (c, cc1)"
    by (cases "Client (se_dialTimeout settings) (se_responseHeaderTimeout settings) cc")
  have p: "p_relays (gs_pool st) = rels" and m: "gs_maxBufferBytes st = max_buffer 0 ?ins"
    using assms(2) b c
    by (auto simp: buildState_def NewAttached_def newPool_def relay_inputs_total [OF assms(1)] Let_def)
  note shape = build_relays_shape [OF b]
  have rows: "map relay_row rels = map (serving_row up) (Serving reg)"
    by (rule shape_rows [OF shape])
  have pos: "\<forall>i \<in> set ?ins. 0 < ri_maxBody i" using ProviderMaxBody_pos by (simp add: relay_input_of_def)
  have "r_maxBody ` set rels = ri_maxBody ` set ?ins"
    using shape_limits [OF shape] by (metis set_map)
  then have "max_buffer 0 ?ins = Max (insert 0 (r_maxBody ` set rels))" using max_buffer_Max [OF pos] by simp
  moreover have "max_buffer 0 ?ins = 0 \<longleftrightarrow> Serving reg = []"
    using max_buffer_zero [OF pos] by simp
  ultimately show ?thesis using rows p m by simp
qed

text \<open>A parser for URLs of the form the platforms use.\<close>

definition w_url :: url_parser where
  "w_url u = (if has_prefix ''https://'' u then Some (drop 8 u, u) else None)"

lemma w_admitted_serving: "Serving w_admitted = [serving_of w_entry]"
  by (simp add: Serving_def w_admitted_eq) (simp add: w_entry_def)

lemma w_admitted_urls: "\<forall>s \<in> set (Serving w_admitted). \<exists>h u. w_url (sv_url s) = Some (h, u) \<and> h \<noteq> []"
  by (simp add: w_admitted_serving serving_of_def w_entry_def w_url_def has_prefix_def)

theorem buildState_exact_witness:
  "case buildState w_url w_admitted w_admitted defaultSettings (NewRuntimeState, empty_store) NewClientCache of
     (st, rs', cc') \<Rightarrow>
       map relay_row (p_relays (gs_pool st)) = map (serving_row w_url) [serving_of w_entry]
       \<and> gs_maxBufferBytes st = Max (insert 0 (r_maxBody ` set (p_relays (gs_pool st))))
       \<and> gs_maxBufferBytes st \<noteq> 0"
proof -
  obtain st rs' cc' where
    b: "buildState w_url w_admitted w_admitted defaultSettings (NewRuntimeState, empty_store) NewClientCache = (st, rs', cc')"
    by (metis prod_cases3)
  from buildState_exact [OF w_admitted_urls b] b show ?thesis by (simp add: w_admitted_serving)
qed

section \<open>Rebuilds\<close>

lemma key_string_inj:
  assumes "key_provider k \<in> set Platforms" and "key_provider k' \<in> set Platforms" and "key_string k = key_string k'"
  shows "k = k'"
  using key_string_less [OF assms(1,2)] key_string_less [OF assms(2,1)] assms(3) by simp

lemma identity_input: "identity (ri_runtime (relay_input_of s u)) = key_string (sv_key s)"
  by (simp add: relay_input_of_def identity_def key_string_def)

lemma relay_inputs_keys:
  "map (\<lambda>i. identity (ri_runtime i)) (relay_inputs up ss) = map (\<lambda>s. key_string (sv_key s))
     (filter (\<lambda>s. \<exists>h u. up (sv_url s) = Some (h, u) \<and> h \<noteq> []) ss)"
  by (induction ss) (auto simp: identity_input split: option.split)

lemma relay_inputs_distinct:
  assumes "distinct (map sv_key ss)" and "\<forall>s \<in> set ss. key_provider (sv_key s) \<in> set Platforms"
  shows "distinct (map (\<lambda>i. identity (ri_runtime i)) (relay_inputs up ss))"
proof -
  have "inj_on (\<lambda>s. key_string (sv_key s)) (set ss)"
    using assms by (intro inj_onI) (metis key_string_inj distinct_map inj_on_def)
  with assms(1) show ?thesis
    by (auto simp: relay_inputs_keys distinct_map intro: inj_on_subset)
qed

lemma relay_inputs_mem:
  "s \<in> set ss \<Longrightarrow> up (sv_url s) = Some (h, u) \<Longrightarrow> h \<noteq> [] \<Longrightarrow> relay_input_of s u \<in> set (relay_inputs up ss)"
  by (induction ss) (auto split: option.split)

text \<open>
  An unrelated rebuild resets nothing. Whatever else changed in the registry, the
  settings or the configuration: a relay that is still desired and still served at the
  same endpoint (scope, URL, relay key) is attached to the very state it had, with its
  counters, streak and cooldown as they were.
\<close>

theorem rebuild_keeps_endpoint:
  assumes "rebuild up from_config cfg (reg, g, cc) = (reg', g', cc')"
    and "reg_wf reg'" and "\<forall>s \<in> set (Serving reg'). key_provider (sv_key s) \<in> set Platforms"
    and "runtime_ok (g_rt g, g_store g)"
    and "s \<in> set (Serving reg')" and "up (sv_url s) = Some (h, u)" and "h \<noteq> []"
    and "key_string (sv_key s) \<in> desiredIdentities cfg"
    and "rt_entries (g_rt g) (ri_runtime (relay_input_of s u)) = Some a"
  shows "\<exists>rl \<in> set (p_relays (gs_pool (g_st g'))).
           r_state rl = a \<and> relay_row rl = serving_row up s \<and> st_cells (g_store g') a = st_cells (g_store g) a"
proof -
  let ?k = "ri_runtime (relay_input_of s u)" and ?ins = "relay_inputs up (Serving reg')"
  let ?rt = "Prune (desiredIdentities cfg) (g_rt g)"
  obtain rels rt1 st1 where b: "build_relays True ?ins (?rt, g_store g) = (rels, rt1, st1)"
    by (metis prod_cases3)
  obtain c cc1 where c: "Client (se_dialTimeout (effective cfg)) (se_responseHeaderTimeout (effective cfg)) cc = (c, cc1)"
    by fastforce
  have "reg' = (if from_config then UpdateSettings (registry_settings (effective cfg)) reg else reg)"
    using assms(1) by (auto simp: rebuild_def Let_def split: prod.splits)
  then have out: "p_relays (gs_pool (g_st g')) = rels" "g_store g' = st1"
    using assms(1) b c
    by (auto simp: rebuild_def buildState_def NewAttached_def newPool_def Let_def Swap_def split: prod.splits if_splits)
  have ok: "runtime_ok (?rt, g_store g)" using Prune_ok [OF assms(4)] .
  have dist: "distinct (map (\<lambda>i. identity (ri_runtime i)) ?ins)"
    by (rule relay_inputs_distinct [OF Serving_distinct [OF assms(2)] assms(3)])
  have entry: "rt_entries ?rt ?k = Some a"
    using assms(8,9) by (simp add: Prune_def Let_def identity_input)
  have all: "list_all2 (carried (?rt, g_store g) (rt1, st1)) rels ?ins"
    using build_relays_attached [OF ok dist b] by simp
  have shape: "list_all2 (\<lambda>r i. \<exists>a. r = relay_of a i) rels ?ins" by (rule build_relays_shape [OF b])
  have "relay_input_of s u \<in> set ?ins" by (rule relay_inputs_mem [where up = up and s = s and u = u, OF assms(5-7)])
  then obtain n where n: "n < length ?ins" "?ins ! n = relay_input_of s u" by (auto simp: in_set_conv_nth)
  from list_all2_nthD2 [OF all n(1)] n(2)
  have car: "carried (?rt, g_store g) (rt1, st1) (rels ! n) (relay_input_of s u)" by simp
  from list_all2_nthD2 [OF shape n(1)] n(2)
  have sh: "\<exists>a. rels ! n = relay_of a (relay_input_of s u)" by simp
  have mem: "rels ! n \<in> set rels" using list_all2_lengthD [OF all] n(1) by simp
  from car sh have "r_state (rels ! n) = a \<and> st_cells st1 a = st_cells (g_store g) a"
    and "relay_row (rels ! n) = serving_row up s"
    using entry assms(6) by (auto simp: carried_def relay_row_def serving_row_def relay_input_of_def)
  with mem out show ?thesis by blast
qed

text \<open>The admitted relay, known to the runtime state at address 0 with one request counted.\<close>

definition w_endpoint :: runtime_key where
  "w_endpoint = ri_runtime (relay_input_of (serving_of w_entry) ''https://edge.deno.dev'')"

definition w_served_gateway :: gateway where
  "w_served_gateway =
     New_gateway \<lparr>gs_pool = \<lparr>p_relays = [], p_rr = Map.empty, p_threshold = 3, p_cooldown = 30, p_attached = True\<rparr>,
                  gs_client = 0, gs_maxRetries = 2, gs_maxBufferBytes = 0, gs_streamThresholdBytes = 0,
                  gs_lifecycle = []\<rparr> ''1'' ''2''
       (fst (snd (Attach w_endpoint (NewRuntimeState, empty_store))),
        upd_cell 0 count_request (snd (snd (Attach w_endpoint (NewRuntimeState, empty_store)))))"

definition w_desired :: config where
  "w_desired =
     \<lparr>cf_relays = [\<lparr>rl_name = ''edge'', rl_provider = ''deno'', rl_token = ''t'', rl_tokenFile = [], rl_team = [],
                   rl_account = [], rl_organization = []\<rparr>],
      cf_settings = defaultSettings\<rparr>"

lemma w_served_runtime:
  "rt_entries (g_rt w_served_gateway) w_endpoint = Some 0"
  "runtime_ok (g_rt w_served_gateway, g_store w_served_gateway)"
  "rs_requests (st_cells (g_store w_served_gateway) 0) = 1"
proof -
  obtain a rt st where att: "Attach w_endpoint (NewRuntimeState, empty_store) = (a, rt, st)" by (metis prod_cases3)
  then have a: "a = 0" "st_cells st 0 = fresh_state"
    using Attach_new [OF runtime_ok_init [of empty_store] _ att] by (simp_all add: NewRuntimeState_def empty_store_def)
  note ok = Attach_ok [OF runtime_ok_init [of empty_store] att]
  show "rt_entries (g_rt w_served_gateway) w_endpoint = Some 0"
    "rs_requests (st_cells (g_store w_served_gateway) 0) = 1"
    using ok a by (simp_all add: w_served_gateway_def New_gateway_def att upd_cell_def count_request_def fresh_state_def)
  show "runtime_ok (g_rt w_served_gateway, g_store w_served_gateway)"
    using ok by (simp add: w_served_gateway_def New_gateway_def att upd_cell_def runtime_ok_def)
qed

theorem rebuild_keeps_endpoint_witness:
  "case rebuild w_url False (Some w_desired) (w_admitted, w_served_gateway, NewClientCache) of (reg', g', cc') \<Rightarrow>
     \<exists>rl \<in> set (p_relays (gs_pool (g_st g'))). r_state rl = 0 \<and> rs_requests (st_cells (g_store g') 0) = 1"
proof -
  obtain reg' g' cc' where
    r: "rebuild w_url False (Some w_desired) (w_admitted, w_served_gateway, NewClientCache) = (reg', g', cc')"
    by (metis prod_cases3)
  then have reg': "reg' = w_admitted" by (auto simp: rebuild_def Let_def split: prod.splits)
  have "key_provider (sv_key (serving_of w_entry)) \<in> set Platforms"
    "key_string (sv_key (serving_of w_entry)) \<in> desiredIdentities (Some w_desired)"
    "w_url (sv_url (serving_of w_entry)) = Some (''edge.deno.dev'', ''https://edge.deno.dev'')"
    by (simp_all add: serving_of_def w_entry_def w_relay_key_def platform_defs key_string_def desiredIdentities_def
        w_desired_def w_url_def has_prefix_def)
  with rebuild_keeps_endpoint [OF r, of "serving_of w_entry" "''edge.deno.dev''" "''https://edge.deno.dev''" 0]
    w_served_runtime w_admitted_wf r
  show ?thesis by (simp add: reg' w_admitted_serving w_endpoint_def) metis
qed

section \<open>The desired-state store\<close>

text \<open>
  What one tick of the watcher reads, when both reads see the same file: \<open>load\<close> stands for
  \<open>config.Load\<close> on a content.
\<close>

definition tick :: "(string \<Rightarrow> string + config) \<Rightarrow> string + string \<Rightarrow> desired_store \<Rightarrow> desired_store" where
  "tick load raw s = snd (snd (poll raw (case raw of Inl e \<Rightarrow> Inl e | Inr c \<Rightarrow> load c) s))"

definition valid_reads :: "(string \<Rightarrow> string + config) \<Rightarrow> (string + string) list \<Rightarrow> string list" where
  "valid_reads load raws =
     concat (map (\<lambda>raw. case raw of Inl e \<Rightarrow> [] | Inr c \<Rightarrow> (case load c of Inl e \<Rightarrow> [] | Inr cfg \<Rightarrow> [c])) raws)"

definition load_of :: "(string \<Rightarrow> string + config) \<Rightarrow> string list \<Rightarrow> config option" where
  "load_of load cs = (if cs = [] then None else case load (last cs) of Inl e \<Rightarrow> None | Inr cfg \<Rightarrow> Some cfg)"

definition applied_of :: "string list \<Rightarrow> string" where
  "applied_of cs = (if cs = [] then [] else hash_key (last cs))"

lemma hash_key_nonempty: "hash_key c \<noteq> []"
  by (simp add: hash_key_def)

lemma tick_run:
  assumes "inj_on hash_key (set (valid_reads load raws))"
  shows "ds_p (fold (tick load) raws newDesiredStore) = load_of load (valid_reads load raws)
    \<and> ds_appliedKey (fold (tick load) raws newDesiredStore) = applied_of (valid_reads load raws)"
  using assms
proof (induction raws rule: rev_induct)
  case Nil
  then show ?case by (simp add: newDesiredStore_def valid_reads_def load_of_def applied_of_def)
next
  case (snoc raw raws)
  let ?cs = "valid_reads load raws" and ?s = "fold (tick load) raws newDesiredStore"
  have IH: "ds_p ?s = load_of load ?cs" "ds_appliedKey ?s = applied_of ?cs"
    using snoc by (auto simp: valid_reads_def inj_on_Un)
  show ?case
  proof (cases "valid_reads load [raw]")
    case Nil
    then have "valid_reads load (raws @ [raw]) = ?cs" by (simp add: valid_reads_def)
    moreover have "ds_p (tick load raw ?s) = ds_p ?s" "ds_appliedKey (tick load raw ?s) = ds_appliedKey ?s"
      using Nil by (auto simp: tick_def poll_def valid_reads_def Let_def split: sum.splits)
    ultimately show ?thesis using IH by simp
  next
    case (Cons c xs)
    then obtain cfg where raw: "raw = Inr c" "load c = Inr cfg"
      by (auto simp: valid_reads_def split: sum.splits)
    then have cs: "valid_reads load (raws @ [raw]) = ?cs @ [c]" by (simp add: valid_reads_def)
    have "last ?cs = c" if "?cs \<noteq> []" "hash_key (last ?cs) = hash_key c"
      using inj_onD [OF snoc.prems [unfolded cs], of "last ?cs" c] that by simp
    then have "ds_p (tick load raw ?s) = Some cfg \<and> ds_appliedKey (tick load raw ?s) = hash_key c"
      using IH raw hash_key_nonempty [of c]
      by (auto simp: tick_def poll_def Let_def load_of_def applied_of_def split: if_splits)
    then show ?thesis unfolding cs by (simp add: raw(2) load_of_def applied_of_def)
  qed
qed

text \<open>
  Last known good: after any sequence of polls the store holds the configuration of
  the last readable, valid file seen, whatever unreadable or invalid ones came after it,
  and nothing before the first; provided each poll sees one file and SHA-256 does not
  collide on the contents seen.
\<close>

theorem store_tracks_last_valid:
  assumes "inj_on hash_key (set (valid_reads load raws))"
  shows "ds_p (fold (tick load) raws newDesiredStore) = load_of load (valid_reads load raws)"
  using tick_run [OF assms] by simp

definition w_load :: "string \<Rightarrow> string + config" where
  "w_load c = (if c = ''good'' then Inr w_desired else Inl ''bad yaml'')"

theorem store_tracks_last_valid_witness:
  "ds_p (fold (tick w_load) [Inl ''no such file'', Inr ''good'', Inr ''broken''] newDesiredStore) = Some w_desired"
proof -
  have "valid_reads w_load [Inl ''no such file'', Inr ''good'', Inr ''broken''] = [''good'']"
    by (simp add: valid_reads_def w_load_def)
  with store_tracks_last_valid [of w_load "[Inl ''no such file'', Inr ''good'', Inr ''broken'']"]
  show ?thesis by (simp add: load_of_def w_load_def)
qed

text \<open>A poll that sees the contents last applied, or no contents, leaves the configuration.\<close>

lemma poll_keeps:
  assumes "case raw of Inl e \<Rightarrow> True | Inr c \<Rightarrow> hash_key c = ds_appliedKey s"
  shows "ds_p (snd (snd (poll raw loaded s))) = ds_p s
    \<and> ds_appliedKey (snd (snd (poll raw loaded s))) = ds_appliedKey s"
  using assms by (auto simp: poll_def Let_def split: sum.splits)

lemma polls_keep:
  assumes "list_all (\<lambda>(raw, loaded). case raw of Inl e \<Rightarrow> True | Inr c \<Rightarrow> hash_key c = ds_appliedKey s) polls"
  shows "ds_p (fold (\<lambda>(raw, loaded) s. snd (snd (poll raw loaded s))) polls s) = ds_p s"
  using assms
proof (induction polls arbitrary: s)
  case (Cons x polls)
  obtain raw loaded where x: "x = (raw, loaded)" by (cases x)
  let ?s = "snd (snd (poll raw loaded s))"
  have k: "ds_p ?s = ds_p s" "ds_appliedKey ?s = ds_appliedKey s"
    using poll_keeps [of s raw loaded] Cons.prems x by simp_all
  have "list_all (\<lambda>(raw, loaded). case raw of Inl e \<Rightarrow> True | Inr c \<Rightarrow> hash_key c = ds_appliedKey s) polls"
    using Cons.prems by simp
  from Cons.IH [of ?s, unfolded k, OF this] show ?case by (simp add: x)
qed simp

text \<open>
  C38. One poll reads the file twice. At any poll of the running process whose file contents
  \<open>original\<close> are not those last applied: if the file is replaced between the two reads by a valid
  one and then put back, the store takes the replacement's configuration under the original's
  hash; and however many later polls find the original file, or cannot read it, whatever the
  configuration they load, the store keeps the replacement.
\<close>

theorem poll_race_sticks:
  assumes "hash_key original \<noteq> ds_appliedKey s"
    and "list_all (\<lambda>(raw, loaded). raw = Inr original \<or> (\<exists>e. raw = Inl e)) later"
  shows "ds_appliedKey (snd (snd (poll (Inr original) (Inr replacement) s))) = hash_key original
    \<and> ds_p (fold (\<lambda>(raw, loaded) s. snd (snd (poll raw loaded s))) later
              (snd (snd (poll (Inr original) (Inr replacement) s)))) = Some replacement"
proof -
  let ?s = "snd (snd (poll (Inr original) (Inr replacement) s))"
  have race: "ds_p ?s = Some replacement" "ds_appliedKey ?s = hash_key original"
    using assms(1) by (simp_all add: poll_def Let_def)
  have "list_all (\<lambda>(raw, loaded). case raw of Inl e \<Rightarrow> True | Inr c \<Rightarrow> hash_key c = ds_appliedKey ?s) later"
    using assms(2) race(2) by (auto simp: list_all_iff)
  from polls_keep [OF this] race show ?thesis by simp
qed

text \<open>A process that found no file at its first poll; the race is at the second.\<close>

definition w_running :: desired_store where
  "w_running = snd (snd (poll (Inl ''no such file'') (Inl []) newDesiredStore))"

lemma w_race_fresh: "hash_key ''good'' \<noteq> ds_appliedKey w_running"
  by (simp add: w_running_def poll_def newDesiredStore_def hash_key_nonempty Let_def)

theorem poll_race_sticks_witness:
  "ds_p (fold (\<lambda>(raw, loaded) s. snd (snd (poll raw loaded s)))
          [(Inr ''good'', Inr w_desired), (Inl ''no such file'', Inl []), (Inr ''good'', Inr w_desired)]
          (snd (snd (poll (Inr ''good'') (Inr (w_desired\<lparr>cf_relays := []\<rparr>)) w_running))))
     = Some (w_desired\<lparr>cf_relays := []\<rparr>) \<and> cf_relays w_desired \<noteq> []"
  using poll_race_sticks [OF w_race_fresh, of
      "[(Inr ''good'', Inr w_desired), (Inl ''no such file'', Inl []), (Inr ''good'', Inr w_desired)]"
      "w_desired\<lparr>cf_relays := []\<rparr>"]
  by (simp add: w_desired_def)

section \<open>Probes\<close>

text \<open>
  The container's health probe always finds its address: whatever listen address the
  bootstrap accepts, the probe subcommands can turn it into a URL.
\<close>

theorem accepted_address_is_probed:
  assumes "validateListenAddr addr = None"
  shows "\<exists>target. probeURL addr path = Some target \<and> has_prefix ''http://'' target"
  using assms by (auto simp: validateListenAddr_def probeURL_def has_prefix_def Let_def split: option.splits)

theorem accepted_address_is_probed_witness:
  "probeURL ''[::]:8080'' ''/readyz'' = Some ''http://[::1]:8080/readyz''
   \<and> (\<exists>target. probeURL ''[::]:8080'' ''/readyz'' = Some target \<and> has_prefix ''http://'' target)"
proof
  show "probeURL ''[::]:8080'' ''/readyz'' = Some ''http://[::1]:8080/readyz''" by code_simp
  have "validateListenAddr ''[::]:8080'' = None" by code_simp
  then show "\<exists>target. probeURL ''[::]:8080'' ''/readyz'' = Some target \<and> has_prefix ''http://'' target"
    by (rule accepted_address_is_probed)
qed

end
