(* ===== verification/Platform_Api.thy ===== *)
theory Platform_Api
  imports Probe Go_Encoding
begin

text \<open>
  What the platform clients share (\<open>internal/deploy/platform.go\<close>): one API call with its
  error classes, the live check of a fresh deployment, and the programs the clients are.

  A client operation is a finite tree of what it asks the outside: API calls, version
  probes, and the waits of its polling loops. The answers are arbitrary, so a property
  of every run is a property against every platform. A polling loop has as many ticks as
  its deadline admits, one more for a tick that races the deadline.
\<close>

section \<open>Programs over external answers\<close>

datatype part = JsonPart string json | FilePart string string string

datatype payload = NoBody | JsonBody json | FormBody "part list"

record api_request =
  aq_method :: string
  aq_url :: string
  aq_token :: string
  aq_contentType :: string
  aq_body :: payload

text \<open>
  \<open>ha_raw\<close> is the body up to 64 KiB, \<open>ha_json\<close> what \<open>json.Unmarshal\<close> reads in it and
  \<open>ha_jsonErr\<close> what it complains about when that does not fit. A request that could not be
  built (\<open>No_Request\<close>) was not sent.
\<close>

record http_answer =
  ha_status :: int
  ha_raw :: string
  ha_json :: "json option"
  ha_jsonErr :: string

datatype api_answer = No_Request string | No_Answer string | Cut_Answer string | Answer http_answer

datatype 'a prog =
    Return 'a
  | Api api_request "api_answer \<Rightarrow> 'a prog"
  | Ask_Version string "string + probe_answer \<Rightarrow> 'a prog"
  | Await_Tick "bool \<Rightarrow> 'a prog"

primrec bind :: "'a prog \<Rightarrow> ('a \<Rightarrow> 'b prog) \<Rightarrow> 'b prog" where
  "bind (Return x) f = f x"
| "bind (Api q k) f = Api q (\<lambda>a. bind (k a) f)"
| "bind (Ask_Version u k) f = Ask_Version u (\<lambda>a. bind (k a) f)"
| "bind (Await_Tick k) f = Await_Tick (\<lambda>b. bind (k b) f)"

datatype event = E_Api api_request api_answer | E_Version string "string + probe_answer" | E_Tick bool

text \<open>The result along a sequence of events, None when these are not the events of a whole run.\<close>

primrec outcome :: "'a prog \<Rightarrow> event list \<Rightarrow> 'a option" where
  "outcome (Return x) = (\<lambda>es. if es = [] then Some x else None)"
| "outcome (Api q k) =
     (\<lambda>es. case es of E_Api q' a # es' \<Rightarrow> if q' = q then outcome (k a) es' else None | _ \<Rightarrow> None)"
| "outcome (Ask_Version u k) =
     (\<lambda>es. case es of E_Version u' a # es' \<Rightarrow> if u' = u then outcome (k a) es' else None | _ \<Rightarrow> None)"
| "outcome (Await_Tick k) =
     (\<lambda>es. case es of E_Tick b # es' \<Rightarrow> outcome (k b) es' | _ \<Rightarrow> None)"

abbreviation run :: "'a prog \<Rightarrow> event list \<Rightarrow> 'a \<Rightarrow> bool" where
  "run p es x \<equiv> outcome p es = Some x"

section \<open>Errors\<close>

text \<open>What \<open>errors.As\<close> and \<open>errors.Is\<close> find in an error, and its text.\<close>

datatype cause = PlatformError int | SentinelCredentials | SentinelAmbiguous | Plain

datatype err = Err (err_cause: cause) (err_text: string)

definition wrapf :: "string \<Rightarrow> err \<Rightarrow> err" where
  "wrapf prefix e = Err (err_cause e) (prefix @ '': '' @ err_text e)"

definition err_credentials :: err where
  "err_credentials = Err SentinelCredentials ''platform rejected credentials''"

definition err_ambiguous :: err where
  "err_ambiguous =
     Err SentinelAmbiguous ''credential reaches several scopes; pin the scope in the relay config''"

definition notFound :: "err \<Rightarrow> bool" where
  "notFound e \<longleftrightarrow> err_cause e = PlatformError 404"

definition credentialsRejected :: "err \<Rightarrow> bool" where
  "credentialsRejected e \<longleftrightarrow> err_cause e = PlatformError 401 \<or> err_cause e = PlatformError 403"

text \<open>The class the reconciler tells apart.\<close>

definition classify :: "err \<Rightarrow> deploy_error" where
  "classify e = (case err_cause e of SentinelCredentials \<Rightarrow> ErrCredentials
     | SentinelAmbiguous \<Rightarrow> ErrAmbiguousScope | _ \<Rightarrow> ErrOther (err_text e))"

definition errorSnippet :: "string \<Rightarrow> string" where
  "errorSnippet raw =
    (let text = trim_space raw;
         text = (if length text > 200 then take 200 text @ [char_of (0xE2 :: nat), char_of (0x80 :: nat), char_of (0xA6 :: nat)]
                 else text)
     in if text = [] then ''empty answer'' else text)"

section \<open>One API call\<close>

type_synonym 'a fallible = "(err + 'a) prog"

definition then_do :: "'a fallible \<Rightarrow> ('a \<Rightarrow> 'b fallible) \<Rightarrow> 'b fallible" where
  "then_do p f = bind p (\<lambda>r. case r of Inl e \<Rightarrow> Return (Inl e) | Inr x \<Rightarrow> f x)"

definition on_error :: "(err \<Rightarrow> err) \<Rightarrow> 'a fallible \<Rightarrow> 'a fallible" where
  "on_error h p = bind p (\<lambda>r. Return (case r of Inl e \<Rightarrow> Inl (h e) | Inr x \<Rightarrow> Inr x))"

text \<open>Decoding into a target; no target accepts any body.\<close>

definition into :: "(json \<Rightarrow> 'a option) \<Rightarrow> json option \<Rightarrow> 'a option" where
  "into f j = (case j of None \<Rightarrow> None | Some v \<Rightarrow> f v)"

definition into_nothing :: "json option \<Rightarrow> unit option" where
  "into_nothing j = Some ()"

definition call_result :: "(json option \<Rightarrow> 'a option) \<Rightarrow> api_answer \<Rightarrow> err + 'a" where
  "call_result decode ans =
    (case ans of
       No_Request t \<Rightarrow> Inl (Err Plain (''build request: '' @ t))
     | No_Answer t \<Rightarrow> Inl (Err Plain t)
     | Cut_Answer t \<Rightarrow> Inl (Err Plain (''read answer: '' @ t))
     | Answer h \<Rightarrow>
         if ha_status h < 200 \<or> ha_status h \<ge> 300
         then Inl (Err (PlatformError (ha_status h)) (''status '' @ itoa (ha_status h) @ '': '' @ errorSnippet (ha_raw h)))
         else (case decode (ha_json h) of
                 None \<Rightarrow> Inl (Err Plain (''decode answer: '' @ ha_jsonErr h))
               | Some x \<Rightarrow> Inr x))"

definition platformCall ::
    "string \<Rightarrow> string \<Rightarrow> string \<Rightarrow> string \<Rightarrow> payload \<Rightarrow> (json option \<Rightarrow> 'a option) \<Rightarrow> 'a fallible" where
  "platformCall method url token contentType body decode =
     Api \<lparr>aq_method = method, aq_url = url, aq_token = token, aq_contentType = contentType, aq_body = body\<rparr>
       (\<lambda>ans. Return (call_result decode ans))"

section \<open>The live check\<close>

text \<open>How many ticks of one second a deadline admits.\<close>

definition ticks :: "duration \<Rightarrow> nat" where
  "ticks deadline = nat (deadline div second) + 1"

text \<open>One probe of \<open>awaitLive\<close>: live, or the error to report at the deadline.\<close>

definition live_verdict :: "string \<Rightarrow> string + probe_answer \<Rightarrow> string option" where
  "live_verdict version res =
    (case res of
       Inl e \<Rightarrow> Some e
     | Inr a \<Rightarrow>
         if pa_version a = version then None
         else if pa_version a = [] then NotWorkerErr a
         else Some (''relay answers version '' @ go_quote (pa_version a) @ '', deployed '' @ go_quote version))"

text \<open>\<open>shown\<close> is how the deadline prints.\<close>

definition not_live :: "string \<Rightarrow> string \<Rightarrow> err" where
  "not_live shown lastErr = Err Plain (''relay not live after '' @ shown @ '': '' @ lastErr)"

primrec awaitLive :: "nat \<Rightarrow> string \<Rightarrow> string \<Rightarrow> string \<Rightarrow> unit fallible" where
  "awaitLive 0 shown url version =
     Ask_Version url (\<lambda>res. case live_verdict version res of
        None \<Rightarrow> Return (Inr ()) | Some e \<Rightarrow> Return (Inl (not_live shown e)))"
| "awaitLive (Suc n) shown url version =
     Ask_Version url (\<lambda>res. case live_verdict version res of
        None \<Rightarrow> Return (Inr ())
      | Some e \<Rightarrow> Await_Tick (\<lambda>expired.
          if expired then Return (Inl (not_live shown e)) else awaitLive n shown url version))"

text \<open>A client: its base URL without trailing slashes and its credential.\<close>

record api_client =
  ac_base :: string
  ac_cred :: credential

definition api_base :: "string \<Rightarrow> string \<Rightarrow> string" where
  "api_base fallback base = trim_right_byte (CHR ''/'') (if base = [] then fallback else base)"

end
