(* ===== verification/Vercel.thy ===== *)
theory Vercel
  imports Platform_Api
begin

text \<open>
  The Vercel client (\<open>internal/deploy/vercel.go\<close>): one project per relay, the version and
  the relay key as project environment variables set before each deployment.
\<close>

type_synonym environ = "string \<Rightarrow> string"

definition VercelAPIBaseEnv :: string where "VercelAPIBaseEnv = ''VERCEL_API_BASE''"
definition VercelURLBaseEnv :: string where "VercelURLBaseEnv = ''VERCEL_URL_BASE''"
definition vercelReadyTimeout :: duration where "vercelReadyTimeout = 120 * second"
definition vercelLiveTimeout :: duration where "vercelLiveTimeout = 30 * second"

definition vercelConfig :: string where
  "vercelConfig =
    (let q = char_of (34 :: nat) in
     ''{'' @ [q] @ ''rewrites'' @ [q] @ '':[{'' @ [q] @ ''source'' @ [q] @ '':'' @ [q] @ ''/(.*)'' @ [q] @ '',''
       @ [q] @ ''destination'' @ [q] @ '':'' @ [q] @ ''/api/relay'' @ [q] @ ''}]}'')"

definition newVercelClient :: "string \<Rightarrow> credential \<Rightarrow> api_client" where
  "newVercelClient base cred = \<lparr>ac_base = api_base ''https://api.vercel.com'' base, ac_cred = cred\<rparr>"

definition vercelStableURL :: "environ \<Rightarrow> string \<Rightarrow> string" where
  "vercelStableURL env project =
    (let base = trim_right_byte (CHR ''/'') (env VercelURLBaseEnv) in
     if base \<noteq> [] then base @ ''/'' @ project else ''https://'' @ project @ ''.vercel.app'')"

definition teamQuery :: "api_client \<Rightarrow> string" where
  "teamQuery c = (if cr_team (ac_cred c) = [] then [] else ''?teamId='' @ QueryEscape (cr_team (ac_cred c)))"

section \<open>Discover\<close>

definition vercel_Discover :: "environ \<Rightarrow> api_client \<Rightarrow> string \<Rightarrow> discovery fallible" where
  "vercel_Discover env c project =
     bind (platformCall ''GET'' (ac_base c @ ''/v9/projects/'' @ PathEscape project @ teamQuery c)
             (cr_token (ac_cred c)) [] NoBody into_nothing)
       (\<lambda>r. Return (case r of
          Inr _ \<Rightarrow> Inr \<lparr>d_exists = True, d_url = vercelStableURL env project\<rparr>
        | Inl e \<Rightarrow>
            if notFound e then Inr \<lparr>d_exists = False, d_url = []\<rparr>
            else if credentialsRejected e then Inl (wrapf ''vercel discover'' err_credentials)
            else Inl (wrapf ''vercel discover'' e)))"

section \<open>Environment variables\<close>

definition envQuery :: "api_client \<Rightarrow> string" where
  "envQuery c =
     (if cr_team (ac_cred c) \<noteq> [] then ''?teamId='' @ QueryEscape (cr_team (ac_cred c)) @ ''&upsert=true''
      else ''?upsert=true'')"

definition vercelEnvBody :: "string \<Rightarrow> string \<Rightarrow> json" where
  "vercelEnvBody key v =
     JObj [(''key'', JStr key), (''value'', JStr v), (''type'', JStr ''encrypted''),
           (''target'', JArr [JStr ''production''])]"

text \<open>The messages of the failures an upsert answers inside a 2xx.\<close>

definition dec_failed :: "json \<Rightarrow> string list option" where
  "dec_failed j =
     Option.bind (dec_members j) (\<lambda>ms.
       dec_array (\<lambda>x. Option.bind (dec_members x) (\<lambda>fs.
           Option.bind (dec_members (json_field ''error'' fs)) (\<lambda>es. dec_field dec_string ''message'' es)))
         (json_field ''failed'' ms))"

definition env_url :: "api_client \<Rightarrow> string \<Rightarrow> string" where
  "env_url c project = ac_base c @ ''/v10/projects/'' @ PathEscape project @ ''/env'' @ envQuery c"

definition upsertEnv :: "api_client \<Rightarrow> string \<Rightarrow> string \<Rightarrow> string \<Rightarrow> unit fallible" where
  "upsertEnv c project key v =
     bind (platformCall ''POST'' (env_url c project) (cr_token (ac_cred c)) ''application/json''
             (JsonBody (vercelEnvBody key v)) (into dec_failed))
       (\<lambda>r. Return (case r of
          Inl e \<Rightarrow> Inl (wrapf (''vercel env '' @ key) (if credentialsRejected e then err_credentials else e))
        | Inr [] \<Rightarrow> Inr ()
        | Inr (m # _) \<Rightarrow> Inl (Err Plain (''vercel env '' @ key @ '': '' @ m))))"

definition alreadyExists :: "err \<Rightarrow> bool" where
  "alreadyExists e \<longleftrightarrow> err_cause e = PlatformError 409"

definition vercel_createProject :: "api_client \<Rightarrow> string \<Rightarrow> unit fallible" where
  "vercel_createProject c project =
     bind (platformCall ''POST'' (ac_base c @ ''/v11/projects'' @ teamQuery c) (cr_token (ac_cred c))
             ''application/json'' (JsonBody (JObj [(''framework'', JNull), (''name'', JStr project)])) into_nothing)
       (\<lambda>r. Return (case r of
          Inr x \<Rightarrow> Inr ()
        | Inl e \<Rightarrow>
            if alreadyExists e then Inr ()
            else Inl (wrapf ''vercel create project'' (if credentialsRejected e then err_credentials else e))))"

text \<open>One variable: upsert, and on a missing project create it and upsert once more.\<close>

definition ensure_var :: "api_client \<Rightarrow> string \<Rightarrow> string \<Rightarrow> string \<Rightarrow> unit fallible" where
  "ensure_var c project key v =
     bind (upsertEnv c project key v)
       (\<lambda>r. case r of
          Inr x \<Rightarrow> Return (Inr x)
        | Inl e \<Rightarrow>
            if notFound e
            then then_do (vercel_createProject c project) (\<lambda>_. upsertEnv c project key v)
            else Return (Inl e))"

definition ensureEnv :: "api_client \<Rightarrow> string \<Rightarrow> string \<Rightarrow> string \<Rightarrow> unit fallible" where
  "ensureEnv c project version token =
     then_do (ensure_var c project ''RELAY_VERSION'' version)
       (\<lambda>_. ensure_var c project ''RELAY_AUTH_TOKEN'' token)"

section \<open>Deploy\<close>

definition vercelFile :: "string \<Rightarrow> string \<Rightarrow> json" where
  "vercelFile file content =
     JObj [(''file'', JStr file), (''data'', JStr (base64 content)), (''encoding'', JStr ''base64'')]"

definition vercel_deployment_body :: "spec \<Rightarrow> json" where
  "vercel_deployment_body spec =
     JObj [(''files'', JArr [vercelFile ''api/relay.js'' (sp_source spec), vercelFile ''vercel.json'' vercelConfig]),
           (''name'', JStr (sp_project spec)),
           (''projectSettings'', JObj [(''framework'', JNull)]),
           (''target'', JStr ''production'')]"

record vercelDeployment =
  vd_id :: string
  vd_readyState :: string

definition dec_vercelDeployment :: "json \<Rightarrow> vercelDeployment option" where
  "dec_vercelDeployment j =
     Option.bind (dec_members j) (\<lambda>ms.
       dec_pair (dec_field dec_string ''id'' ms) (dec_field dec_string ''readyState'' ms)
         (\<lambda>i s. \<lparr>vd_id = i, vd_readyState = s\<rparr>))"

text \<open>Whether a state ends the wait.\<close>

definition ready_verdict :: "string \<Rightarrow> (err + unit) option" where
  "ready_verdict st =
     (if st = ''READY'' then Some (Inr ())
      else if st = ''ERROR'' \<or> st = ''CANCELED''
      then Some (Inl (Err Plain (''vercel deploy: deployment '' @ go_to_lower st)))
      else None)"

definition not_ready :: "string \<Rightarrow> err" where
  "not_ready st = Err Plain (''vercel deploy: not ready after 2m0s (state '' @ st @ '')'')"

primrec await_ready :: "nat \<Rightarrow> api_client \<Rightarrow> string \<Rightarrow> string \<Rightarrow> unit fallible" where
  "await_ready 0 c ident st =
     Return (case ready_verdict st of Some r \<Rightarrow> r | None \<Rightarrow> Inl (not_ready st))"
| "await_ready (Suc n) c ident st =
     (case ready_verdict st of
        Some r \<Rightarrow> Return r
      | None \<Rightarrow> Await_Tick (\<lambda>expired.
          if expired then Return (Inl (not_ready st))
          else then_do
                 (on_error (wrapf ''vercel deploy: poll'')
                   (platformCall ''GET'' (ac_base c @ ''/v13/deployments/'' @ PathEscape ident @ teamQuery c)
                      (cr_token (ac_cred c)) [] NoBody (into dec_vercelDeployment)))
                 (\<lambda>poll. await_ready n c ident (vd_readyState poll))))"

definition create_deployment :: "api_client \<Rightarrow> spec \<Rightarrow> vercelDeployment fallible" where
  "create_deployment c spec =
     on_error (wrapf ''vercel deploy'')
       (platformCall ''POST'' (ac_base c @ ''/v13/deployments'' @ teamQuery c) (cr_token (ac_cred c))
          ''application/json'' (JsonBody (vercel_deployment_body spec)) (into dec_vercelDeployment))"

definition vercel_Deploy :: "environ \<Rightarrow> api_client \<Rightarrow> spec \<Rightarrow> result fallible" where
  "vercel_Deploy env c spec =
     then_do (ensureEnv c (sp_project spec) (sp_version spec) (sp_token spec)) (\<lambda>_.
     then_do (create_deployment c spec) (\<lambda>created.
       if vd_id created = [] then Return (Inl (Err Plain ''vercel deploy: answer without deployment id''))
       else
         then_do (await_ready (ticks vercelReadyTimeout) c (vd_id created) (vd_readyState created)) (\<lambda>_.
           let res = \<lparr>res_project = sp_project spec, res_externalID = vd_id created,
                      res_url = vercelStableURL env (sp_project spec)\<rparr>
           in then_do (on_error (wrapf ''vercel deploy'')
                        (awaitLive (ticks vercelLiveTimeout) ''30s'' (res_url res) (sp_version spec)))
                (\<lambda>_. Return (Inr res)))))"

section \<open>Delete\<close>

definition vercel_Delete :: "api_client \<Rightarrow> string \<Rightarrow> unit fallible" where
  "vercel_Delete c project =
     bind (platformCall ''DELETE'' (ac_base c @ ''/v9/projects/'' @ PathEscape project @ teamQuery c)
             (cr_token (ac_cred c)) [] NoBody into_nothing)
       (\<lambda>r. Return (case r of
          Inr _ \<Rightarrow> Inr ()
        | Inl e \<Rightarrow>
            if notFound e then Inr ()
            else Inl (wrapf ''vercel delete'' (if credentialsRejected e then err_credentials else e))))"

end
