(* ===== verification/Cloudflare.thy ===== *)
theory Cloudflare
  imports Vercel
begin

text \<open>
  The Cloudflare Workers client (\<open>internal/deploy/cloudflare.go\<close>): one script per relay on the
  pinned account or on the only one the token sees. Every answer is an envelope whose own
  verdict counts beside the HTTP status.
\<close>

definition CloudflareAPIBaseEnv :: string where "CloudflareAPIBaseEnv = ''CLOUDFLARE_API_BASE''"
definition CloudflareURLBaseEnv :: string where "CloudflareURLBaseEnv = ''CLOUDFLARE_URL_BASE''"
definition cloudflareLiveTimeout :: duration where "cloudflareLiveTimeout = 30 * second"

definition newCloudflareClient :: "string \<Rightarrow> credential \<Rightarrow> api_client" where
  "newCloudflareClient base cred =
     \<lparr>ac_base = api_base ''https://api.cloudflare.com/client/v4'' base, ac_cred = cred\<rparr>"

definition cloudflareStableURL :: "environ \<Rightarrow> string \<Rightarrow> string \<Rightarrow> string" where
  "cloudflareStableURL env project subdomain =
    (let base = trim_right_byte (CHR ''/'') (env CloudflareURLBaseEnv) in
     if base \<noteq> [] then base @ ''/'' @ project
     else ''https://'' @ project @ ''.'' @ subdomain @ ''.workers.dev'')"

section \<open>The envelope\<close>

record cloudflareAnswer =
  cfa_success :: bool
  cfa_errors :: "(int \<times> string) list"

definition dec_cf_error :: "json \<Rightarrow> (int \<times> string) option" where
  "dec_cf_error j =
     Option.bind (dec_members j) (\<lambda>ms.
       dec_pair (dec_field dec_int ''code'' ms) (dec_field dec_string ''message'' ms) Pair)"

definition dec_envelope :: "json \<Rightarrow> cloudflareAnswer option" where
  "dec_envelope j =
     Option.bind (dec_members j) (\<lambda>ms.
       dec_pair (dec_field dec_bool ''success'' ms) (dec_array dec_cf_error (json_field ''errors'' ms))
         (\<lambda>s es. \<lparr>cfa_success = s, cfa_errors = es\<rparr>))"

text \<open>An envelope with a result read beside it.\<close>

definition dec_with_result :: "(json \<Rightarrow> 'a option) \<Rightarrow> json \<Rightarrow> (cloudflareAnswer \<times> 'a) option" where
  "dec_with_result f j =
     Option.bind (dec_members j) (\<lambda>ms. dec_pair (dec_envelope j) (f (json_field ''result'' ms)) Pair)"

definition envelope_err :: "cloudflareAnswer \<Rightarrow> err option" where
  "envelope_err a =
     (if cfa_success a then None
      else (let msg = (case cfa_errors a of
                         [] \<Rightarrow> ''unknown error''
                       | (code, m) # _ \<Rightarrow> if m \<noteq> [] then m else ''unknown error'')
            in Some (Err Plain (''cloudflare: '' @ msg))))"

definition isCloudflareNotFound :: "cloudflareAnswer \<Rightarrow> bool" where
  "isCloudflareNotFound a \<longleftrightarrow> list_ex (\<lambda>e. fst e = 7003) (cfa_errors a)"

text \<open>Go on unless the envelope reports an error, which is wrapped.\<close>

definition unless_err :: "string \<Rightarrow> cloudflareAnswer \<Rightarrow> 'a fallible \<Rightarrow> 'a fallible" where
  "unless_err prefix a p = (case envelope_err a of Some e \<Rightarrow> Return (Inl (wrapf prefix e)) | None \<Rightarrow> p)"

section \<open>Scope\<close>

definition dec_account :: "json \<Rightarrow> string option" where
  "dec_account j = Option.bind (dec_members j) (\<lambda>ms. dec_field dec_string ''id'' ms)"

definition resolveAccount :: "api_client \<Rightarrow> string fallible" where
  "resolveAccount c =
    (if cr_account (ac_cred c) \<noteq> [] then Return (Inr (cr_account (ac_cred c)))
     else
       bind (platformCall ''GET'' (ac_base c @ ''/accounts'') (cr_token (ac_cred c)) [] NoBody
               (into (dec_with_result (dec_array dec_account))))
         (\<lambda>r. case r of
            Inl e \<Rightarrow>
              Return (Inl (wrapf ''cloudflare resolve account'' (if credentialsRejected e then err_credentials else e)))
          | Inr (a, accounts) \<Rightarrow>
              unless_err ''cloudflare resolve account'' a
                (Return (case accounts of
                   [acc] \<Rightarrow> Inr acc
                 | [] \<Rightarrow> Inl (Err SentinelCredentials
                            (''cloudflare resolve account: '' @ err_text err_credentials @ '' (token sees none)''))
                 | _ \<Rightarrow> Inl (Err SentinelAmbiguous
                            (''cloudflare resolve account: '' @ err_text err_ambiguous @ '' (''
                               @ itoa (int (length accounts)) @ '' accounts; set account: in the relay config)''))))))"

definition script_url :: "api_client \<Rightarrow> string \<Rightarrow> string \<Rightarrow> string" where
  "script_url c account project =
     ac_base c @ ''/accounts/'' @ PathEscape account @ ''/workers/scripts/'' @ PathEscape project"

definition dec_subdomain :: "json \<Rightarrow> string option" where
  "dec_subdomain j = Option.bind (dec_members j) (\<lambda>ms. dec_field dec_string ''subdomain'' ms)"

definition workersDevSubdomain :: "api_client \<Rightarrow> string \<Rightarrow> string fallible" where
  "workersDevSubdomain c account =
     then_do
       (on_error (wrapf ''cloudflare deploy: read subdomain'')
         (platformCall ''GET'' (ac_base c @ ''/accounts/'' @ PathEscape account @ ''/workers/subdomain'')
            (cr_token (ac_cred c)) [] NoBody (into (dec_with_result dec_subdomain))))
       (\<lambda>(a, subdomain).
          unless_err ''cloudflare deploy: read subdomain'' a
            (Return (if subdomain = [] then Inl (Err Plain ''cloudflare deploy: account has no workers.dev subdomain'')
                     else Inr subdomain)))"

section \<open>Discover\<close>

definition cloudflare_Discover :: "environ \<Rightarrow> api_client \<Rightarrow> string \<Rightarrow> discovery fallible" where
  "cloudflare_Discover env c project =
     then_do (resolveAccount c) (\<lambda>account.
       bind (platformCall ''GET'' (script_url c account project) (cr_token (ac_cred c)) [] NoBody (into dec_envelope))
         (\<lambda>r. case r of
            Inl e \<Rightarrow>
              Return (if notFound e then Inr \<lparr>d_exists = False, d_url = []\<rparr>
                      else if credentialsRejected e then Inl (wrapf ''cloudflare discover'' err_credentials)
                      else Inl (wrapf ''cloudflare discover'' e))
          | Inr a \<Rightarrow>
              if \<not> cfa_success a \<and> isCloudflareNotFound a then Return (Inr \<lparr>d_exists = False, d_url = []\<rparr>)
              else unless_err ''cloudflare discover'' a
                     (then_do (workersDevSubdomain c account) (\<lambda>subdomain.
                        Return (Inr \<lparr>d_exists = True, d_url = cloudflareStableURL env project subdomain\<rparr>)))))"

section \<open>Deploy\<close>

definition cf_binding :: "string \<Rightarrow> string \<Rightarrow> json" where
  "cf_binding name v = JObj [(''name'', JStr name), (''text'', JStr v), (''type'', JStr ''plain_text'')]"

definition cf_metadata :: "spec \<Rightarrow> json" where
  "cf_metadata spec =
     JObj [(''bindings'', JArr [cf_binding ''RELAY_VERSION'' (sp_version spec), cf_binding ''RELAY_AUTH_TOKEN'' (sp_token spec)]),
           (''compatibility_date'', JStr ''2026-01-01''), (''main_module'', JStr ''relay.js'')]"

text \<open>The upload; the multipart boundary is left out of the content type.\<close>

definition upload_script :: "api_client \<Rightarrow> string \<Rightarrow> spec \<Rightarrow> cloudflareAnswer fallible" where
  "upload_script c account spec =
     on_error (wrapf ''cloudflare deploy'')
       (platformCall ''PUT'' (script_url c account (sp_project spec)) (cr_token (ac_cred c)) ''multipart/form-data''
          (FormBody [JsonPart ''metadata'' (cf_metadata spec), FilePart ''relay.js'' ''relay.js'' (sp_source spec)])
          (into dec_envelope))"

definition enable_subdomain :: "api_client \<Rightarrow> string \<Rightarrow> spec \<Rightarrow> cloudflareAnswer fallible" where
  "enable_subdomain c account spec =
     on_error (wrapf ''cloudflare deploy: enable subdomain'')
       (platformCall ''POST'' (script_url c account (sp_project spec) @ ''/subdomain'') (cr_token (ac_cred c))
          ''application/json'' (JsonBody (JObj [(''enabled'', JBool True)])) (into dec_envelope))"

definition cloudflare_Deploy :: "environ \<Rightarrow> api_client \<Rightarrow> spec \<Rightarrow> result fallible" where
  "cloudflare_Deploy env c spec =
     then_do (resolveAccount c) (\<lambda>account.
     then_do (upload_script c account spec) (\<lambda>a. unless_err ''cloudflare deploy'' a
     (then_do (enable_subdomain c account spec) (\<lambda>a. unless_err ''cloudflare deploy: enable subdomain'' a
     (then_do (workersDevSubdomain c account) (\<lambda>subdomain.
        let res = \<lparr>res_project = sp_project spec, res_externalID = sp_project spec,
                   res_url = cloudflareStableURL env (sp_project spec) subdomain\<rparr>
        in then_do (on_error (wrapf ''cloudflare deploy'')
                     (awaitLive (ticks cloudflareLiveTimeout) ''30s'' (res_url res) (sp_version spec)))
             (\<lambda>_. Return (Inr res))))))))"

section \<open>Delete\<close>

definition cloudflare_Delete :: "api_client \<Rightarrow> string \<Rightarrow> unit fallible" where
  "cloudflare_Delete c project =
     then_do (resolveAccount c) (\<lambda>account.
       bind (platformCall ''DELETE'' (script_url c account project) (cr_token (ac_cred c)) [] NoBody (into dec_envelope))
         (\<lambda>r. Return (case r of
            Inl e \<Rightarrow>
              if notFound e then Inr ()
              else Inl (wrapf ''cloudflare delete'' (if credentialsRejected e then err_credentials else e))
          | Inr a \<Rightarrow>
              (case envelope_err a of
                 None \<Rightarrow> Inr ()
               | Some e \<Rightarrow> if isCloudflareNotFound a then Inr () else Inl (wrapf ''cloudflare delete'' e)))))"

end
