(* ===== verification/Deno.thy ===== *)
theory Deno
  imports Vercel
begin

text \<open>
  The Deno Deploy client (\<open>internal/deploy/deno.go\<close>): projects are found by their exact name
  in the pinned organization and addressed by id from then on.
\<close>

definition DenoAPIBaseEnv :: string where "DenoAPIBaseEnv = ''DENO_API_BASE''"
definition DenoURLBaseEnv :: string where "DenoURLBaseEnv = ''DENO_URL_BASE''"
definition denoLiveTimeout :: duration where "denoLiveTimeout = 90 * second"
definition denoListLimit :: nat where "denoListLimit = 100"
definition denoListPageMax :: nat where "denoListPageMax = 100"

definition errDenoOrganization :: err where
  "errDenoOrganization =
     wrapf (''deno: organization is required '' @ [char_of (0xE2 :: nat), char_of (0x80 :: nat), char_of (0x94 :: nat)]
       @ '' the Deploy API addresses projects by organization id and offers no route to resolve it from the token; ''
       @ ''pin organization on the deno relay'') err_ambiguous"

definition newDenoClient :: "string \<Rightarrow> credential \<Rightarrow> api_client" where
  "newDenoClient base cred = \<lparr>ac_base = api_base ''https://api.deno.com'' base, ac_cred = cred\<rparr>"

definition denoStableURL :: "environ \<Rightarrow> string \<Rightarrow> string" where
  "denoStableURL env project =
    (let base = trim_right_byte (CHR ''/'') (env DenoURLBaseEnv) in
     if base \<noteq> [] then base @ ''/'' @ project else ''https://'' @ project @ ''.deno.dev'')"

section \<open>Wire shapes\<close>

record denoProject =
  dp_id :: string
  dp_name :: string

definition dec_denoProject :: "json \<Rightarrow> denoProject option" where
  "dec_denoProject j =
     Option.bind (dec_members j) (\<lambda>ms.
       dec_pair (dec_field dec_string ''id'' ms) (dec_field dec_string ''name'' ms)
         (\<lambda>i n. \<lparr>dp_id = i, dp_name = n\<rparr>))"

record denoDeployment =
  dd_id :: string
  dd_status :: string

definition dec_denoDeployment :: "json \<Rightarrow> denoDeployment option" where
  "dec_denoDeployment j =
     Option.bind (dec_members j) (\<lambda>ms.
       dec_pair (dec_field dec_string ''id'' ms) (dec_field dec_string ''status'' ms)
         (\<lambda>i s. \<lparr>dd_id = i, dd_status = s\<rparr>))"

definition denoCreateProject :: "string \<Rightarrow> json" where
  "denoCreateProject name = JObj [(''name'', JStr name)]"

definition denoAsset :: "string \<Rightarrow> json" where
  "denoAsset source =
     JObj [(''kind'', JStr ''file''), (''content'', JStr (base64 source)), (''encoding'', JStr ''base64'')]"

definition denoCreateDeployment :: "spec \<Rightarrow> json" where
  "denoCreateDeployment spec =
     JObj [(''entryPointUrl'', JStr ''relay.js''),
           (''assets'', JObj [(''relay.js'', denoAsset (sp_source spec))]),
           (''envVars'', JObj [(''RELAY_AUTH_TOKEN'', JStr (sp_token spec)), (''RELAY_VERSION'', JStr (sp_version spec))]),
           (''domains'', JArr [JStr ''{project.name}.deno.dev''])]"

section \<open>Finding and creating the project\<close>

definition org_projects :: "api_client \<Rightarrow> string" where
  "org_projects c = ac_base c @ ''/v1/organizations/'' @ PathEscape (cr_organization (ac_cred c)) @ ''/projects''"

definition list_url :: "api_client \<Rightarrow> string \<Rightarrow> nat \<Rightarrow> string" where
  "list_url c name page =
     org_projects c @ ''?q='' @ QueryEscape name @ ''&page='' @ itoa (int page) @ ''&limit='' @ itoa (int denoListLimit)"

text \<open>The walk from \<open>page\<close> on, with \<open>left\<close> pages to go.\<close>

primrec find_from :: "nat \<Rightarrow> nat \<Rightarrow> api_client \<Rightarrow> string \<Rightarrow> denoProject option fallible" where
  "find_from 0 page c name =
     Return (Inl (Err Plain (''project list did not settle within '' @ itoa (int denoListPageMax) @ '' pages'')))"
| "find_from (Suc left) page c name =
     then_do (platformCall ''GET'' (list_url c name page) (cr_token (ac_cred c)) [] NoBody
                (into (dec_array dec_denoProject)))
       (\<lambda>projects.
          case find (\<lambda>p. dp_name p = name) projects of
            Some p \<Rightarrow> Return (Inr (Some p))
          | None \<Rightarrow> if length projects < denoListLimit then Return (Inr None)
                    else find_from left (page + 1) c name)"

definition findProject :: "api_client \<Rightarrow> string \<Rightarrow> denoProject option fallible" where
  "findProject c name = find_from denoListPageMax 1 c name"

definition deno_createProject :: "api_client \<Rightarrow> string \<Rightarrow> denoProject fallible" where
  "deno_createProject c name =
     then_do (platformCall ''POST'' (org_projects c) (cr_token (ac_cred c)) ''application/json''
                (JsonBody (denoCreateProject name)) (into dec_denoProject))
       (\<lambda>created. Return (if dp_id created = [] then Inl (Err Plain ''answer without project id'') else Inr created))"

section \<open>Discover\<close>

definition deno_Discover :: "environ \<Rightarrow> api_client \<Rightarrow> string \<Rightarrow> discovery fallible" where
  "deno_Discover env c project =
    (if cr_organization (ac_cred c) = [] then Return (Inl (wrapf ''deno discover'' errDenoOrganization))
     else
       then_do (on_error (\<lambda>e. wrapf ''deno discover'' (if credentialsRejected e then err_credentials else e))
                 (findProject c project))
         (\<lambda>found. Return (Inr (case found of
            None \<Rightarrow> \<lparr>d_exists = False, d_url = []\<rparr>
          | Some p \<Rightarrow> \<lparr>d_exists = True, d_url = denoStableURL env (dp_name p)\<rparr>))))"

section \<open>Deploy\<close>

definition project_for :: "api_client \<Rightarrow> string \<Rightarrow> denoProject fallible" where
  "project_for c name =
     then_do (on_error (\<lambda>e. if credentialsRejected e then wrapf ''deno deploy'' err_credentials
                            else wrapf ''deno deploy: resolve project'' e)
                (findProject c name))
       (\<lambda>found. case found of
          Some p \<Rightarrow> Return (Inr p)
        | None \<Rightarrow>
            on_error (\<lambda>e. wrapf ''deno deploy: create project'' (if credentialsRejected e then err_credentials else e))
              (deno_createProject c name))"

definition status_verdict :: "denoDeployment \<Rightarrow> (err + unit) option" where
  "status_verdict d =
     (if dd_status d = ''success'' then Some (Inr ())
      else if dd_status d = ''failed'' then Some (Inl (Err Plain (''deployment '' @ dd_id d @ '' failed'')))
      else None)"

definition not_settled :: "denoDeployment \<Rightarrow> err" where
  "not_settled d = Err Plain (''not ready after 1m30s (state '' @ dd_status d @ '')'')"

primrec awaitDeployment :: "nat \<Rightarrow> api_client \<Rightarrow> denoDeployment \<Rightarrow> unit fallible" where
  "awaitDeployment 0 c d =
     Return (case status_verdict d of Some r \<Rightarrow> r | None \<Rightarrow> Inl (not_settled d))"
| "awaitDeployment (Suc n) c d =
     (case status_verdict d of
        Some r \<Rightarrow> Return r
      | None \<Rightarrow> Await_Tick (\<lambda>expired.
          if expired then Return (Inl (not_settled d))
          else then_do
                 (on_error (wrapf ''poll'')
                   (platformCall ''GET'' (ac_base c @ ''/v1/deployments/'' @ PathEscape (dd_id d))
                      (cr_token (ac_cred c)) [] NoBody (into dec_denoDeployment)))
                 (\<lambda>poll. awaitDeployment n c (if dd_id poll = [] then poll\<lparr>dd_id := dd_id d\<rparr> else poll))))"

text \<open>The part of \<open>Deploy\<close> after the project is known.\<close>

definition deploy_to :: "environ \<Rightarrow> api_client \<Rightarrow> spec \<Rightarrow> denoProject \<Rightarrow> result fallible" where
  "deploy_to env c spec project =
     then_do (on_error (wrapf ''deno deploy'')
       (platformCall ''POST'' (ac_base c @ ''/v1/projects/'' @ PathEscape (dp_id project) @ ''/deployments'')
          (cr_token (ac_cred c)) ''application/json'' (JsonBody (denoCreateDeployment spec))
          (into dec_denoDeployment))) (\<lambda>created.
       if dd_id created = [] then Return (Inl (Err Plain ''deno deploy: answer without deployment id''))
       else
         then_do (on_error (wrapf ''deno deploy'') (awaitDeployment (ticks denoLiveTimeout) c created)) (\<lambda>_.
           let res = \<lparr>res_project = sp_project spec, res_externalID = dd_id created,
                      res_url = denoStableURL env (sp_project spec)\<rparr>
           in then_do (on_error (wrapf ''deno deploy'')
                        (awaitLive (ticks denoLiveTimeout) ''1m30s'' (res_url res) (sp_version spec)))
                (\<lambda>_. Return (Inr res))))"

definition deno_Deploy :: "environ \<Rightarrow> api_client \<Rightarrow> spec \<Rightarrow> result fallible" where
  "deno_Deploy env c spec =
    (if cr_organization (ac_cred c) = [] then Return (Inl (wrapf ''deno deploy'' errDenoOrganization))
     else then_do (project_for c (sp_project spec)) (deploy_to env c spec))"

section \<open>Delete\<close>

definition deno_Delete :: "api_client \<Rightarrow> string \<Rightarrow> unit fallible" where
  "deno_Delete c project =
    (if cr_organization (ac_cred c) = [] then Return (Inl (wrapf ''deno delete'' errDenoOrganization))
     else
       then_do (on_error (\<lambda>e. wrapf ''deno delete'' (if credentialsRejected e then err_credentials else e))
                 (findProject c project))
         (\<lambda>found. case found of
            None \<Rightarrow> Return (Inr ())
          | Some p \<Rightarrow>
              bind (platformCall ''DELETE'' (ac_base c @ ''/v1/projects/'' @ PathEscape (dp_id p))
                      (cr_token (ac_cred c)) [] NoBody into_nothing)
                (\<lambda>r. Return (case r of
                   Inr _ \<Rightarrow> Inr ()
                 | Inl e \<Rightarrow>
                     if notFound e then Inr ()
                     else Inl (wrapf ''deno delete'' (if credentialsRejected e then err_credentials else e))))))"

end
