(* ===== verification/Platform_Laws.thy ===== *)
theory Platform_Laws
  imports Cloudflare Deno
begin

text \<open>
  The calculus of runs the client properties are proved in: how the runs of a program are
  made of the runs of its parts, and which calls a program can make.
\<close>

section \<open>Runs of the combinators\<close>

lemma run_Return [simp]: "run (Return y) es x \<longleftrightarrow> es = [] \<and> x = y"
  by auto

lemma run_Api [simp]: "run (Api q k) es x \<longleftrightarrow> (\<exists>a es'. es = E_Api q a # es' \<and> run (k a) es' x)"
  by (auto split: list.splits event.splits if_splits)

lemma run_Ask [simp]: "run (Ask_Version u k) es x \<longleftrightarrow> (\<exists>a es'. es = E_Version u a # es' \<and> run (k a) es' x)"
  by (auto split: list.splits event.splits if_splits)

lemma run_Tick [simp]: "run (Await_Tick k) es x \<longleftrightarrow> (\<exists>b es'. es = E_Tick b # es' \<and> run (k b) es' x)"
  by (auto split: list.splits event.splits)

declare outcome.simps [simp del]

lemma run_bindI: "run p es1 y \<Longrightarrow> run (f y) es2 x \<Longrightarrow> run (bind p f) (es1 @ es2) x"
proof (induction p arbitrary: es1)
  case (Api q k)
  then obtain a es where "es1 = E_Api q a # es" "run (k a) es y" by auto
  with Api.IH [OF rangeI, of a es] Api.prems show ?case by simp
next
  case (Ask_Version u k)
  then obtain a es where "es1 = E_Version u a # es" "run (k a) es y" by auto
  with Ask_Version.IH [OF rangeI, of a es] Ask_Version.prems show ?case by simp
next
  case (Await_Tick k)
  then obtain b es where "es1 = E_Tick b # es" "run (k b) es y" by auto
  with Await_Tick.IH [OF rangeI, of b es] Await_Tick.prems show ?case by simp
qed simp

lemma run_bindD: "run (bind p f) es x \<Longrightarrow> \<exists>es1 y es2. es = es1 @ es2 \<and> run p es1 y \<and> run (f y) es2 x"
proof (induction p arbitrary: es)
  case (Api q k)
  then obtain a es' where e: "es = E_Api q a # es'" "run (bind (k a) f) es' x" by auto
  with Api.IH [OF rangeI] obtain es1 y es2 where "es' = es1 @ es2" "run (k a) es1 y" "run (f y) es2 x"
    by blast
  with e show ?case by (intro exI [of _ "E_Api q a # es1"] exI [of _ y] exI [of _ es2]) simp
next
  case (Ask_Version u k)
  then obtain a es' where e: "es = E_Version u a # es'" "run (bind (k a) f) es' x" by auto
  with Ask_Version.IH [OF rangeI] obtain es1 y es2 where "es' = es1 @ es2" "run (k a) es1 y" "run (f y) es2 x"
    by blast
  with e show ?case by (intro exI [of _ "E_Version u a # es1"] exI [of _ y] exI [of _ es2]) simp
next
  case (Await_Tick k)
  then obtain b es' where e: "es = E_Tick b # es'" "run (bind (k b) f) es' x" by auto
  with Await_Tick.IH [OF rangeI] obtain es1 y es2 where "es' = es1 @ es2" "run (k b) es1 y" "run (f y) es2 x"
    by blast
  with e show ?case by (intro exI [of _ "E_Tick b # es1"] exI [of _ y] exI [of _ es2]) simp
qed simp

lemma run_bind:
  "run (bind p f) es x \<longleftrightarrow> (\<exists>es1 y es2. es = es1 @ es2 \<and> run p es1 y \<and> run (f y) es2 x)"
  by (blast dest: run_bindD intro: run_bindI)

lemma run_then_do:
  "run (then_do p f) es x \<longleftrightarrow>
     (\<exists>e. run p es (Inl e) \<and> x = Inl e)
     \<or> (\<exists>es1 y es2. es = es1 @ es2 \<and> run p es1 (Inr y) \<and> run (f y) es2 x)"
  by (auto simp: then_do_def run_bind split: sum.splits) (metis append_Nil2 sum.exhaust)+

lemma run_on_error [simp]:
  "run (on_error h p) es (Inr x) \<longleftrightarrow> run p es (Inr x)"
  "run (on_error h p) es (Inl e) \<longleftrightarrow> (\<exists>e'. run p es (Inl e') \<and> e = h e')"
  by (auto simp: on_error_def run_bind split: sum.splits) (metis append_Nil2 sum.exhaust)+

lemma run_platformCall:
  "run (platformCall m u t ct b d) es x \<longleftrightarrow>
     (\<exists>a. es = [E_Api \<lparr>aq_method = m, aq_url = u, aq_token = t, aq_contentType = ct, aq_body = b\<rparr> a]
          \<and> call_result d a = x)"
  by (auto simp: platformCall_def)

lemma run_unless_err:
  "run (unless_err s a p) es x \<longleftrightarrow>
     (case envelope_err a of Some e \<Rightarrow> es = [] \<and> x = Inl (wrapf s e) | None \<Rightarrow> run p es x)"
  by (auto simp: unless_err_def split: option.splits)

text \<open>Branching programs: the alternatives, one by one.\<close>

named_theorems run_simps "how runs decompose"

lemma run_case_sum [run_simps]:
  "run (case v of Inl e \<Rightarrow> p e | Inr a \<Rightarrow> f a) es x \<longleftrightarrow>
     (\<exists>e. v = Inl e \<and> run (p e) es x) \<or> (\<exists>a. v = Inr a \<and> run (f a) es x)"
  by (cases v) auto

lemma run_case_option [run_simps]:
  "run (case v of None \<Rightarrow> p | Some a \<Rightarrow> f a) es x \<longleftrightarrow>
     (v = None \<and> run p es x) \<or> (\<exists>a. v = Some a \<and> run (f a) es x)"
  by (cases v) auto

lemma run_case_list [run_simps]:
  "run (case v of [] \<Rightarrow> p | a # as \<Rightarrow> f a as) es x \<longleftrightarrow>
     (v = [] \<and> run p es x) \<or> (\<exists>a as. v = a # as \<and> run (f a as) es x)"
  by (cases v) auto

lemma run_if [run_simps]: "run (if b then p else q) es x \<longleftrightarrow> (b \<and> run p es x) \<or> (\<not> b \<and> run q es x)"
  by simp

lemma Return_case_sum [run_simps]:
  "Return (case v of Inl e \<Rightarrow> f e | Inr a \<Rightarrow> g a) = (case v of Inl e \<Rightarrow> Return (f e) | Inr a \<Rightarrow> Return (g a))"
  by (cases v) auto

lemma Return_case_option [run_simps]:
  "Return (case v of None \<Rightarrow> y | Some a \<Rightarrow> g a) = (case v of None \<Rightarrow> Return y | Some a \<Rightarrow> Return (g a))"
  by (cases v) auto

lemma Return_case_list [run_simps]:
  "Return (case v of [] \<Rightarrow> y | a # as \<Rightarrow> g a as) = (case v of [] \<Rightarrow> Return y | a # as \<Rightarrow> Return (g a as))"
  by (cases v) auto

lemma Return_if [run_simps]: "Return (if b then x else y) = (if b then Return x else Return y)"
  by simp

declare run_bind [run_simps] run_then_do [run_simps] run_platformCall [run_simps]

lemma run_unless [run_simps]:
  "run (unless_err s a p) es x \<longleftrightarrow>
     (\<exists>e. envelope_err a = Some e \<and> es = [] \<and> x = Inl (wrapf s e)) \<or> (envelope_err a = None \<and> run p es x)"
  by (auto simp: run_unless_err split: option.splits)

section \<open>Calls a program can make\<close>

primrec calls :: "(api_request \<Rightarrow> bool) \<Rightarrow> 'a prog \<Rightarrow> bool" where
  "calls P (Return x) = True"
| "calls P (Api q k) = (P q \<and> (\<forall>a. calls P (k a)))"
| "calls P (Ask_Version u k) = (\<forall>a. calls P (k a))"
| "calls P (Await_Tick k) = (\<forall>b. calls P (k b))"

named_theorems calls_intros "which calls the programs make"

lemma calls_run:
  assumes "calls P p" and "run p es x" and "E_Api q a \<in> set es"
  shows "P q"
  using assms by (induction p arbitrary: es) (auto, blast+)

lemma calls_bind [calls_intros]: "calls P p \<Longrightarrow> (\<And>x. calls P (f x)) \<Longrightarrow> calls P (bind p f)"
  by (induction p) auto

lemma calls_then_do [calls_intros]: "calls P p \<Longrightarrow> (\<And>x. calls P (f x)) \<Longrightarrow> calls P (then_do p f)"
  by (auto simp: then_do_def intro!: calls_bind split: sum.splits)

lemma calls_on_error [calls_intros]: "calls P p \<Longrightarrow> calls P (on_error h p)"
  by (auto simp: on_error_def intro!: calls_bind)

lemma calls_platformCall [calls_intros]:
  "P \<lparr>aq_method = m, aq_url = u, aq_token = t, aq_contentType = ct, aq_body = b\<rparr>
     \<Longrightarrow> calls P (platformCall m u t ct b d)"
  by (simp add: platformCall_def)

lemma calls_unless_err [calls_intros]: "calls P p \<Longrightarrow> calls P (unless_err s a p)"
  by (simp add: unless_err_def split: option.splits)

lemma calls_awaitLive [calls_intros]: "calls P (awaitLive n shown url version)"
  by (induction n) (auto split: option.splits)

text \<open>Two ways a run can end: whatever comes before, \<open>awaitLive\<close> ends in a matching probe.\<close>

lemma live_verdict_None: "live_verdict version res = None \<Longrightarrow> \<exists>a. res = Inr a \<and> pa_version a = version"
  by (auto simp: live_verdict_def NotWorkerErr_def split: sum.splits if_splits)

lemma run_awaitLive:
  assumes "run (awaitLive n shown url version) es (Inr u)"
  shows "\<exists>es' a. es = es' @ [E_Version url (Inr a)] \<and> pa_version a = version"
  using assms
proof (induction n arbitrary: es)
  case 0
  then show ?case by (auto dest: live_verdict_None split: option.splits)
next
  case (Suc n)
  from Suc.prems obtain res es1 where es: "es = E_Version url res # es1"
    and r: "run (case live_verdict version res of
        None \<Rightarrow> Return (Inr ())
      | Some e \<Rightarrow> Await_Tick (\<lambda>expired.
          if expired then Return (Inl (not_live shown e)) else awaitLive n shown url version)) es1 (Inr u)"
    by auto
  show ?case
  proof (cases "live_verdict version res")
    case None
    with es r show ?thesis by (auto dest: live_verdict_None)
  next
    case (Some e)
    with r obtain es2 where "es1 = E_Tick False # es2" "run (awaitLive n shown url version) es2 (Inr u)"
      by (auto split: if_splits)
    with Suc.IH es show ?thesis by (metis append_Cons)
  qed
qed

end
