(* ===== verification/Platform_Clients.thy ===== *)
theory Platform_Clients
  imports Platform_Laws Reconcile
begin

text \<open>
  The factory of \<open>internal/deploy/platform.go\<close>, the client contract of
  \<open>internal/deploy/deploy.go\<close> as a locale with one interpretation per platform, and what
  the reconciler may rely on whichever platform answers.
\<close>

section \<open>The factory\<close>

datatype platform_client = VercelClient api_client | CloudflareClient api_client | DenoClient api_client

definition For :: "environ \<Rightarrow> string \<Rightarrow> credential \<Rightarrow> string + platform_client" where
  "For env platform cred =
    (if platform = PlatformVercel then Inr (VercelClient (newVercelClient (env VercelAPIBaseEnv) cred))
     else if platform = PlatformCloudflare
     then Inr (CloudflareClient (newCloudflareClient (env CloudflareAPIBaseEnv) cred))
     else if platform = PlatformDeno then Inr (DenoClient (newDenoClient (env DenoAPIBaseEnv) cred))
     else Inl (''unknown platform '' @ go_quote platform))"

fun client_of :: "platform_client \<Rightarrow> api_client" where
  "client_of (VercelClient c) = c"
| "client_of (CloudflareClient c) = c"
| "client_of (DenoClient c) = c"

fun Discover :: "environ \<Rightarrow> platform_client \<Rightarrow> string \<Rightarrow> discovery fallible" where
  "Discover env (VercelClient c) project = vercel_Discover env c project"
| "Discover env (CloudflareClient c) project = cloudflare_Discover env c project"
| "Discover env (DenoClient c) project = deno_Discover env c project"

fun Deploy :: "environ \<Rightarrow> platform_client \<Rightarrow> spec \<Rightarrow> result fallible" where
  "Deploy env (VercelClient c) spec = vercel_Deploy env c spec"
| "Deploy env (CloudflareClient c) spec = cloudflare_Deploy env c spec"
| "Deploy env (DenoClient c) spec = deno_Deploy env c spec"

fun Delete :: "platform_client \<Rightarrow> string \<Rightarrow> unit fallible" where
  "Delete (VercelClient c) project = vercel_Delete c project"
| "Delete (CloudflareClient c) project = cloudflare_Delete c project"
| "Delete (DenoClient c) project = deno_Delete c project"

section \<open>The contract\<close>

text \<open>A request of this client: its own key, to its own API.\<close>

definition at_home :: "api_client \<Rightarrow> api_request \<Rightarrow> bool" where
  "at_home c q \<longleftrightarrow> aq_token q = cr_token (ac_cred c) \<and> has_prefix (ac_base c @ ''/'') (aq_url q)"

text \<open>The run ended in a version probe of the result's URL that answered the version deployed.\<close>

definition ends_live :: "spec \<Rightarrow> result \<Rightarrow> event list \<Rightarrow> bool" where
  "ends_live spec res es \<longleftrightarrow>
     (\<exists>es' a. es = es' @ [E_Version (res_url res) (Inr a)] \<and> pa_version a = sp_version spec)"

lemma ends_live_append: "ends_live spec res es \<Longrightarrow> ends_live spec res (es0 @ es)"
  unfolding ends_live_def by (metis append_assoc)

locale client_contract =
  fixes discover :: "string \<Rightarrow> discovery fallible"
    and deploy :: "spec \<Rightarrow> result fallible"
    and delete :: "string \<Rightarrow> unit fallible"
    and home :: "api_request \<Rightarrow> bool"
  assumes discover_calls: "calls (\<lambda>q. home q \<and> aq_method q = ''GET'') (discover project)"
    and deploy_calls: "calls home (deploy spec)"
    and delete_calls: "calls (\<lambda>q. home q \<and> aq_method q \<in> {''GET'', ''DELETE''}) (delete project)"
    and deploy_live: "run (deploy spec) es (Inr res) \<Longrightarrow> ends_live spec res es \<and> res_project res = sp_project spec"
begin

lemma discover_reads:
  "run (discover project) es x \<Longrightarrow> E_Api q a \<in> set es \<Longrightarrow> home q \<and> aq_method q = ''GET''"
  using calls_run [OF discover_calls] by blast

lemma deploy_home: "run (deploy spec) es x \<Longrightarrow> E_Api q a \<in> set es \<Longrightarrow> home q"
  using calls_run [OF deploy_calls] by blast

lemma delete_removes:
  "run (delete project) es x \<Longrightarrow> E_Api q a \<in> set es \<Longrightarrow> home q \<and> aq_method q \<in> {''GET'', ''DELETE''}"
  using calls_run [OF delete_calls] by blast

text \<open>A pass over a missing relay: looked up, then deployed; the URL found live is the last event.\<close>

lemma missing_relay_goes_live:
  assumes "run (then_do (discover (sp_project spec)) (\<lambda>d. deploy spec)) es (Inr res)"
  shows "ends_live spec res es"
  using assms deploy_live by (auto simp: run_then_do intro: ends_live_append)

end

section \<open>The three clients fulfil it\<close>

lemma has_prefix_append [simp]: "has_prefix p (p @ s)"
  by (simp add: has_prefix_def)

lemma at_home_simps:
  "at_home c \<lparr>aq_method = m, aq_url = ac_base c @ u, aq_token = cr_token (ac_cred c), aq_contentType = ct, aq_body = b\<rparr>
     \<longleftrightarrow> has_prefix ''/'' u"
  by (simp add: at_home_def has_prefix_def)

lemma has_prefix_slash [simp]: "has_prefix ''/'' (CHR ''/'' # s)"
  by (simp add: has_prefix_def)

lemmas url_defs = env_url_def script_url_def list_url_def org_projects_def

lemma calls_mono: "calls P p \<Longrightarrow> (\<And>q. P q \<Longrightarrow> Q q) \<Longrightarrow> calls Q p"
  by (induction p) auto

lemma vercel_env_calls: "calls (at_home c) (ensureEnv c project version token)"
  unfolding ensureEnv_def ensure_var_def upsertEnv_def vercel_createProject_def
  by (auto intro!: calls_intros simp: at_home_simps url_defs split: sum.splits list.splits)

lemma await_ready_calls: "calls (at_home c) (await_ready n c ident st)"
  by (induction n arbitrary: st) (auto intro!: calls_intros simp: at_home_simps split: option.splits)

interpretation vc: client_contract "vercel_Discover env c" "vercel_Deploy env c" "vercel_Delete c" "at_home c"
  for env c
proof
  show "calls (\<lambda>q. at_home c q \<and> aq_method q = ''GET'') (vercel_Discover env c p)" for p
    by (auto intro!: calls_intros simp: vercel_Discover_def at_home_simps)
  show "calls (at_home c) (vercel_Deploy env c s)" for s
    by (auto intro!: calls_intros vercel_env_calls await_ready_calls
             simp: vercel_Deploy_def create_deployment_def at_home_simps Let_def)
  show "calls (\<lambda>q. at_home c q \<and> aq_method q \<in> {''GET'', ''DELETE''}) (vercel_Delete c p)" for p
    by (auto intro!: calls_intros simp: vercel_Delete_def at_home_simps)
  show "ends_live s res es \<and> res_project res = sp_project s" if "run (vercel_Deploy env c s) es (Inr res)" for s es res
    using that unfolding vercel_Deploy_def Let_def ends_live_def
    by (auto simp: run_then_do dest!: run_awaitLive split: if_splits)
qed

lemma subdomain_calls: "calls (\<lambda>q. at_home c q \<and> aq_method q = ''GET'') (workersDevSubdomain c account)"
  unfolding workersDevSubdomain_def
  by (auto intro!: calls_intros simp: at_home_simps)

lemma account_calls: "calls (\<lambda>q. at_home c q \<and> aq_method q = ''GET'') (resolveAccount c)"
  unfolding resolveAccount_def
  by (auto intro!: calls_intros simp: at_home_simps split: sum.splits)

lemmas cloudflare_calls =
  account_calls subdomain_calls account_calls [THEN calls_mono] subdomain_calls [THEN calls_mono]

interpretation cf: client_contract "cloudflare_Discover env c" "cloudflare_Deploy env c" "cloudflare_Delete c" "at_home c"
  for env c
proof
  show "calls (\<lambda>q. at_home c q \<and> aq_method q = ''GET'') (cloudflare_Discover env c p)" for p
    by (auto intro!: calls_intros cloudflare_calls simp: cloudflare_Discover_def at_home_simps url_defs split: sum.splits)
  show "calls (at_home c) (cloudflare_Deploy env c s)" for s
    by (auto intro!: calls_intros cloudflare_calls
             simp: cloudflare_Deploy_def upload_script_def enable_subdomain_def at_home_simps url_defs Let_def)
  show "calls (\<lambda>q. at_home c q \<and> aq_method q \<in> {''GET'', ''DELETE''}) (cloudflare_Delete c p)" for p
    by (auto intro!: calls_intros cloudflare_calls simp: cloudflare_Delete_def at_home_simps url_defs)
  show "ends_live s res es \<and> res_project res = sp_project s" if "run (cloudflare_Deploy env c s) es (Inr res)" for s es res
    using that unfolding cloudflare_Deploy_def Let_def ends_live_def
    by (auto simp: run_then_do run_unless_err dest!: run_awaitLive split: option.splits)
qed

lemma find_calls: "calls (\<lambda>q. at_home c q \<and> aq_method q = ''GET'') (find_from n page c name)"
  by (induction n arbitrary: page)
     (auto intro!: calls_intros simp: at_home_simps url_defs split: option.splits)

lemmas find_project_calls =
  find_calls [where n = denoListPageMax and page = 1, folded findProject_def]

lemma await_deployment_calls: "calls (at_home c) (awaitDeployment n c d)"
  by (induction n arbitrary: d) (auto intro!: calls_intros simp: at_home_simps split: option.splits)

lemma project_for_calls: "calls (at_home c) (project_for c name)"
  unfolding project_for_def deno_createProject_def
  by (auto intro!: calls_intros find_project_calls [THEN calls_mono] simp: at_home_simps url_defs split: option.splits)

interpretation dn: client_contract "deno_Discover env c" "deno_Deploy env c" "deno_Delete c" "at_home c"
  for env c
proof
  show "calls (\<lambda>q. at_home c q \<and> aq_method q = ''GET'') (deno_Discover env c p)" for p
    by (auto intro!: calls_intros find_project_calls simp: deno_Discover_def)
  show "calls (at_home c) (deno_Deploy env c s)" for s
    by (auto intro!: calls_intros project_for_calls await_deployment_calls simp: deno_Deploy_def deploy_to_def at_home_simps Let_def)
  show "calls (\<lambda>q. at_home c q \<and> aq_method q \<in> {''GET'', ''DELETE''}) (deno_Delete c p)" for p
    by (auto intro!: calls_intros find_project_calls [THEN calls_mono] simp: deno_Delete_def at_home_simps
             split: option.splits)
  show "ends_live s res es \<and> res_project res = sp_project s" if "run (deno_Deploy env c s) es (Inr res)" for s es res
    using that unfolding deno_Deploy_def deploy_to_def Let_def ends_live_def
    by (auto simp: run_then_do dest!: run_awaitLive split: if_splits)
qed

end
