(* ===== verification/Platform_Properties.thy ===== *)
theory Platform_Properties
  imports Platform_Clients
begin

text \<open>
  What holds of every run of a platform client, whatever the platform answers: where the
  credential goes, when a deployment counts as done and under which URL, and what a delete
  verdict rests on.
\<close>

section \<open>Concrete runs\<close>

datatype input = In_Api api_answer | In_Version "string + probe_answer" | In_Tick bool

text \<open>The events of a program fed these answers.\<close>

primrec trace :: "'a prog \<Rightarrow> input list \<Rightarrow> event list" where
  "trace (Return x) = (\<lambda>ins. [])"
| "trace (Api q k) = (\<lambda>ins. case ins of In_Api a # ins' \<Rightarrow> E_Api q a # trace (k a) ins' | _ \<Rightarrow> [])"
| "trace (Ask_Version u k) =
     (\<lambda>ins. case ins of In_Version a # ins' \<Rightarrow> E_Version u a # trace (k a) ins' | _ \<Rightarrow> [])"
| "trace (Await_Tick k) = (\<lambda>ins. case ins of In_Tick b # ins' \<Rightarrow> E_Tick b # trace (k b) ins' | _ \<Rightarrow> [])"

definition w_answer :: "int \<Rightarrow> json \<Rightarrow> api_answer" where
  "w_answer status j = Answer \<lparr>ha_status = status, ha_raw = [], ha_json = Some j, ha_jsonErr = []\<rparr>"

definition w_live :: "string + probe_answer" where
  "w_live = Inr \<lparr>pa_version = ''v2'', pa_status = 200, pa_marker = []\<rparr>"

definition w_cred :: credential where
  "w_cred = \<lparr>cr_token = ''key'', cr_team = ''acme'', cr_account = [], cr_organization = ''org''\<rparr>"

definition w_spec :: spec where
  "w_spec = \<lparr>sp_project = ''relay-1'', sp_source = ''src'', sp_version = ''v2'', sp_token = ''secret''\<rparr>"

definition w_vercel :: platform_client where
  "w_vercel = VercelClient (newVercelClient [] w_cred)"

definition w_cloudflare :: platform_client where
  "w_cloudflare = CloudflareClient (newCloudflareClient [] w_cred)"

definition w_deno :: platform_client where
  "w_deno = DenoClient (newDenoClient [] w_cred)"

abbreviation w_env :: environ where
  "w_env \<equiv> (\<lambda>_. [])"

section \<open>The management credential\<close>

text \<open>Any operation of a client.\<close>

definition operates :: "environ \<Rightarrow> platform_client \<Rightarrow> event list \<Rightarrow> bool" where
  "operates env cl es \<longleftrightarrow>
     (\<exists>p x. run (Discover env cl p) es x) \<or> (\<exists>s x. run (Deploy env cl s) es x) \<or> (\<exists>p x. run (Delete cl p) es x)"

text \<open>The API the environment selects for a platform.\<close>

definition home_base :: "environ \<Rightarrow> string \<Rightarrow> string" where
  "home_base env platform =
    (if platform = ''vercel'' then api_base ''https://api.vercel.com'' (env ''VERCEL_API_BASE'')
     else if platform = ''cloudflare''
     then api_base ''https://api.cloudflare.com/client/v4'' (env ''CLOUDFLARE_API_BASE'')
     else api_base ''https://api.deno.com'' (env ''DENO_API_BASE''))"

lemma operates_at_home: "operates env cl es \<Longrightarrow> E_Api q a \<in> set es \<Longrightarrow> at_home (client_of cl) q"
  unfolding operates_def
  by (cases cl) (auto dest: vc.discover_reads vc.deploy_home vc.delete_removes cf.discover_reads
      cf.deploy_home cf.delete_removes dn.discover_reads dn.deploy_home dn.delete_removes)

lemma For_client:
  "For env platform cred = Inr cl \<Longrightarrow>
     ac_cred (client_of cl) = cred \<and> ac_base (client_of cl) = home_base env platform"
  by (auto simp: For_def home_base_def newVercelClient_def newCloudflareClient_def newDenoClient_def
      PlatformVercel_def PlatformCloudflare_def PlatformDeno_def VercelAPIBaseEnv_def
      CloudflareAPIBaseEnv_def DenoAPIBaseEnv_def split: if_splits)

text \<open>
  C23. The management credential stays home: every API call of every operation carries
  exactly the credential the client was built for and goes to that platform's API; the
  version probes, which go to the relay, carry none.
\<close>

theorem credential_stays_home:
  assumes "For env platform cred = Inr cl" and "operates env cl es" and "E_Api q a \<in> set es"
  shows "aq_token q = cr_token cred \<and> has_prefix (home_base env platform @ ''/'') (aq_url q)"
  using operates_at_home [OF assms(2,3)] For_client [OF assms(1)] by (simp add: at_home_def)

definition w_gone :: "event list" where
  "w_gone = trace (Delete w_vercel ''relay-1'') [In_Api (w_answer 404 JNull)]"

theorem credential_stays_home_witness:
  "w_gone \<noteq> [] \<and> list_all (\<lambda>e. case e of
       E_Api q a \<Rightarrow> aq_token q = ''key'' \<and> has_prefix ''https://api.vercel.com/'' (aq_url q) | _ \<Rightarrow> True) w_gone"
proof -
  have f: "For w_env ''vercel'' w_cred = Inr w_vercel"
    by (simp add: For_def w_vercel_def PlatformVercel_def)
  have "run (Delete w_vercel ''relay-1'') w_gone (Inr ())" by code_simp
  then have o: "operates w_env w_vercel w_gone" by (auto simp: operates_def)
  have h: "home_base w_env ''vercel'' @ ''/'' = ''https://api.vercel.com/''" "cr_token w_cred = ''key''"
    by (code_simp, code_simp)
  have n: "w_gone \<noteq> []" by code_simp
  show ?thesis
    using n credential_stays_home [OF f o] unfolding h list_all_iff by (auto split: event.split)
qed

section \<open>Deployments\<close>

text \<open>A subdomain the platform answered in a run.\<close>

definition answered_subdomain :: "event list \<Rightarrow> string \<Rightarrow> bool" where
  "answered_subdomain es sub \<longleftrightarrow>
     (\<exists>q a env. E_Api q a \<in> set es \<and> has_suffix ''/workers/subdomain'' (aq_url q)
        \<and> call_result (into (dec_with_result dec_subdomain)) a = Inr (env, sub))"

lemma has_suffix_iff: "has_suffix p s \<longleftrightarrow> (\<exists>u. s = u @ p)"
proof
  assume "has_suffix p s"
  then have "rev s = rev p @ drop (length p) (rev s)"
    unfolding has_suffix_def has_prefix_def by (metis append_take_drop_id length_rev)
  then have "s = rev (drop (length p) (rev s)) @ p" by (metis rev_append rev_rev_ident)
  then show "\<exists>u. s = u @ p" ..
qed (auto simp: has_suffix_def has_prefix_def)

lemma has_suffix_Cons: "has_suffix p s \<Longrightarrow> has_suffix p (c # s)"
  by (metis has_suffix_iff append_Cons)

lemma has_suffix_appendI: "has_suffix p s \<Longrightarrow> has_suffix p (t @ s)"
  by (metis has_suffix_iff append_assoc)

lemma has_suffix_refl [simp]: "has_suffix p p"
  by (auto simp: has_suffix_iff)

lemma run_subdomain:
  assumes "run (workersDevSubdomain c account) es (Inr sub)"
  shows "answered_subdomain es sub"
  using assms unfolding workersDevSubdomain_def answered_subdomain_def
  by (auto simp: run_simps has_suffix_Cons has_suffix_appendI)

lemma answered_subdomain_mono: "answered_subdomain es sub \<Longrightarrow> set es \<subseteq> set es' \<Longrightarrow> answered_subdomain es' sub"
  unfolding answered_subdomain_def by blast

lemma found_name:
  assumes "run (find_from n page c name) es (Inr (Some p))"
  shows "dp_name p = name"
  using assms
  by (induction n arbitrary: page es)
     (auto simp: run_simps dest: find_Some_iff [THEN iffD1])

lemma deploy_url:
  "run (vercel_Deploy env c spec) es (Inr res) \<Longrightarrow> res_url res = vercelStableURL env (sp_project spec)"
  "run (deno_Deploy env c spec) es (Inr res) \<Longrightarrow> res_url res = denoStableURL env (sp_project spec)"
  by (auto simp: vercel_Deploy_def deno_Deploy_def deploy_to_def run_then_do Let_def split: if_splits)

lemma cloudflare_deploy_url:
  assumes "run (cloudflare_Deploy env c spec) es (Inr res)"
  shows "\<exists>sub. answered_subdomain es sub \<and> res_url res = cloudflareStableURL env (sp_project spec) sub"
proof -
  from assms obtain acc es1 sub where "run (workersDevSubdomain c acc) es1 (Inr sub)" "set es1 \<subseteq> set es"
      "res_url res = cloudflareStableURL env (sp_project spec) sub"
    unfolding cloudflare_Deploy_def Let_def
    by (fastforce simp: run_simps)
  then show ?thesis by (blast intro: answered_subdomain_mono run_subdomain)
qed

lemma discover_url:
  "run (vercel_Discover env c project) es (Inr d) \<Longrightarrow> d_exists d \<Longrightarrow> d_url d = vercelStableURL env project"
  "run (deno_Discover env c project) es (Inr d) \<Longrightarrow> d_exists d \<Longrightarrow> d_url d = denoStableURL env project"
  by (auto simp: vercel_Discover_def deno_Discover_def findProject_def run_simps)
     (auto dest: found_name split: option.splits)

lemma cloudflare_discover_url:
  assumes "run (cloudflare_Discover env c project) es (Inr d)" and "d_exists d"
  shows "\<exists>sub. answered_subdomain es sub \<and> d_url d = cloudflareStableURL env project sub"
proof -
  from assms obtain acc es1 sub where "run (workersDevSubdomain c acc) es1 (Inr sub)" "set es1 \<subseteq> set es"
      "d_url d = cloudflareStableURL env project sub"
    unfolding cloudflare_Discover_def
    by (fastforce simp: run_simps)
  then show ?thesis by (blast intro: answered_subdomain_mono run_subdomain)
qed

lemma deploy_contract:
  "run (Deploy env cl spec) es (Inr res) \<Longrightarrow> ends_live spec res es \<and> res_project res = sp_project spec"
  by (cases cl) (auto dest: vc.deploy_live cf.deploy_live dn.deploy_live)

text \<open>
  C15. A deployment that is reported done is live: the run ends in a version probe of the
  relay's URL that answered exactly the version deployed. And the URL is stable: it is
  the one discovery resolves for the project, before and after (on Cloudflare, as long as
  the account answers the same workers.dev subdomain).
\<close>

theorem deploy_is_live:
  assumes "run (Deploy env cl spec) es (Inr res)"
    and "run (Discover env cl (sp_project spec)) es' (Inr d)" and "d_exists d"
    and "\<forall>s s'. answered_subdomain es s \<longrightarrow> answered_subdomain es' s' \<longrightarrow> s = s'"
  shows "ends_live spec res es \<and> res_project res = sp_project spec \<and> d_url d = res_url res"
proof -
  have "d_url d = res_url res"
  proof (cases cl)
    case (CloudflareClient c)
    with cloudflare_deploy_url [of env c spec es res] cloudflare_discover_url [OF _ assms(3)] assms
    obtain s s' where "answered_subdomain es s" "res_url res = cloudflareStableURL env (sp_project spec) s"
      "answered_subdomain es' s'" "d_url d = cloudflareStableURL env (sp_project spec) s'" by force
    with assms(4) show ?thesis by metis
  next
    case (VercelClient c)
    with deploy_url(1) [of env c spec es res] discover_url(1) [OF _ assms(3)] assms(1,2) show ?thesis by simp
  next
    case (DenoClient c)
    with deploy_url(2) [of env c spec es res] discover_url(2) [OF _ assms(3)] assms(1,2) show ?thesis by simp
  qed
  with deploy_contract [OF assms(1)] show ?thesis by simp
qed

definition w_deploy_ins :: "input list" where
  "w_deploy_ins =
     [In_Api (w_answer 200 (JObj [])), In_Api (w_answer 200 (JObj [])),
      In_Api (w_answer 200 (JObj [(''id'', JStr ''d1''), (''readyState'', JStr ''BUILDING'')])), In_Tick False,
      In_Api (w_answer 200 (JObj [(''id'', JStr ''d1''), (''readyState'', JStr ''READY'')])), In_Version w_live]"

definition w_deploy_events :: "event list" where
  "w_deploy_events = trace (Deploy w_env w_vercel w_spec) w_deploy_ins"

definition w_discover_events :: "event list" where
  "w_discover_events = trace (Discover w_env w_vercel ''relay-1'') [In_Api (w_answer 200 JNull)]"

lemma no_subdomain:
  "list_all (\<lambda>e. case e of E_Api q a \<Rightarrow> \<not> has_suffix ''/workers/subdomain'' (aq_url q) | _ \<Rightarrow> True) es
     \<Longrightarrow> \<not> answered_subdomain es s"
  by (fastforce simp: answered_subdomain_def list_all_iff)

theorem deploy_is_live_witness:
  "\<exists>res (d :: discovery). run (Deploy w_env w_vercel w_spec) w_deploy_events (Inr res) \<and> ends_live w_spec res w_deploy_events
     \<and> d_url d = res_url res"
proof -
  let ?res = "\<lparr>res_project = ''relay-1'', res_externalID = ''d1'', res_url = ''https://relay-1.vercel.app''\<rparr>"
  let ?d = "\<lparr>d_exists = True, d_url = ''https://relay-1.vercel.app''\<rparr>"
  have r: "run (Deploy w_env w_vercel w_spec) w_deploy_events (Inr ?res)" by code_simp
  have p: "sp_project w_spec = ''relay-1''" by code_simp
  have d: "run (Discover w_env w_vercel (sp_project w_spec)) w_discover_events (Inr ?d)" unfolding p by code_simp
  have "\<not> answered_subdomain w_discover_events s" for s by (rule no_subdomain) code_simp
  then have l: "ends_live w_spec ?res w_deploy_events \<and> res_project ?res = sp_project w_spec \<and> d_url ?d = res_url ?res"
    by (intro deploy_is_live [OF r d]) auto
  show ?thesis
    by (intro exI conjI) (rule r, rule l [THEN conjunct1], rule l [THEN conjunct2, THEN conjunct2])
qed

section \<open>Deletes\<close>

text \<open>Only lookups.\<close>

definition lookups :: "event list \<Rightarrow> bool" where
  "lookups es \<longleftrightarrow> list_all (\<lambda>e. case e of E_Api q a \<Rightarrow> aq_method q = ''GET'' | _ \<Rightarrow> False) es"

text \<open>
  The answer to a delete that says the project is gone: removed now (2xx, with a
  successful envelope on Cloudflare) or not there (404, or code 7003 in the envelope).
\<close>

definition reports_gone :: "platform_client \<Rightarrow> api_answer \<Rightarrow> bool" where
  "reports_gone cl a \<longleftrightarrow>
     (case a of
        Answer h \<Rightarrow>
          ha_status h = 404
          \<or> (200 \<le> ha_status h \<and> ha_status h < 300
             \<and> (\<forall>c. cl = CloudflareClient c \<longrightarrow>
                   (case into dec_envelope (ha_json h) of
                      None \<Rightarrow> False
                    | Some env \<Rightarrow> cfa_success env \<or> (\<exists>m. (7003, m) \<in> set (cfa_errors env)))))
      | _ \<Rightarrow> False)"

definition rejects :: "api_answer \<Rightarrow> bool" where
  "rejects a \<longleftrightarrow> (\<exists>h. a = Answer h \<and> ha_status h \<in> {401, 403})"

lemma call_result_cause:
  "call_result d a = Inl e \<Longrightarrow> (notFound e \<longleftrightarrow> (\<exists>h. a = Answer h \<and> ha_status h = 404))
     \<and> (credentialsRejected e \<longleftrightarrow> rejects a)"
  by (auto simp: call_result_def notFound_def credentialsRejected_def rejects_def
      split: api_answer.splits if_splits option.splits)

lemma call_result_ok:
  "call_result d a = Inr x \<Longrightarrow> \<exists>h. a = Answer h \<and> 200 \<le> ha_status h \<and> ha_status h < 300 \<and> d (ha_json h) = Some x"
  by (auto simp: call_result_def split: api_answer.splits if_splits option.splits)

lemma envelope_verdict: "envelope_err a = None \<longleftrightarrow> cfa_success a"
  by (simp add: envelope_err_def Let_def)

lemma not_found_code: "isCloudflareNotFound a \<longleftrightarrow> (\<exists>m. (7003, m) \<in> set (cfa_errors a))"
  by (auto simp: isCloudflareNotFound_def list_ex_iff intro: rev_bexI)

lemma classify_credentials [simp]: "classify (wrapf s err_credentials) = ErrCredentials"
  by (simp add: classify_def wrapf_def err_credentials_def)

lemma lookups_simps [simp]:
  "lookups []" "lookups (E_Api q a # es) \<longleftrightarrow> aq_method q = ''GET'' \<and> lookups es" "lookups (es @ es') \<longleftrightarrow> lookups es \<and> lookups es'"
  by (auto simp: lookups_def)

lemma account_lookups: "run (resolveAccount c) es x \<Longrightarrow> lookups es"
  by (auto simp: resolveAccount_def run_simps)

lemma find_lookups: "run (find_from n page c name) es x \<Longrightarrow> lookups es"
  by (induction n arbitrary: page es) (auto simp: run_simps)

definition verdict_ok :: "platform_client \<Rightarrow> event list \<Rightarrow> err + unit \<Rightarrow> bool" where
  "verdict_ok cl es x \<longleftrightarrow>
     (\<exists>gets q a. es = gets @ [E_Api q a] \<and> lookups gets \<and> aq_method q = ''DELETE''
        \<and> (x = Inr () \<longleftrightarrow> reports_gone cl a)
        \<and> (rejects a \<longrightarrow> (\<exists>e. x = Inl e \<and> classify e = ErrCredentials))
        \<and> (\<forall>e. x = Inl e \<longrightarrow> classify e \<noteq> ErrAmbiguousScope))"

lemma verdict_okI:
  assumes "lookups gets" and "x = Inr () \<longleftrightarrow> reports_gone cl a"
    and "rejects a \<Longrightarrow> \<exists>e. x = Inl e \<and> classify e = ErrCredentials" and "aq_method q = ''DELETE''"
    and "\<And>e. x = Inl e \<Longrightarrow> classify e \<noteq> ErrAmbiguousScope"
  shows "verdict_ok cl (gets @ [E_Api q a]) x"
  using assms unfolding verdict_ok_def by blast

lemma gone_plain:
  assumes "\<And>c. cl \<noteq> CloudflareClient c"
  shows "reports_gone cl a \<longleftrightarrow> (case call_result into_nothing a of Inl e \<Rightarrow> notFound e | Inr _ \<Rightarrow> True)"
  using assms by (cases a) (auto simp: reports_gone_def call_result_def into_nothing_def notFound_def)

lemma gone_cloudflare:
  "reports_gone (CloudflareClient c) a \<longleftrightarrow>
     (case call_result (into dec_envelope) a of
        Inl e \<Rightarrow> notFound e | Inr env \<Rightarrow> cfa_success env \<or> isCloudflareNotFound env)"
  by (cases a) (auto simp: reports_gone_def call_result_def notFound_def not_found_code split: option.splits)

lemma plain_cause: "call_result d a = Inl e \<Longrightarrow> err_cause e \<noteq> SentinelAmbiguous"
  by (auto simp: call_result_def split: api_answer.splits if_splits option.splits)

lemma classify_ambiguous [simp]: "classify (wrapf s e) = ErrAmbiguousScope \<longleftrightarrow> err_cause e = SentinelAmbiguous"
  by (auto simp: classify_def wrapf_def split: cause.splits)

lemma credentials_cause [simp]: "err_cause err_credentials = SentinelCredentials"
  by (simp add: err_credentials_def)

lemma envelope_cause: "envelope_err a = Some e \<Longrightarrow> err_cause e = Plain"
  by (auto simp: envelope_err_def Let_def split: if_splits)

lemma rejects_call: "rejects a \<Longrightarrow> \<exists>e. call_result d a = Inl e \<and> credentialsRejected e \<and> \<not> notFound e"
  by (cases "call_result d a") (auto dest: call_result_cause call_result_ok simp: rejects_def)

lemma vercel_verdict:
  assumes "run (vercel_Delete c project) es x"
  shows "verdict_ok (VercelClient c) es x"
proof -
  from assms obtain q a where es: "es = [] @ [E_Api q a]" "aq_method q = ''DELETE''"
    and x: "x = (case call_result into_nothing a of
          Inr _ \<Rightarrow> Inr ()
        | Inl e \<Rightarrow> if notFound e then Inr ()
                   else Inl (wrapf ''vercel delete'' (if credentialsRejected e then err_credentials else e)))"
    by (auto simp: vercel_Delete_def run_bind run_platformCall)
  show ?thesis unfolding es(1)
    by (rule verdict_okI [OF _ _ _ es(2)])
       (auto simp: x gone_plain plain_cause split: sum.splits if_splits dest!: rejects_call [where d = into_nothing])
qed

lemma cloudflare_verdict:
  assumes "run (cloudflare_Delete c project) es x"
  shows "verdict_ok (CloudflareClient c) es x \<or> lookups es \<and> x \<noteq> Inr ()"
proof -
  from assms consider (account) e where "run (resolveAccount c) es (Inl e)" "x = Inl e"
    | (call) es1 q a where "lookups es1" "es = es1 @ [E_Api q a]" "aq_method q = ''DELETE''"
        "x = (case call_result (into dec_envelope) a of
            Inl e \<Rightarrow>
              if notFound e then Inr ()
              else Inl (wrapf ''cloudflare delete'' (if credentialsRejected e then err_credentials else e))
          | Inr a \<Rightarrow>
              (case envelope_err a of
                 None \<Rightarrow> Inr ()
               | Some e \<Rightarrow> if isCloudflareNotFound a then Inr () else Inl (wrapf ''cloudflare delete'' e)))"
    unfolding cloudflare_Delete_def
    by (fastforce simp: run_bind run_then_do run_platformCall dest: account_lookups)
  then show ?thesis
  proof cases
    case account
    then show ?thesis by (simp add: account_lookups)
  next
    case call
    have "verdict_ok (CloudflareClient c) es x" unfolding call(2)
      by (rule verdict_okI [OF call(1) _ _ call(3)])
         (auto simp: call(4) gone_cloudflare envelope_verdict [symmetric] plain_cause envelope_cause
               split: sum.splits option.splits if_splits dest!: rejects_call [where d = "into dec_envelope"])
    then show ?thesis ..
  qed
qed

lemma deno_verdict:
  assumes "run (deno_Delete c project) es x"
  shows "verdict_ok (DenoClient c) es x \<or> lookups es \<and> (x = Inr () \<longrightarrow> run (findProject c project) es (Inr None))"
proof -
  from assms consider (unpinned) "es = []" "\<exists>e. x = Inl e"
    | (walk) e where "run (findProject c project) es (Inl e)" "\<exists>e. x = Inl e"
    | (none) "run (findProject c project) es (Inr None)"
    | (call) es1 q a where "lookups es1" "es = es1 @ [E_Api q a]" "aq_method q = ''DELETE''"
        "x = (case call_result into_nothing a of
                   Inr _ \<Rightarrow> Inr ()
                 | Inl e \<Rightarrow>
                     if notFound e then Inr ()
                     else Inl (wrapf ''deno delete'' (if credentialsRejected e then err_credentials else e)))"
    unfolding deno_Delete_def
    by (fastforce simp: run_if run_case_option run_bind run_then_do run_platformCall findProject_def dest: find_lookups)
  then show ?thesis
  proof cases
    case call
    have "verdict_ok (DenoClient c) es x" unfolding call(2)
      by (rule verdict_okI [OF call(1) _ _ call(3)])
         (auto simp: call(4) gone_plain plain_cause split: sum.splits if_splits
               dest!: rejects_call [where d = into_nothing])
    then show ?thesis ..
  qed (auto simp: findProject_def dest: find_lookups)
qed

text \<open>How the reconciler hears of a delete.\<close>

definition deleted_input :: "err + unit \<Rightarrow> w_input" where
  "deleted_input x = I_Deleted (case x of Inr _ \<Rightarrow> None | Inl e \<Rightarrow> Some (classify e, err_text e))"

text \<open>
  What a delete verdict rests on. A delete only looks things up and then sends at most one
  request that changes anything, its last; it reports success exactly when the answer to
  that request says the project is gone, rejected credentials as such, and never an
  ambiguous scope. Without that
  request it succeeds only on Deno, when the walk through the pinned organization found no
  project of that name.
\<close>

theorem delete_verdict:
  assumes "run (Delete cl project) es x"
  shows "(\<exists>gets q a. es = gets @ [E_Api q a] \<and> lookups gets \<and> aq_method q = ''DELETE''
            \<and> (x = Inr () \<longleftrightarrow> reports_gone cl a)
            \<and> (rejects a \<longrightarrow> (\<exists>e. x = Inl e \<and> classify e = ErrCredentials))
            \<and> (\<forall>e. x = Inl e \<longrightarrow> classify e \<noteq> ErrAmbiguousScope))
       \<or> (lookups es \<and> (x = Inr () \<longrightarrow> (\<exists>c. cl = DenoClient c \<and> run (findProject c project) es (Inr None))))"
  using assms vercel_verdict cloudflare_verdict deno_verdict unfolding verdict_ok_def [symmetric]
  by (cases cl) auto

definition w_delete_events :: "event list" where
  "w_delete_events =
     trace (Delete w_cloudflare ''relay-1'')
       [In_Api (w_answer 200 (JObj [(''success'', JBool True), (''result'', JArr [JObj [(''id'', JStr ''a1'')]])])),
        In_Api (w_answer 200 (JObj [(''success'', JBool False),
                                    (''errors'', JArr [JObj [(''code'', JNum (Some 7003)), (''message'', JStr ''no route'')]])]))]"

theorem delete_verdict_witness:
  "run (Delete w_cloudflare ''relay-1'') w_delete_events (Inr ())
   \<and> (\<exists>gets q a. w_delete_events = gets @ [E_Api q a] \<and> aq_method q = ''DELETE'' \<and> reports_gone w_cloudflare a)"
proof -
  have r: "run (Delete w_cloudflare ''relay-1'') w_delete_events (Inr ())" by code_simp
  have "\<not> lookups w_delete_events" by code_simp
  with delete_verdict [OF r] r show ?thesis by blast
qed

text \<open>
  What the goroutine of a delete hears from outside, for the memo of its pass: the credential
  lookup reads the memo, and the answer of the platform is that of a run of \<open>Delete\<close> of the
  client built for the memoized credential, for the project of the relay.
\<close>

definition delete_hears :: "environ \<Rightarrow> (relay_key \<rightharpoonup> cred_entry) \<Rightarrow> relay_key \<Rightarrow> w_input \<Rightarrow> bool" where
  "delete_hears env memo key i \<longleftrightarrow>
     (case i of
        I_Memo cred \<Rightarrow> cred = credentialFor memo key
      | I_Deleted res \<Rightarrow>
          (\<exists>cred cl es x. credentialFor memo key = Some cred \<and> For env (key_provider key) cred = Inr cl
             \<and> run (Delete cl (ProjectName (key_name key))) es x \<and> i = deleted_input x)
      | _ \<Rightarrow> True)"

lemma delete_hearsI:
  assumes "credentialFor memo key = Some cred" and "For env (key_provider key) cred = Inr cl"
    and "run (Delete cl (ProjectName (key_name key))) es x"
  shows "delete_hears env memo key (deleted_input x)"
  using assms unfolding delete_hears_def deleted_input_def by (auto split: sum.splits)

text \<open>The two ways to \<open>D_Done\<close>, the only point from which \<open>DeleteDone\<close> is called.\<close>

lemma ensure_not_done: "ensure_step now i pc w r = Some (w', r') \<Longrightarrow> wk_pc w' \<noteq> D_Done gen"
  by (cases pc) (auto split: if_splits option.splits sum.splits prod.splits w_input.splits verdict_kind.splits deploy_error.splits)

lemma rollout_not_done: "rollout_step now i pc w r = Some (w', r') \<Longrightarrow> wk_pc w' \<noteq> D_Done gen"
  by (cases pc) (auto split: if_splits option.splits sum.splits prod.splits w_input.splits)

lemma delete_to_done:
  assumes "delete_step now i pc w r = Some (w', r')" and "wk_pc w' = D_Done gen"
  shows "pc = D_Credential gen \<and> i = I_Memo None
       \<or> pc = D_Delete gen \<and> (i = I_Deleted None \<or> (\<exists>t. i = I_Deleted (Some (ErrAmbiguousScope, t))))"
  using assms
  by (cases pc) (auto split: if_splits option.splits prod.splits w_input.splits deploy_error.splits)

lemma worker_to_done:
  assumes "worker_step now i (w, r) = Some (w', r')" and "wk_pc w' = D_Done gen"
  shows "wk_pc w = D_Credential gen \<and> i = I_Memo None
       \<or> wk_pc w = D_Delete gen \<and> (i = I_Deleted None \<or> (\<exists>t. i = I_Deleted (Some (ErrAmbiguousScope, t))))"
  using assms
  by (auto simp: worker_step_def split: if_splits option.splits
      dest: ensure_not_done rollout_not_done delete_to_done)

lemma verdict_of: "run (Delete cl project) es x \<Longrightarrow> verdict_ok cl es x
    \<or> lookups es \<and> (x = Inr () \<longrightarrow> (\<exists>c. cl = DenoClient c \<and> run (findProject c project) es (Inr None)))"
  using vercel_verdict cloudflare_verdict deno_verdict by (cases cl) auto

text \<open>
  C14. The reconciler forgets a removed relay in exactly these cases. No credential is on record
  for it: the pass holds none in its memo, no platform call is made and the remote is left
  behind. Or the client built for its memoized credential ran \<open>Delete\<close> for its project, and the
  platform said that the project is gone; or the Deno organization holds none of that name; or
  the credential addresses no single scope, in which case the run only looked things up and the
  remote is left behind. Every step of a goroutine that reaches the call of \<open>DeleteDone\<close> is
  covered.
\<close>

theorem forgotten_when_gone:
  assumes "delete_hears env memo (wk_key w) i"
    and "worker_step now i (w, reg) = Some (w', reg')" and "wk_pc w' = D_Done gen"
  shows "wk_pc w = D_Credential gen \<and> credentialFor memo (wk_key w) = None
    \<or> wk_pc w = D_Delete gen
      \<and> (\<exists>cred cl es x. credentialFor memo (wk_key w) = Some cred \<and> For env (key_provider (wk_key w)) cred = Inr cl
           \<and> run (Delete cl (ProjectName (key_name (wk_key w)))) es x
           \<and> ((\<exists>gets q a. es = gets @ [E_Api q a] \<and> aq_method q = ''DELETE'' \<and> reports_gone cl a)
              \<or> (\<exists>c. cl = DenoClient c \<and> run (findProject c (ProjectName (key_name (wk_key w)))) es (Inr None))
              \<or> (lookups es \<and> (\<exists>e. x = Inl e \<and> classify e = ErrAmbiguousScope))))"
proof -
  consider (memo) "wk_pc w = D_Credential gen" "i = I_Memo None"
    | (answer) "wk_pc w = D_Delete gen" "i = I_Deleted None \<or> (\<exists>t. i = I_Deleted (Some (ErrAmbiguousScope, t)))"
    using worker_to_done [OF assms(2,3)] by blast
  then show ?thesis
  proof cases
    case memo
    with assms(1) show ?thesis by (simp add: delete_hears_def)
  next
    case answer
    then obtain cred cl es x where c: "credentialFor memo (wk_key w) = Some cred"
      "For env (key_provider (wk_key w)) cred = Inr cl"
      and run: "run (Delete cl (ProjectName (key_name (wk_key w)))) es x" and i: "i = deleted_input x"
      using assms(1) by (auto simp: delete_hears_def)
    have "x = Inr () \<or> (\<exists>e. x = Inl e \<and> classify e = ErrAmbiguousScope)"
      using answer(2) i by (auto simp: deleted_input_def split: sum.splits)
    with verdict_of [OF run] c run answer(1) show ?thesis unfolding verdict_ok_def by blast
  qed
qed

definition w_many_events :: "event list" where
  "w_many_events =
     trace (Delete w_cloudflare ''relay-1'')
       [In_Api (w_answer 200 (JObj [(''success'', JBool True),
          (''result'', JArr [JObj [(''id'', JStr ''a1'')], JObj [(''id'', JStr ''a2'')]])]))]"

definition w_registry :: registry where
  "w_registry = New \<lparr>rs_backoffBase = second, rs_backoffMax = second, rs_recoverMax = second,
                     rs_pauseRetry = second, rs_demoteAfter = 1\<rparr>"

definition w_memo :: "relay_key \<rightharpoonup> cred_entry" where
  "w_memo = Map.empty(RelayKey ''cloudflare'' ''relay-1'' \<mapsto> \<lparr>ce_cred = w_cred, ce_scope = no_scope\<rparr>)"

theorem forgotten_when_gone_witness:
  "credentialFor Map.empty (RelayKey ''cloudflare'' ''relay-1'') = None
   \<and> (\<exists>cred cl es x. credentialFor w_memo (RelayKey ''cloudflare'' ''relay-1'') = Some cred
       \<and> For (\<lambda>_. []) ''cloudflare'' cred = Inr cl \<and> run (Delete cl ''relay-1'') es x
       \<and> ((\<exists>gets q a. es = gets @ [E_Api q a] \<and> aq_method q = ''DELETE'' \<and> reports_gone cl a)
          \<or> (lookups es \<and> (\<exists>e. x = Inl e \<and> classify e = ErrAmbiguousScope))))"
proof -
  let ?e = "Err SentinelAmbiguous
     (''cloudflare resolve account: credential reaches several scopes; pin the scope in the relay config''
       @ '' (2 accounts; set account: in the relay config)'')"
  let ?k = "RelayKey ''cloudflare'' ''relay-1''"
  let ?at = "\<lambda>pc. (delete_worker ?k)\<lparr>wk_pc := pc\<rparr>"
  have name: "ProjectName ''relay-1'' = ''relay-1''" by code_simp
  have r: "run (Delete w_cloudflare ''relay-1'') w_many_events (Inl ?e)" by code_simp
  have c: "classify ?e = ErrAmbiguousScope" by (simp add: classify_def)
  have cl: "credentialFor w_memo ?k = Some w_cred" "For (\<lambda>_. []) ''cloudflare'' w_cred = Inr w_cloudflare"
    by (simp_all add: credentialFor_def w_memo_def For_def PlatformVercel_def PlatformCloudflare_def w_cloudflare_def)
  have key: "wk_key (?at pc) = ?k" for pc by (simp add: delete_worker_def)
  have "delete_hears (\<lambda>_. []) Map.empty (wk_key (?at (D_Credential 1))) (I_Memo None)"
    by (simp add: delete_hears_def credentialFor_def)
  moreover have "worker_step 0 (I_Memo None) (?at (D_Credential 1), w_registry) = Some (?at (D_Done 1), w_registry)"
    by (simp add: worker_step_def)
  ultimately have none: "credentialFor Map.empty ?k = None"
    using forgotten_when_gone [of "\<lambda>_. []" Map.empty "?at (D_Credential 1)" "I_Memo None"] by (auto simp: key)
  have "delete_hears (\<lambda>_. []) w_memo (wk_key (?at (D_Delete 1))) (deleted_input (Inl ?e))"
    unfolding key by (rule delete_hearsI [OF cl(1)]) (use cl(2) r name in simp_all)
  moreover have "worker_step 0 (deleted_input (Inl ?e)) (?at (D_Delete 1), w_registry) = Some (?at (D_Done 1), w_registry)"
    using c by (simp add: worker_step_def deleted_input_def)
  ultimately have "\<exists>cred cl es x. credentialFor w_memo ?k = Some cred \<and> For (\<lambda>_. []) (key_provider ?k) cred = Inr cl
       \<and> run (Delete cl (ProjectName (key_name ?k))) es x
       \<and> ((\<exists>gets q a. es = gets @ [E_Api q a] \<and> aq_method q = ''DELETE'' \<and> reports_gone cl a)
          \<or> (\<exists>c. cl = DenoClient c \<and> run (findProject c (ProjectName (key_name ?k))) es (Inr None))
          \<or> (lookups es \<and> (\<exists>e. x = Inl e \<and> classify e = ErrAmbiguousScope)))"
    using forgotten_when_gone [of "\<lambda>_. []" w_memo "?at (D_Delete 1)" "deleted_input (Inl ?e)"] by (auto simp: key)
  with none cl name show ?thesis by (fastforce simp: w_cloudflare_def)
qed

end
