(* ===== verification/Platform_Scopes.thy ===== *)
theory Platform_Scopes
  imports Platform_Properties
begin

text \<open>
  What a client may have done before it sends a request: the order of Vercel's calls, and
  the scope that every changing call of the Cloudflare and Deno clients stays in. And how
  the Deno project list is walked.
\<close>

section \<open>Guards on what came before\<close>

text \<open>Every call satisfies \<open>P\<close> with the events before it.\<close>

fun guarded :: "(event list \<Rightarrow> api_request \<Rightarrow> bool) \<Rightarrow> event list \<Rightarrow> event list \<Rightarrow> bool" where
  "guarded P pre [] = True"
| "guarded P pre (e # es) =
     ((case e of E_Api q a \<Rightarrow> P pre q | _ \<Rightarrow> True) \<and> guarded P (pre @ [e]) es)"

lemma guarded_append [simp]: "guarded P pre (es @ es') \<longleftrightarrow> guarded P pre es \<and> guarded P (pre @ es) es'"
  by (induction es arbitrary: pre) (auto split: event.splits)

lemma guardedD: "guarded P pre (es1 @ E_Api q a # es2) \<Longrightarrow> P (pre @ es1) q"
  by simp

lemma guarded_all: "(\<And>q a. E_Api q a \<in> set es \<Longrightarrow> \<forall>pre. P pre q) \<Longrightarrow> guarded P pre es"
  by (induction es arbitrary: pre) (auto split: event.splits)

lemma guarded_calls: "run p es x \<Longrightarrow> calls (\<lambda>q. \<forall>pre. P pre q) p \<Longrightarrow> guarded P pre es"
  by (rule guarded_all) (rule calls_run)

lemma guarded_after: "(\<And>pre' q. set pre \<subseteq> set pre' \<Longrightarrow> P pre' q) \<Longrightarrow> guarded P pre es"
proof (induction es arbitrary: pre)
  case (Cons e es)
  have "guarded P (pre @ [e]) es" by (rule Cons.IH) (use Cons.prems in auto)
  with Cons.prems [of pre] show ?case by (auto split: event.splits)
qed simp

section \<open>Vercel: variables before the deployment\<close>

definition env_request :: "api_client \<Rightarrow> string \<Rightarrow> string \<Rightarrow> string \<Rightarrow> api_request" where
  "env_request c project key v =
     \<lparr>aq_method = ''POST'', aq_url = env_url c project, aq_token = cr_token (ac_cred c),
      aq_contentType = ''application/json'', aq_body = JsonBody (vercelEnvBody key v)\<rparr>"

text \<open>The variable was set: the upsert was answered 2xx and reported no failure.\<close>

definition variable_set :: "api_client \<Rightarrow> string \<Rightarrow> string \<Rightarrow> string \<Rightarrow> event list \<Rightarrow> bool" where
  "variable_set c project key v es \<longleftrightarrow>
     (\<exists>a. E_Api (env_request c project key v) a \<in> set es \<and> call_result (into dec_failed) a = Inr [])"

definition creates_deployment :: "api_client \<Rightarrow> api_request \<Rightarrow> bool" where
  "creates_deployment c q \<longleftrightarrow> aq_method q = ''POST'' \<and> aq_url q = ac_base c @ ''/v13/deployments'' @ teamQuery c"

definition env_guard :: "api_client \<Rightarrow> spec \<Rightarrow> event list \<Rightarrow> api_request \<Rightarrow> bool" where
  "env_guard c spec pre q \<longleftrightarrow>
     (creates_deployment c q \<longrightarrow>
        variable_set c (sp_project spec) ''RELAY_VERSION'' (sp_version spec) pre
        \<and> variable_set c (sp_project spec) ''RELAY_AUTH_TOKEN'' (sp_token spec) pre)"

lemma variable_set_mono: "variable_set c p k v es \<Longrightarrow> set es \<subseteq> set es' \<Longrightarrow> variable_set c p k v es'"
  unfolding variable_set_def by blast

lemma upsert_sets: "run (upsertEnv c project key v) es (Inr u) \<Longrightarrow> variable_set c project key v es"
  by (auto simp: upsertEnv_def run_simps variable_set_def env_request_def)

lemma ensure_var_sets: "run (ensure_var c project key v) es (Inr u) \<Longrightarrow> variable_set c project key v es"
  unfolding ensure_var_def
  by (auto simp: run_simps dest!: upsert_sets elim: variable_set_mono)

lemma ensureEnv_sets:
  assumes "run (ensureEnv c project version token) es (Inr u)"
  shows "variable_set c project ''RELAY_VERSION'' version es \<and> variable_set c project ''RELAY_AUTH_TOKEN'' token es"
  using assms unfolding ensureEnv_def
  by (auto simp: run_then_do dest!: ensure_var_sets elim: variable_set_mono)

lemma env_calls: "calls (\<lambda>q. \<not> creates_deployment c q) (ensureEnv c project version token)"
  unfolding ensureEnv_def ensure_var_def upsertEnv_def vercel_createProject_def
  by (auto intro!: calls_intros simp: creates_deployment_def url_defs split: sum.splits list.splits)

text \<open>
  C22. On Vercel the worker reads its version and its relay key from project variables, and
  the call that creates a deployment carries none. Whenever a run creates a deployment,
  both variables have been set to the values being deployed.
\<close>

theorem variables_precede_deployment:
  assumes "run (vercel_Deploy env c spec) (es1 @ E_Api q a # es2) x" and "creates_deployment c q"
  shows "variable_set c (sp_project spec) ''RELAY_VERSION'' (sp_version spec) es1
       \<and> variable_set c (sp_project spec) ''RELAY_AUTH_TOKEN'' (sp_token spec) es1"
proof -
  let ?es = "es1 @ E_Api q a # es2"
  have quiet: "guarded (env_guard c spec) pre e1" if "run (ensureEnv c p v t) e1 y" for p v t e1 y pre
    by (rule guarded_calls [OF that]) (auto intro: calls_mono [OF env_calls] simp: env_guard_def)
  from assms(1) consider (failed) y where "run (ensureEnv c (sp_project spec) (sp_version spec) (sp_token spec)) ?es y"
    | (set) e1 e2 u where "?es = e1 @ e2"
        "run (ensureEnv c (sp_project spec) (sp_version spec) (sp_token spec)) e1 (Inr u)"
    unfolding vercel_Deploy_def run_then_do [of "ensureEnv _ _ _ _"] by blast
  then have "guarded (env_guard c spec) [] ?es"
  proof cases
    case failed
    then show ?thesis by (rule quiet)
  next
    case set
    have "guarded (env_guard c spec) e1 e2"
      using ensureEnv_sets [OF set(2)] by (intro guarded_after) (auto simp: env_guard_def elim: variable_set_mono)
    with set quiet [OF set(2), of "[]"] show ?thesis by simp
  qed
  then have "env_guard c spec es1 q" using guardedD by force
  with assms(2) show ?thesis by (simp add: env_guard_def)
qed

theorem variables_precede_deployment_witness:
  "\<exists>es1 q a es2. w_deploy_events = es1 @ E_Api q a # es2 \<and> aq_url q = ''https://api.vercel.com/v13/deployments?teamId=acme''
     \<and> (\<exists>b. E_Api (env_request (newVercelClient [] w_cred) ''relay-1'' ''RELAY_AUTH_TOKEN'' ''secret'') b \<in> set es1)"
proof -
  let ?c = "newVercelClient [] w_cred"
  let ?q = "\<lparr>aq_method = ''POST'', aq_url = ''https://api.vercel.com/v13/deployments?teamId=acme'', aq_token = ''key'',
             aq_contentType = ''application/json'', aq_body = JsonBody (vercel_deployment_body w_spec)\<rparr>"
  let ?a = "w_answer 200 (JObj [(''id'', JStr ''d1''), (''readyState'', JStr ''BUILDING'')])"
  have e: "w_deploy_events = take 2 w_deploy_events @ E_Api ?q ?a # drop 3 w_deploy_events" by code_simp
  have "run (vercel_Deploy w_env ?c w_spec) w_deploy_events
      (Inr \<lparr>res_project = ''relay-1'', res_externalID = ''d1'', res_url = ''https://relay-1.vercel.app''\<rparr>)"
    by code_simp
  then have r: "run (vercel_Deploy w_env ?c w_spec) (take 2 w_deploy_events @ E_Api ?q ?a # drop 3 w_deploy_events)
      (Inr \<lparr>res_project = ''relay-1'', res_externalID = ''d1'', res_url = ''https://relay-1.vercel.app''\<rparr>)"
    by (simp only: e [symmetric])
  have "creates_deployment ?c ?q" by code_simp
  from variables_precede_deployment [OF r this] have
    "\<exists>b. E_Api (env_request ?c ''relay-1'' ''RELAY_AUTH_TOKEN'' ''secret'') b \<in> set (take 2 w_deploy_events)"
    by (auto simp: variable_set_def w_spec_def)
  with e show ?thesis by fastforce
qed

section \<open>Deno: the walk through the organization\<close>

definition list_request :: "api_client \<Rightarrow> string \<Rightarrow> nat \<Rightarrow> api_request" where
  "list_request c name page =
     \<lparr>aq_method = ''GET'', aq_url = list_url c name page, aq_token = cr_token (ac_cred c), aq_contentType = [],
      aq_body = NoBody\<rparr>"

text \<open>The projects an answer lists.\<close>

abbreviation listed :: "api_answer \<Rightarrow> err + denoProject list" where
  "listed \<equiv> call_result (into (dec_array dec_denoProject))"

lemma find_append: "find P (xs @ ys) = (case find P xs of None \<Rightarrow> find P ys | Some x \<Rightarrow> Some x)"
  by (induction xs) auto

lemma find_take: "length xs \<le> n \<Longrightarrow> find P (take (n + m) xs) = find P xs"
  by simp

definition page_of :: "denoProject list \<Rightarrow> nat \<Rightarrow> denoProject list" where
  "page_of ps page = take 100 (drop (100 * (page - 1)) ps)"

definition walk_result :: "nat \<Rightarrow> string \<Rightarrow> denoProject list \<Rightarrow> err + denoProject option" where
  "walk_result n name rest =
     (case find (\<lambda>p. dp_name p = name) (take (100 * n) rest) of
        Some p \<Rightarrow> Inr (Some p)
      | None \<Rightarrow> if length rest < 100 * n then Inr None
                else Inl (Err Plain ''project list did not settle within 100 pages''))"

lemma walk_step:
  "walk_result (Suc n) name rest =
     (case find (\<lambda>p. dp_name p = name) (take 100 rest) of
        Some p \<Rightarrow> Inr (Some p)
      | None \<Rightarrow> if length (take 100 rest) < 100 then Inr None else walk_result n name (drop 100 rest))"
proof -
  have "take (100 * Suc n) rest = take 100 rest @ take (100 * n) (drop 100 rest)"
    by (simp add: take_add)
  then have f: "find (\<lambda>p. dp_name p = name) (take (100 * Suc n) rest) =
      (case find (\<lambda>p. dp_name p = name) (take 100 rest) of
         None \<Rightarrow> find (\<lambda>p. dp_name p = name) (take (100 * n) (drop 100 rest)) | Some x \<Rightarrow> Some x)"
    by (simp add: find_append)
  show ?thesis
    unfolding walk_result_def f by (auto split: option.splits)
qed

lemma find_walk:
  assumes "run (find_from n page c name) es x" and "1 \<le> page"
    and "\<And>k a. E_Api (list_request c name k) a \<in> set es \<Longrightarrow> listed a = Inr (page_of ps k)"
  shows "length es \<le> n \<and> x = walk_result n name (drop (100 * (page - 1)) ps)"
  using assms
proof (induction n arbitrary: page es)
  case 0
  then show ?case by (simp add: walk_result_def denoListPageMax_def) code_simp
next
  case (Suc n)
  from Suc.prems(1) obtain a es' where es: "es = E_Api (list_request c name page) a # es'"
    unfolding find_from.simps by (auto simp: run_then_do run_platformCall list_request_def)
  then have a: "listed a = Inr (page_of ps page)" using Suc.prems(3) by simp
  have next_page: "100 + 100 * (page - Suc 0) = 100 * page" using Suc.prems(2) by (cases page) auto
  show ?case
  proof (cases "find (\<lambda>p. dp_name p = name) (page_of ps page) = None \<and> \<not> length (page_of ps page) < 100")
    case True
    with Suc.prems(1) es a have "run (find_from n (page + 1) c name) es' x"
      by (auto simp: run_simps list_request_def denoListLimit_def)
    from Suc.IH [OF this] Suc.prems(3) es True show ?thesis
      by (simp add: walk_step next_page page_of_def)
  next
    case False
    with Suc.prems(1) es a have "es' = [] \<and> x = (case find (\<lambda>p. dp_name p = name) (page_of ps page) of
        Some p \<Rightarrow> Inr (Some p) | None \<Rightarrow> Inr None)"
      by (auto simp: run_simps list_request_def denoListLimit_def split: option.splits)
    with es False show ?thesis
      by (auto simp: walk_step page_of_def split: option.splits)
  qed
qed

text \<open>
  C24. The lookup is exact and bounded. Against a platform that pages a list of projects, in
  whatever order and with whatever it makes of the search filter, the walk makes at most a
  hundred calls and returns the first project with exactly the name asked for, None only
  when there is no such project, and an error only when ten thousand were seen in vain.
\<close>

theorem findProject_exact:
  assumes "run (findProject c name) es x"
    and "\<And>k a. E_Api (list_request c name k) a \<in> set es \<Longrightarrow> listed a = Inr (page_of ps k)"
  shows "length es \<le> 100
    \<and> x = (case find (\<lambda>p. dp_name p = name) (take 10000 ps) of
             Some p \<Rightarrow> Inr (Some p)
           | None \<Rightarrow> if length ps < 10000 then Inr None
                     else Inl (Err Plain ''project list did not settle within 100 pages''))"
  using find_walk [OF assms(1) [unfolded findProject_def] _ assms(2)]
  by (simp add: walk_result_def denoListPageMax_def)

text \<open>A page number can be read back from the URL that asks for it.\<close>

definition undec :: "string \<Rightarrow> nat" where
  "undec s = fold (\<lambda>d n. 10 * n + (byte d - 48)) s 0"

lemma undec_digits: "undec (dec_digits n) = n"
proof (induction n rule: dec_digits.induct)
  case (1 n)
  show ?case
  proof (cases "n < 10")
    case True
    then show ?thesis by (simp add: undec_def dec_digits.simps [of n])
  next
    case False
    with 1 show ?thesis
      unfolding dec_digits.simps [of n] by (simp add: undec_def)
  qed
qed

lemma itoa_inject [simp]: "itoa (int n) = itoa (int m) \<longleftrightarrow> n = m"
  by (simp add: itoa_def) (metis undec_digits)

lemma list_request_inject [simp]: "list_request c name k = list_request c name m \<longleftrightarrow> k = m"
  by (simp add: list_request_def list_url_def)

definition w_walk_events :: "event list" where
  "w_walk_events =
     [E_Api (list_request (newDenoClient [] w_cred) ''relay-1'' 1)
        (w_answer 200 (JArr (replicate 100 (JObj [(''id'', JStr ''x''), (''name'', JStr ''relay-10'')])))),
      E_Api (list_request (newDenoClient [] w_cred) ''relay-1'' 2)
        (w_answer 200 (JArr [JObj [(''id'', JStr ''p7''), (''name'', JStr ''relay-1'')]]))]"

lemma those_replicate [simp]: "those (replicate n (Some y)) = Some (replicate n y)"
  by (induction n) simp_all

lemma listed_answer:
  "those (map dec_denoProject js) = Some ps \<Longrightarrow> listed (w_answer 200 (JArr js)) = Inr ps"
  by (simp add: call_result_def w_answer_def into_def)

lemma two_pages:
  assumes "E_Api (list_request c name k) b \<in> set [E_Api (list_request c name 1) a1, E_Api (list_request c name 2) a2]"
    and "listed a1 = Inr (page_of ps 1)" and "listed a2 = Inr (page_of ps 2)"
  shows "listed b = Inr (page_of ps k)"
  using assms by auto

lemma length_two: "es = [x, y] \<Longrightarrow> length es = 2"
  by simp

lemma walk_on:
  assumes "listed a = Inr ps" and "find (\<lambda>p. dp_name p = name) ps = None" and "\<not> length ps < 100"
    and "run (find_from n (page + 1) c name) es x"
  shows "run (find_from (Suc n) page c name) (E_Api (list_request c name page) a # es) x"
  using assms by (simp add: then_do_def platformCall_def list_request_def denoListLimit_def)

lemma walk_found:
  assumes "listed a = Inr ps" and "find (\<lambda>p. dp_name p = name) ps = Some p"
  shows "run (find_from (Suc n) page c name) [E_Api (list_request c name page) a] (Inr (Some p))"
  using assms by (simp add: then_do_def platformCall_def list_request_def)

lemma find_replicate: "\<not> P x \<Longrightarrow> find P (replicate n x) = None"
  by (induction n) auto

lemma hundred_pages: "denoListPageMax = Suc (Suc 98)"
  by (simp add: denoListPageMax_def)

theorem findProject_exact_witness:
  "run (findProject (newDenoClient [] w_cred) ''relay-1'') w_walk_events
     (Inr (Some \<lparr>dp_id = ''p7'', dp_name = ''relay-1''\<rparr>)) \<and> length w_walk_events = 2"
proof -
  let ?c = "newDenoClient [] w_cred"
  define ps where "ps = replicate 100 \<lparr>dp_id = ''x'', dp_name = ''relay-10''\<rparr> @ [\<lparr>dp_id = ''p7'', dp_name = ''relay-1''\<rparr>]"
  let ?a1 = "w_answer 200 (JArr (replicate 100 (JObj [(''id'', JStr ''x''), (''name'', JStr ''relay-10'')])))"
  let ?a2 = "w_answer 200 (JArr [JObj [(''id'', JStr ''p7''), (''name'', JStr ''relay-1'')]])"
  have es: "w_walk_events = [E_Api (list_request ?c ''relay-1'' 1) ?a1, E_Api (list_request ?c ''relay-1'' 2) ?a2]"
    by (rule w_walk_events_def)
  have d: "dec_denoProject (JObj [(''id'', JStr ''x''), (''name'', JStr ''relay-10'')]) = Some \<lparr>dp_id = ''x'', dp_name = ''relay-10''\<rparr>"
    "dec_denoProject (JObj [(''id'', JStr ''p7''), (''name'', JStr ''relay-1'')]) = Some \<lparr>dp_id = ''p7'', dp_name = ''relay-1''\<rparr>"
    by (code_simp, code_simp)
  have a: "listed ?a1 = Inr (page_of ps 1)" "listed ?a2 = Inr (page_of ps 2)"
    by (rule listed_answer, simp only: map_replicate d those_replicate, simp add: page_of_def ps_def)
       (rule listed_answer, simp add: d page_of_def ps_def)
  have pages: "page_of ps 1 = replicate 100 \<lparr>dp_id = ''x'', dp_name = ''relay-10''\<rparr>"
    "page_of ps 2 = [\<lparr>dp_id = ''p7'', dp_name = ''relay-1''\<rparr>]"
    by (simp_all add: page_of_def ps_def)
  have "run (find_from (Suc (Suc 98)) 1 ?c ''relay-1'') w_walk_events (Inr (Some \<lparr>dp_id = ''p7'', dp_name = ''relay-1''\<rparr>))"
    unfolding es
  proof (rule walk_on [OF a(1) [unfolded pages]])
    show "find (\<lambda>p. dp_name p = ''relay-1'') (replicate 100 \<lparr>dp_id = ''x'', dp_name = ''relay-10''\<rparr>) = None"
      by (rule find_replicate) simp
    show "\<not> length (replicate 100 \<lparr>dp_id = ''x'', dp_name = ''relay-10''\<rparr>) < 100"
      by (simp only: length_replicate)
    show "run (find_from (Suc 98) (1 + 1) ?c ''relay-1'') [E_Api (list_request ?c ''relay-1'' 2) ?a2]
        (Inr (Some \<lparr>dp_id = ''p7'', dp_name = ''relay-1''\<rparr>))"
      unfolding one_add_one by (rule walk_found [OF a(2) [unfolded pages]]) simp
  qed
  then have r: "run (findProject ?c ''relay-1'') w_walk_events (Inr (Some \<lparr>dp_id = ''p7'', dp_name = ''relay-1''\<rparr>))"
    unfolding findProject_def hundred_pages .
  have p: "listed b = Inr (page_of ps k)" if "E_Api (list_request ?c ''relay-1'' k) b \<in> set w_walk_events" for k b
    by (rule two_pages [OF that [unfolded es] a])
  have "length w_walk_events = 2" by (rule length_two [OF es])
  with r findProject_exact [OF r p] show ?thesis by (intro conjI)
qed

end
