(* ===== verification/Platform_Ownership.thy ===== *)
theory Platform_Ownership
  imports Platform_Scopes
begin

text \<open>
  The scope a client's calls stay in: on Cloudflare one account, the pinned one or the only
  one the credential sees; on Deno the pinned organization's project of exactly the
  relay's name.
\<close>

lemma guarded_within:
  assumes "run p es x" and "calls Q p" and "\<And>pre' q. set pre \<subseteq> set pre' \<Longrightarrow> Q q \<Longrightarrow> P pre' q"
  shows "guarded P pre es"
proof -
  have "\<And>q a. E_Api q a \<in> set es \<Longrightarrow> Q q" by (rule calls_run [OF assms(2,1)])
  with assms(3) show ?thesis
  proof (induction es arbitrary: pre)
    case (Cons e es)
    have "guarded P (pre @ [e]) es" by (rule Cons.IH) (use Cons.prems in auto)
    with Cons.prems(1) [of pre] Cons.prems(2) show ?case by (auto split: event.splits)
  qed simp
qed

section \<open>Cloudflare: one account\<close>

definition accounts_request :: "api_client \<Rightarrow> api_request" where
  "accounts_request c =
     \<lparr>aq_method = ''GET'', aq_url = ac_base c @ ''/accounts'', aq_token = cr_token (ac_cred c),
      aq_contentType = [], aq_body = NoBody\<rparr>"

text \<open>The account is pinned, or the credential was seen to reach it and no other.\<close>

definition account_known :: "api_client \<Rightarrow> event list \<Rightarrow> string \<Rightarrow> bool" where
  "account_known c pre acc \<longleftrightarrow>
     (if cr_account (ac_cred c) \<noteq> [] then acc = cr_account (ac_cred c)
      else (\<exists>a env. E_Api (accounts_request c) a \<in> set pre
              \<and> call_result (into (dec_with_result (dec_array dec_account))) a = Inr (env, [acc])))"

definition in_account :: "api_client \<Rightarrow> string \<Rightarrow> api_request \<Rightarrow> bool" where
  "in_account c acc q \<longleftrightarrow> has_prefix (ac_base c @ ''/accounts/'' @ PathEscape acc @ ''/workers/'') (aq_url q)"

definition account_guard :: "api_client \<Rightarrow> event list \<Rightarrow> api_request \<Rightarrow> bool" where
  "account_guard c pre q \<longleftrightarrow>
     (q = accounts_request c \<and> cr_account (ac_cred c) = [])
     \<or> (\<exists>acc. account_known c pre acc \<and> in_account c acc q)"

lemma account_known_mono: "account_known c es acc \<Longrightarrow> set es \<subseteq> set es' \<Longrightarrow> account_known c es' acc"
  unfolding account_known_def by (auto split: if_splits)

lemma resolved_known: "run (resolveAccount c) es (Inr acc) \<Longrightarrow> account_known c es acc"
  unfolding resolveAccount_def account_known_def
  by (auto simp: run_simps accounts_request_def split: if_splits list.splits)

lemma resolve_guarded: "run (resolveAccount c) es x \<Longrightarrow> guarded (account_guard c) pre es"
  by (rule guarded_calls)
     (auto intro!: calls_intros simp: resolveAccount_def account_guard_def accounts_request_def split: sum.splits)

lemma resolved_first:
  assumes "run (then_do (resolveAccount c) f) es x" and "\<And>acc. calls (in_account c acc) (f acc)"
  shows "guarded (account_guard c) [] es"
proof -
  from assms(1) consider (failed) y where "run (resolveAccount c) es y"
    | (found) e1 acc e2 where "es = e1 @ e2" "run (resolveAccount c) e1 (Inr acc)" "run (f acc) e2 x"
    unfolding run_then_do by blast
  then show ?thesis
  proof cases
    case found
    have "guarded (account_guard c) e1 e2"
      using found(3) assms(2)
      by (rule guarded_within) (auto simp: account_guard_def intro: account_known_mono [OF resolved_known [OF found(2)]])
    with found resolve_guarded show ?thesis by simp
  qed (rule resolve_guarded)
qed

lemma prefix_simps:
  "has_prefix [] s" "has_prefix (x # p) (y # s) \<longleftrightarrow> x = y \<and> has_prefix p s"
  "has_prefix (r @ p) (r @ s) \<longleftrightarrow> has_prefix p s"
  by (auto simp: has_prefix_def)

lemmas account_simps = in_account_def prefix_simps url_defs

lemma subdomain_in_account: "calls (in_account c acc) (workersDevSubdomain c acc)"
  unfolding workersDevSubdomain_def by (auto intro!: calls_intros simp: account_simps)

lemma cloudflare_guarded:
  "run (cloudflare_Discover env c p) es d \<Longrightarrow> guarded (account_guard c) [] es"
  "run (cloudflare_Deploy env c s) es r \<Longrightarrow> guarded (account_guard c) [] es"
  "run (cloudflare_Delete c p) es u \<Longrightarrow> guarded (account_guard c) [] es"
  unfolding cloudflare_Discover_def cloudflare_Deploy_def cloudflare_Delete_def upload_script_def
    enable_subdomain_def Let_def
  by (rule resolved_first, assumption,
      auto intro!: calls_intros subdomain_in_account simp: account_simps split: sum.splits)+

text \<open>
  A Cloudflare client touches one account only. Apart from listing the accounts, which it
  does when none is pinned, every call of every operation is under the pinned account, or
  under the only account an earlier answer listed; a credential that sees several is never
  used to guess.
\<close>

theorem cloudflare_one_account:
  assumes "operates env (CloudflareClient c) (es1 @ E_Api q a # es2)"
  shows "(q = accounts_request c \<and> cr_account (ac_cred c) = [])
    \<or> (\<exists>acc. account_known c es1 acc
          \<and> has_prefix (ac_base c @ ''/accounts/'' @ PathEscape acc @ ''/workers/'') (aq_url q))"
proof -
  have "guarded (account_guard c) [] (es1 @ E_Api q a # es2)"
    using assms by (auto simp only: operates_def Discover.simps Deploy.simps Delete.simps dest: cloudflare_guarded)
  then have "account_guard c es1 q" using guardedD by force
  then show ?thesis by (simp add: account_guard_def in_account_def)
qed

theorem cloudflare_one_account_witness:
  "\<exists>es1 q a. w_delete_events = es1 @ [E_Api q a] \<and> aq_method q = ''DELETE''
     \<and> (\<exists>acc. account_known (newCloudflareClient [] w_cred) es1 acc
          \<and> has_prefix (''https://api.cloudflare.com/client/v4/accounts/'' @ PathEscape acc @ ''/workers/'') (aq_url q))"
proof -
  let ?c = "newCloudflareClient [] w_cred"
  obtain es1 q a where es: "w_delete_events = es1 @ E_Api q a # []" and m: "aq_method q = ''DELETE''"
  proof
    show "w_delete_events = take 1 w_delete_events
        @ E_Api \<lparr>aq_method = ''DELETE'',
                 aq_url = ''https://api.cloudflare.com/client/v4/accounts/a1/workers/scripts/relay-1'',
                 aq_token = ''key'', aq_contentType = [], aq_body = NoBody\<rparr>
            (w_answer 200 (JObj [(''success'', JBool False),
               (''errors'', JArr [JObj [(''code'', JNum (Some 7003)), (''message'', JStr ''no route'')]])])) # []"
      by code_simp
  qed simp
  have "run (Delete w_cloudflare ''relay-1'') w_delete_events (Inr ())" by code_simp
  then have "operates w_env (CloudflareClient ?c) (es1 @ E_Api q a # [])"
    unfolding operates_def es [symmetric] by (simp only: w_cloudflare_def [symmetric]) blast
  from cloudflare_one_account [OF this] m have "\<exists>acc. account_known ?c es1 acc
      \<and> has_prefix (ac_base ?c @ ''/accounts/'' @ PathEscape acc @ ''/workers/'') (aq_url q)"
    by (auto simp: accounts_request_def)
  moreover have "ac_base ?c = ''https://api.cloudflare.com/client/v4''" by code_simp
  ultimately show ?thesis using es m by fastforce
qed

section \<open>Deno: the project of the name\<close>

definition create_request :: "api_client \<Rightarrow> string \<Rightarrow> api_request" where
  "create_request c name =
     \<lparr>aq_method = ''POST'', aq_url = org_projects c, aq_token = cr_token (ac_cred c),
      aq_contentType = ''application/json'', aq_body = JsonBody (denoCreateProject name)\<rparr>"

text \<open>The id was answered for a project of this name: listed under it, or just created.\<close>

definition own :: "api_client \<Rightarrow> string \<Rightarrow> event list \<Rightarrow> string \<Rightarrow> bool" where
  "own c name pre i \<longleftrightarrow>
     (\<exists>k a ps p. E_Api (list_request c name k) a \<in> set pre \<and> listed a = Inr ps
        \<and> p \<in> set ps \<and> dp_name p = name \<and> dp_id p = i)
     \<or> (\<exists>a p. E_Api (create_request c name) a \<in> set pre
          \<and> call_result (into dec_denoProject) a = Inr p \<and> dp_id p = i)"

definition project_urls :: "api_client \<Rightarrow> string \<Rightarrow> string list" where
  "project_urls c i =
     [ac_base c @ ''/v1/projects/'' @ PathEscape i, ac_base c @ ''/v1/projects/'' @ PathEscape i @ ''/deployments'']"

definition deno_guard :: "api_client \<Rightarrow> string \<Rightarrow> event list \<Rightarrow> api_request \<Rightarrow> bool" where
  "deno_guard c name pre q \<longleftrightarrow>
     (aq_method q \<noteq> ''GET'' \<longrightarrow>
        (q = create_request c name \<and> run (findProject c name) pre (Inr None))
        \<or> (\<exists>i. own c name pre i \<and> aq_url q \<in> set (project_urls c i)))"

lemma own_mono: "own c name es i \<Longrightarrow> set es \<subseteq> set es' \<Longrightarrow> own c name es' i"
  unfolding own_def by blast

lemma found_own: "run (find_from n page c name) es (Inr (Some p)) \<Longrightarrow> own c name es (dp_id p)"
proof (induction n arbitrary: page es)
  case (Suc n)
  then obtain a ps es2 where es: "es = E_Api (list_request c name page) a # es2" and a: "listed a = Inr ps"
    and r: "run (case find (\<lambda>p. dp_name p = name) ps of
            Some p \<Rightarrow> Return (Inr (Some p))
          | None \<Rightarrow> if length ps < denoListLimit then Return (Inr None)
                    else find_from n (page + 1) c name) es2 (Inr (Some p))"
    by (auto simp: run_then_do run_platformCall list_request_def)
  show ?case
  proof (cases "find (\<lambda>p. dp_name p = name) ps")
    case None
    with r have "run (find_from n (page + 1) c name) es2 (Inr (Some p))" by (auto split: if_splits)
    from Suc.IH [OF this] show ?thesis using es by (auto elim: own_mono)
  next
    case (Some q)
    with r have "p = q" by simp
    with Some have "p \<in> set ps" "dp_name p = name" by (auto simp: find_Some_iff)
    with es a show ?thesis by (auto simp: own_def)
  qed
qed simp

lemma walk_guarded: "run (findProject c name) es x \<Longrightarrow> guarded (deno_guard c name) pre es"
  by (rule guarded_calls) (auto intro: calls_mono [OF find_project_calls] simp: deno_guard_def)

lemma own_guarded:
  assumes "run p es x" and "own c name pre i"
    and "calls (\<lambda>q. aq_method q \<noteq> ''GET'' \<longrightarrow> aq_url q \<in> set (project_urls c i)) p"
  shows "guarded (deno_guard c name) pre es"
  using assms(1,3) by (rule guarded_within) (auto simp: deno_guard_def intro: own_mono [OF assms(2)])

lemma project_for_guarded:
  assumes "run (project_for c name) es x"
  shows "guarded (deno_guard c name) [] es \<and> (\<forall>p. x = Inr p \<longrightarrow> own c name es (dp_id p))"
proof -
  from assms consider (failed) e where "run (findProject c name) es (Inl e)" "\<exists>e. x = Inl e"
    | (found) p where "run (findProject c name) es (Inr (Some p))" "x = Inr p"
    | (created) e1 a where "run (findProject c name) e1 (Inr None)" "es = e1 @ [E_Api (create_request c name) a]"
        "\<forall>p. x = Inr p \<longrightarrow> call_result (into dec_denoProject) a = Inr p"
    unfolding project_for_def deno_createProject_def
    by (cases x; fastforce simp: run_simps create_request_def)
  then show ?thesis
  proof cases
    case found
    then show ?thesis by (auto simp: walk_guarded findProject_def dest: found_own)
  next
    case created
    then show ?thesis by (auto simp: walk_guarded deno_guard_def own_def)
  qed (auto simp: walk_guarded)
qed

lemma await_reads: "calls (\<lambda>q. aq_method q = ''GET'') (awaitDeployment n c d)"
  by (induction n arbitrary: d) (auto intro!: calls_intros split: option.splits)

lemma delete_guarded:
  assumes "run (deno_Delete c name) es x"
  shows "guarded (deno_guard c name) [] es \<and> (es \<noteq> [] \<longrightarrow> cr_organization (ac_cred c) \<noteq> [])"
proof -
  from assms consider (unpinned) "es = []"
    | (walk) y where "cr_organization (ac_cred c) \<noteq> []" "run (findProject c name) es y"
    | (found) p e1 q a where "cr_organization (ac_cred c) \<noteq> []" "run (findProject c name) e1 (Inr (Some p))"
        "es = e1 @ [E_Api q a]" "aq_url q = ac_base c @ ''/v1/projects/'' @ PathEscape (dp_id p)"
    unfolding deno_Delete_def by (fastforce simp: run_if run_case_option run_bind run_then_do run_platformCall)
  then show ?thesis
  proof cases
    case found
    then have "own c name e1 (dp_id p)" by (auto simp: findProject_def dest: found_own)
    with found show ?thesis by (auto simp: walk_guarded deno_guard_def project_urls_def)
  qed (auto simp: walk_guarded)
qed

lemma deploy_guarded:
  assumes "run (deno_Deploy env c spec) es x" and "sp_project spec = name"
  shows "guarded (deno_guard c name) [] es \<and> (es \<noteq> [] \<longrightarrow> cr_organization (ac_cred c) \<noteq> [])"
proof (cases "cr_organization (ac_cred c) = []")
  case True
  with assms(1) show ?thesis by (simp add: deno_Deploy_def)
next
  case False
  have c: "calls (\<lambda>q. aq_method q \<noteq> ''GET'' \<longrightarrow> aq_url q \<in> set (project_urls c (dp_id p))) (deploy_to env c spec p)" for p
    unfolding deploy_to_def Let_def
    by (auto intro!: calls_intros intro: calls_mono [OF await_reads] simp: project_urls_def)
  from assms False have "run (then_do (project_for c name) (deploy_to env c spec)) es x"
    by (simp add: deno_Deploy_def)
  then consider (failed) y where "run (project_for c name) es y"
    | (found) e1 p e2 where "es = e1 @ e2" "run (project_for c name) e1 (Inr p)" "run (deploy_to env c spec p) e2 x"
    unfolding run_then_do by blast
  then have "guarded (deno_guard c name) [] es"
  proof cases
    case found
    with project_for_guarded [OF found(2)] own_guarded [OF found(3) _ c] show ?thesis by simp
  qed (simp add: project_for_guarded)
  with False show ?thesis by simp
qed

lemma discover_guarded:
  assumes "run (deno_Discover env c name) es x"
  shows "guarded (deno_guard c name) [] es \<and> (es \<noteq> [] \<longrightarrow> cr_organization (ac_cred c) \<noteq> [])"
  using assms walk_guarded [of c name es] unfolding deno_Discover_def
  by (auto simp: run_simps split: if_splits option.splits)

text \<open>A run of any operation of the Deno client for one project.\<close>

definition deno_run :: "environ \<Rightarrow> api_client \<Rightarrow> string \<Rightarrow> event list \<Rightarrow> bool" where
  "deno_run env c name es \<longleftrightarrow>
     (\<exists>x. run (deno_Discover env c name) es x) \<or> (\<exists>x. run (deno_Delete c name) es x)
     \<or> (\<exists>spec x. sp_project spec = name \<and> run (deno_Deploy env c spec) es x)"

text \<open>
  C21. A Deno client changes only what is its own. Without a pinned organization no operation
  sends anything, not even a lookup or a probe. With one, every call of a discovery, a deploy or
  a delete that is not a lookup either creates the project of the relay's name, after a complete
  walk found none, or addresses an id that the organization's list gave for exactly that name or
  that the creation returned.
\<close>

theorem deno_writes_own_project:
  assumes "deno_run env c name es"
  shows "(cr_organization (ac_cred c) = [] \<longrightarrow> es = [])
    \<and> (\<forall>es1 q a es2. es = es1 @ E_Api q a # es2 \<longrightarrow>
         cr_organization (ac_cred c) \<noteq> []
         \<and> (aq_method q = ''GET'' \<or> q = create_request c name \<and> run (findProject c name) es1 (Inr None)
            \<or> (\<exists>i. own c name es1 i \<and> aq_url q \<in> set (project_urls c i))))"
proof -
  have g: "guarded (deno_guard c name) [] es \<and> (es \<noteq> [] \<longrightarrow> cr_organization (ac_cred c) \<noteq> [])"
    using assms discover_guarded delete_guarded deploy_guarded unfolding deno_run_def by blast
  moreover have "deno_guard c name es1 q" if "es = es1 @ E_Api q a # es2" for es1 q a es2
    using guardedD [of "deno_guard c name" "[]" es1 q a es2] g that by simp
  ultimately show ?thesis by (fastforce simp: deno_guard_def)
qed

definition w_deno_ins :: "input list" where
  "w_deno_ins =
     [In_Api (w_answer 200 (JArr [])), In_Api (w_answer 200 (JObj [(''id'', JStr ''p9''), (''name'', JStr ''relay-1'')])),
      In_Api (w_answer 200 (JObj [(''id'', JStr ''d1''), (''status'', JStr ''success'')])), In_Version w_live]"

definition w_deno_events :: "event list" where
  "w_deno_events = trace (deno_Deploy w_env (newDenoClient [] w_cred) w_spec) w_deno_ins"

theorem deno_writes_own_project_witness:
  "deno_run w_env (newDenoClient [] w_cred) ''relay-1'' w_deno_events
   \<and> (\<exists>es1 q a es2. w_deno_events = es1 @ E_Api q a # es2 \<and> q = create_request (newDenoClient [] w_cred) ''relay-1''
     \<and> cr_organization (ac_cred (newDenoClient [] w_cred)) \<noteq> []
     \<and> (run (findProject (newDenoClient [] w_cred) ''relay-1'') es1 (Inr None)
        \<or> (\<exists>i. own (newDenoClient [] w_cred) ''relay-1'' es1 i
              \<and> aq_url q \<in> set (project_urls (newDenoClient [] w_cred) i))))"
proof -
  let ?c = "newDenoClient [] w_cred" and ?a = "w_answer 200 (JObj [(''id'', JStr ''p9''), (''name'', JStr ''relay-1'')])"
  have e: "w_deno_events = take 1 w_deno_events @ E_Api (create_request ?c ''relay-1'') ?a # drop 2 w_deno_events"
    by code_simp
  have "run (deno_Deploy w_env ?c w_spec) w_deno_events
      (Inr \<lparr>res_project = ''relay-1'', res_externalID = ''d1'', res_url = ''https://relay-1.deno.dev''\<rparr>)"
    by code_simp
  moreover have "sp_project w_spec = ''relay-1''" by (simp add: w_spec_def)
  ultimately have r: "deno_run w_env ?c ''relay-1'' w_deno_events" unfolding deno_run_def by blast
  have m: "aq_method (create_request ?c ''relay-1'') \<noteq> ''GET''" by (simp add: create_request_def)
  from deno_writes_own_project [OF r] e m r show ?thesis by blast
qed

end
