(* ===== verification/Probe_Exchange.thy ===== *)
theory Probe_Exchange
  imports Platform_Clients
begin

text \<open>
  The two HTTP exchanges a verification rests on (\<open>Probe\<close> and \<open>ForwardProbe\<close> of
  \<open>internal/deploy/deploy.go\<close>), the worker source a deployment carries
  (\<open>internal/deploy/workers/embed.go\<close>) and the version it must answer
  (\<open>internal/relayversion/relayversion.go\<close>).

  The network is a parameter: what comes of a request. So are \<open>url.JoinPath\<close> (\<open>join\<close>, of a base and
  one path element) and
  \<open>url.Parse\<close> (\<open>up\<close>: the scheme and the host as \<open>String\<close> prints it), and the embedded files.
\<close>

section \<open>Exchanges\<close>

text \<open>A GET with the header fields set on it.\<close>

datatype probe_request = Get string "(string \<times> string) list"

text \<open>
  \<open>rp_marker\<close> is the \<open>X-Vercel-Error\<close> header, \<open>rp_readErr\<close> an error within the first 4096
  bytes of the body, \<open>rp_json\<close> what \<open>json.Unmarshal\<close> reads in them.
\<close>

record http_reply =
  rp_status :: int
  rp_marker :: string
  rp_readErr :: "string option"
  rp_json :: "json option"

datatype exchange = X_Unbuilt string | X_Failed string | X_Reply http_reply

type_synonym network = "probe_request \<Rightarrow> exchange"

definition dec_version :: "json \<Rightarrow> string option" where
  "dec_version j = Option.bind (dec_members j) (\<lambda>ms. dec_field dec_string ''version'' ms)"

definition Probe :: "(string \<Rightarrow> string \<Rightarrow> string + string) \<Rightarrow> network \<Rightarrow> string \<Rightarrow> string + probe_answer" where
  "Probe join net base =
    (case join base ''__relay/version'' of
       Inl e \<Rightarrow> Inl (''probe URL: '' @ e)
     | Inr u \<Rightarrow>
         (case net (Get u []) of
            X_Unbuilt e \<Rightarrow> Inl (''probe request: '' @ e)
          | X_Failed e \<Rightarrow> Inl (''probe: '' @ e)
          | X_Reply r \<Rightarrow>
              (let answer = \<lparr>pa_version = [], pa_status = rp_status r, pa_marker = trim_space (rp_marker r)\<rparr>
               in if rp_status r \<noteq> 200 then Inr answer
                  else (case rp_readErr r of
                          Some e \<Rightarrow> Inl (''probe: read answer: '' @ e)
                        | None \<Rightarrow>
                            (case Option.bind (rp_json r) dec_version of
                               None \<Rightarrow> Inr answer
                             | Some v \<Rightarrow> if v = [] then Inr answer else Inr (answer\<lparr>pa_version := v\<rparr>))))))"

definition forwardProbePath :: string where "forwardProbePath = ''/__relay/version''"

definition forward_request :: "string \<Rightarrow> string \<Rightarrow> string \<Rightarrow> string \<Rightarrow> probe_request" where
  "forward_request base scheme host key =
     Get base ([(''X-Relay-Target'', scheme @ ''://'' @ host), (''X-Relay-Path'', forwardProbePath)]
               @ (if key \<noteq> [] then [(''X-Relay-Token'', key)] else []))"

definition ForwardProbe ::
    "(string \<Rightarrow> string + string \<times> string) \<Rightarrow> network \<Rightarrow> string \<Rightarrow> string \<Rightarrow> string + forward_answer" where
  "ForwardProbe up net base key =
    (case up base of
       Inl e \<Rightarrow> Inl (''forward probe URL: '' @ e)
     | Inr (scheme, host) \<Rightarrow>
         if host = [] \<or> (scheme \<noteq> ''http'' \<and> scheme \<noteq> ''https'')
         then Inl (''forward probe URL '' @ go_quote base @ '': missing host or scheme'')
         else (case net (forward_request base scheme host key) of
                 X_Unbuilt e \<Rightarrow> Inl (''forward probe request: '' @ e)
               | X_Failed e \<Rightarrow> Inl (''forward probe: '' @ e)
               | X_Reply r \<Rightarrow>
                   if rp_status r \<noteq> 200 then Inr \<lparr>fa_status = rp_status r, fa_json = False\<rparr>
                   else (case rp_readErr r of
                           Some e \<Rightarrow> Inl (''forward probe: read answer: '' @ e)
                         | None \<Rightarrow> Inr \<lparr>fa_status = rp_status r,
                                        fa_json = (Option.bind (rp_json r) dec_members \<noteq> None)\<rparr>)))"

text \<open>\<open>Worker.verify\<close> on the network: the second exchange happens only when the first passed.\<close>

definition verify_on ::
    "(string \<Rightarrow> string \<Rightarrow> string + string) \<Rightarrow> (string \<Rightarrow> string + string \<times> string) \<Rightarrow> network
      \<Rightarrow> string \<Rightarrow> duration \<Rightarrow> string \<Rightarrow> string \<Rightarrow> verdict" where
  "verify_on join up net version dur url relayKey =
     verify version dur (Probe join net url) (ForwardProbe up net url relayKey)"

section \<open>What is deployed\<close>

definition Assemble :: "(string \<Rightarrow> string + string) \<Rightarrow> string \<Rightarrow> string + string" where
  "Assemble files platform =
    (case files ''core.js'' of
       Inl e \<Rightarrow> Inl e
     | Inr core \<Rightarrow>
         (case files (''entry.'' @ platform @ ''.js'') of
            Inl e \<Rightarrow> Inl (''platform '' @ go_quote platform @ '' has no worker entry: '' @ e)
          | Inr entrySrc \<Rightarrow> Inr (core @ [CHR 0x0A] @ entrySrc)))"

text \<open>None is a panic.\<close>

definition MustAssemble :: "(string \<Rightarrow> string + string) \<Rightarrow> string \<Rightarrow> string option" where
  "MustAssemble files platform = (case Assemble files platform of Inl e \<Rightarrow> None | Inr src \<Rightarrow> Some src)"

definition mustParse :: "json option \<Rightarrow> string option" where
  "mustParse artifact =
    (case Option.bind artifact dec_version of
       None \<Rightarrow> None
     | Some v \<Rightarrow> if v = [] then None else Some v)"

definition rollout_spec ::
    "(string \<Rightarrow> string + string) \<Rightarrow> string \<Rightarrow> string \<Rightarrow> cfg_relay \<Rightarrow> spec option" where
  "rollout_spec files version relayKey rel =
     map_option (\<lambda>src. \<lparr>sp_project = ProjectName (rl_name rel), sp_source = src, sp_version = version, sp_token = relayKey\<rparr>)
       (MustAssemble files (rl_provider rel))"

section \<open>Properties\<close>

definition version_reply :: "string \<Rightarrow> http_reply \<Rightarrow> bool" where
  "version_reply version r \<longleftrightarrow> rp_status r = 200 \<and> rp_readErr r = None
     \<and> Option.bind (rp_json r) dec_version = Some version
     \<and> \<not> contains (trim_space (rp_marker r)) ''DEPLOYMENT_DISABLED''"

definition forward_reply :: "http_reply \<Rightarrow> bool" where
  "forward_reply r \<longleftrightarrow> rp_status r = 200 \<and> rp_readErr r = None
     \<and> Option.bind (rp_json r) dec_members \<noteq> None"

lemma Probe_version_reply:
  assumes "version \<noteq> []" and "join base ''__relay/version'' = Inr u" and "net (Get u []) = X_Reply r" and "version_reply version r"
  shows "Probe join net base = Inr \<lparr>pa_version = version, pa_status = 200, pa_marker = trim_space (rp_marker r)\<rparr>"
    and "\<not> Suspended \<lparr>pa_version = version, pa_status = 200, pa_marker = trim_space (rp_marker r)\<rparr>"
  using assms by (auto simp: Probe_def Suspended_def version_reply_def Let_def)

lemma Probe_version_only:
  assumes "Probe join net base = Inr a" and "pa_version a = version" and "\<not> Suspended a" and "version \<noteq> []"
  shows "\<exists>u r. join base ''__relay/version'' = Inr u \<and> net (Get u []) = X_Reply r \<and> version_reply version r"
  using assms
  by (auto simp: Probe_def Let_def Suspended_def version_reply_def contains_def
      split: sum.splits exchange.splits option.splits if_splits)

lemma ForwardProbe_passes:
  "(\<exists>f. ForwardProbe up net base key = Inr f \<and> fa_status f \<noteq> 404 \<and> fa_status f < 500 \<and> fa_json f) \<longleftrightarrow>
     (\<exists>scheme host r. up base = Inr (scheme, host) \<and> host \<noteq> [] \<and> scheme \<in> {''http'', ''https''}
        \<and> net (forward_request base scheme host key) = X_Reply r \<and> forward_reply r)"
  by (auto simp: ForwardProbe_def forward_reply_def split: sum.splits exchange.splits option.splits if_splits)

lemma Probe_passes:
  assumes "version \<noteq> []"
  shows "(\<exists>a. Probe join net base = Inr a \<and> pa_version a = version \<and> \<not> Suspended a) \<longleftrightarrow>
     (\<exists>u r. join base ''__relay/version'' = Inr u \<and> net (Get u []) = X_Reply r \<and> version_reply version r)"
    (is "?L \<longleftrightarrow> ?R")
proof
  assume ?L
  then obtain a where "Probe join net base = Inr a" "pa_version a = version" "\<not> Suspended a" by blast
  then show ?R using assms by (rule Probe_version_only)
next
  assume ?R
  then obtain u r where "join base ''__relay/version'' = Inr u" "net (Get u []) = X_Reply r" "version_reply version r" by blast
  from Probe_version_reply [of version join base u net r, OF assms this] show ?L
    by (intro exI conjI) (assumption | simp)+
qed

lemma verify_ok_iff:
  assumes "version \<noteq> []"
  shows "v_kind (verify version dur probe fwd) = verifyOK \<longleftrightarrow>
     (\<exists>a. probe = Inr a \<and> pa_version a = version \<and> \<not> Suspended a)
     \<and> (\<exists>f. fwd = Inr f \<and> fa_status f \<noteq> 404 \<and> fa_status f < 500 \<and> fa_json f)"
  using assms by (auto simp: verify_def Let_def split: sum.splits)

text \<open>
  C16. A relay verifies exactly when the version route (\<open>__relay/version\<close> joined to its URL) answered 200 with the expected
  version and no suspension marker, and the forwarding request -- its own origin as the target,
  the relay key as the token when there is one -- came back a 200 with a JSON object (or
  \<open>null\<close>) in the body. Nothing else a network can do makes a relay verified.
\<close>

theorem verified_end_to_end:
  assumes "version \<noteq> []"
  shows "v_kind (verify_on join up net version dur url key) = verifyOK \<longleftrightarrow>
     (\<exists>u r. join url ''__relay/version'' = Inr u \<and> net (Get u []) = X_Reply r \<and> version_reply version r)
     \<and> (\<exists>scheme host r. up url = Inr (scheme, host) \<and> host \<noteq> [] \<and> scheme \<in> {''http'', ''https''}
          \<and> net (forward_request url scheme host key) = X_Reply r \<and> forward_reply r)"
  unfolding verify_on_def verify_ok_iff [OF assms] ForwardProbe_passes Probe_passes [OF assms] by (rule refl)

definition sim_relay :: network where
  "sim_relay q = (case q of Get u hs \<Rightarrow>
     if u = ''https://a.dev/__relay/version'' \<or> hs = [(''X-Relay-Target'', ''https://a.dev''),
          (''X-Relay-Path'', ''/__relay/version''), (''X-Relay-Token'', ''k'')]
     then X_Reply \<lparr>rp_status = 200, rp_marker = [], rp_readErr = None,
                   rp_json = Some (JObj [(''version'', JStr ''1.2.3'')])\<rparr>
     else X_Failed ''refused'')"

lemma sim_relay_answer:
  "dec_field dec_string ''version'' [(''version'', JStr ''1.2.3'')] = Some ''1.2.3''"
  "index_of ''DEPLOYMENT_DISABLED'' (trim_space []) = None"
  by code_simp+

lemma verified_end_to_end_witness:
  "v_kind (verify_on (\<lambda>u p. Inr (u @ ''/'' @ p)) (\<lambda>u. Inr (''https'', ''a.dev'')) sim_relay
     ''1.2.3'' 0 ''https://a.dev'' ''k'') = verifyOK"
  unfolding verified_end_to_end [of "''1.2.3''", simplified]
  by (simp add: sim_relay_def version_reply_def forward_reply_def forward_request_def forwardProbePath_def
      dec_version_def contains_def sim_relay_answer)

end
