(* ===== verification/Worker_Loop.thy ===== *)
theory Worker_Loop
  imports Config Runs
begin

text \<open>
  The goroutine of \<open>internal/reconcile/reconcile.go\<close> that runs the passes: \<open>Start\<close>, \<open>loop\<close>,
  \<open>Wake\<close>, \<open>Stop\<close> and \<open>awaitIdle\<close>, beside the watcher of \<open>cmd/http-relay-gateway/main.go\<close> that
  stores a configuration and then wakes the worker, and a clock.

  What a pass does to the registry is the subject of \<^theory_text>\<open>Reconcile\<close>; here a pass reads the desired
  state once, opens any number of drain waits (one per goroutine that replaces or deletes a
  relay) and cannot end before they have. An event is one atomic step of one goroutine,
  a timer, or the passing of time; whether a relay has become idle is the environment's.
\<close>

section \<open>State\<close>

definition DefaultQuiesceTimeout :: duration where "DefaultQuiesceTimeout = 30 * second"

text \<open>\<open>Start\<close> on \<open>QuiesceTimeout\<close>.\<close>

definition quiesce_of :: "duration \<Rightarrow> duration" where
  "quiesce_of q = (if q \<le> 0 then DefaultQuiesceTimeout else q)"

text \<open>A drain wait: the budget was read, the timeout computed, parked inside \<open>AwaitIdle\<close> until an instant.\<close>

datatype drain = DR_Budget "instant option" | DR_Timeout duration | DR_Parked instant

text \<open>Before the pass reads the desired state, in the pass, at the head of the loop, in the \<open>select\<close> with
  its timer, returned.\<close>

datatype loop_pc = LP_Pass | LP_Working | LP_Head | LP_Select instant | LP_Done

text \<open>\<open>Stop\<close> with its deadline: not called, budget published, context cancelled, waiting, returned at an
  instant.\<close>

datatype stop_pc = SP_No | SP_Published instant | SP_Cancelled instant | SP_Waiting instant
  | SP_Returned instant instant

fun selecting :: "loop_pc \<Rightarrow> bool" where
  "selecting (LP_Select t) = True"
| "selecting _ = False"

record wloop =
  wl_now :: instant
  wl_desired :: "config option"
  wl_owed :: bool
  wl_wake :: bool
  wl_pc :: loop_pc
  wl_last :: "config option option"
  wl_drains :: "(nat \<times> drain) list"
  wl_ctx :: bool
  wl_budget :: "instant option"
  wl_timers :: "instant list"
  wl_drainCancelled :: bool
  wl_stop :: stop_pc

text \<open>
  \<open>wl_wake\<close> is the one-place channel, \<open>wl_owed\<close> says that the watcher stored a configuration and has yet
  to call \<open>Wake\<close>, \<open>wl_ctx\<close> that the context is cancelled, \<open>wl_budget\<close> is the published deadline,
  \<open>wl_timers\<close> are the pending \<open>AfterFunc\<close>s. \<open>wl_last\<close> is not in the code: what the last pass read.
\<close>

definition Start_worker :: "instant \<Rightarrow> config option \<Rightarrow> wloop" where
  "Start_worker now cfg =
     \<lparr>wl_now = now, wl_desired = cfg, wl_owed = False, wl_wake = False, wl_pc = LP_Pass, wl_last = None,
      wl_drains = [], wl_ctx = False, wl_budget = None, wl_timers = [], wl_drainCancelled = False,
      wl_stop = SP_No\<rparr>"

section \<open>Steps\<close>

definition interval_of :: "config option \<Rightarrow> duration" where
  "interval_of cfg =
     (case cfg of
        Some c \<Rightarrow> if se_verifyInterval (cf_settings c) > 0 then se_verifyInterval (cf_settings c) else 60 * second
      | None \<Rightarrow> 60 * second)"

definition clamp :: "duration \<Rightarrow> instant \<Rightarrow> instant option \<Rightarrow> duration" where
  "clamp q now budget =
     (case budget of None \<Rightarrow> q | Some dl \<Rightarrow> if dl - now < q then dl - now else q)"

definition Wake :: "wloop \<Rightarrow> wloop" where
  "Wake s = s\<lparr>wl_wake := True\<rparr>"

datatype ended = DE_Idle | DE_Timer | DE_Cancelled

fun may_end :: "wloop \<Rightarrow> instant \<Rightarrow> ended \<Rightarrow> bool" where
  "may_end s at DE_Idle = True"
| "may_end s at DE_Timer = (at \<le> wl_now s)"
| "may_end s at DE_Cancelled = wl_drainCancelled s"

fun awaitIdle_step :: "duration \<Rightarrow> wloop \<Rightarrow> drain \<Rightarrow> drain option" where
  "awaitIdle_step q s (DR_Budget b) = Some (DR_Timeout (clamp q (wl_now s) b))"
| "awaitIdle_step q s (DR_Timeout d) = Some (DR_Parked (wl_now s + d))"
| "awaitIdle_step q s (DR_Parked at) = None"

datatype wl_event =
    WL_Tick duration
  | WL_Store config
  | WL_Wake
  | WL_Read
  | WL_DrainBegin nat
  | WL_DrainStep nat
  | WL_DrainEnd nat ended
  | WL_PassEnd
  | WL_Interval
  | WL_SelectWake
  | WL_SelectTimer
  | WL_SelectDone
  | WL_Stop instant
  | WL_Cancel
  | WL_AfterFunc
  | WL_Fire instant
  | WL_StopDone
  | WL_StopBudget

definition guard :: "bool \<Rightarrow> wloop \<Rightarrow> wloop option" where
  "guard b s = (if b then Some s else None)"

fun watch_step :: "wl_event \<Rightarrow> wloop \<Rightarrow> wloop option" where
  "watch_step (WL_Store c) s = guard (\<not> wl_owed s) (s\<lparr>wl_desired := Some c, wl_owed := True\<rparr>)"
| "watch_step WL_Wake s = guard (wl_owed s) ((Wake s)\<lparr>wl_owed := False\<rparr>)"
| "watch_step _ s = None"

fun loop_step :: "duration \<Rightarrow> wl_event \<Rightarrow> wloop \<Rightarrow> wloop option" where
  "loop_step q WL_Read s =
     guard (wl_pc s = LP_Pass) (s\<lparr>wl_pc := LP_Working, wl_last := Some (wl_desired s)\<rparr>)"
| "loop_step q (WL_DrainBegin j) s =
     guard (wl_pc s = LP_Working \<and> map_of (wl_drains s) j = None)
       (s\<lparr>wl_drains := AList.update j (DR_Budget (wl_budget s)) (wl_drains s)\<rparr>)"
| "loop_step q (WL_DrainStep j) s =
     (case map_of (wl_drains s) j of
        None \<Rightarrow> None
      | Some d \<Rightarrow>
          (case awaitIdle_step q s d of
             None \<Rightarrow> None
           | Some d' \<Rightarrow> Some (s\<lparr>wl_drains := AList.update j d' (wl_drains s)\<rparr>)))"
| "loop_step q (WL_DrainEnd j w) s =
     (case map_of (wl_drains s) j of
        Some (DR_Parked at) \<Rightarrow> guard (may_end s at w) (s\<lparr>wl_drains := AList.delete j (wl_drains s)\<rparr>)
      | _ \<Rightarrow> None)"
| "loop_step q WL_PassEnd s = guard (wl_pc s = LP_Working \<and> wl_drains s = []) (s\<lparr>wl_pc := LP_Head\<rparr>)"
| "loop_step q WL_Interval s =
     guard (wl_pc s = LP_Head) (s\<lparr>wl_pc := LP_Select (wl_now s + interval_of (wl_desired s))\<rparr>)"
| "loop_step q WL_SelectWake s =
     guard (selecting (wl_pc s) \<and> wl_wake s) (s\<lparr>wl_pc := LP_Pass, wl_wake := False\<rparr>)"
| "loop_step q WL_SelectTimer s =
     (case wl_pc s of LP_Select t \<Rightarrow> guard (t \<le> wl_now s) (s\<lparr>wl_pc := LP_Pass\<rparr>) | _ \<Rightarrow> None)"
| "loop_step q WL_SelectDone s =
     guard (selecting (wl_pc s) \<and> wl_ctx s) (s\<lparr>wl_pc := LP_Done\<rparr>)"
| "loop_step q _ s = None"

fun stop_step :: "wl_event \<Rightarrow> wloop \<Rightarrow> wloop option" where
  "stop_step (WL_Stop dl) s =
     (case wl_stop s of
        SP_No \<Rightarrow> Some (s\<lparr>wl_budget := Some dl, wl_stop := SP_Published dl\<rparr>)
      | SP_Returned d t \<Rightarrow> Some (s\<lparr>wl_budget := Some dl, wl_stop := SP_Published dl\<rparr>)
      | _ \<Rightarrow> None)"
| "stop_step WL_Cancel s =
     (case wl_stop s of SP_Published dl \<Rightarrow> Some (s\<lparr>wl_ctx := True, wl_stop := SP_Cancelled dl\<rparr>) | _ \<Rightarrow> None)"
| "stop_step WL_AfterFunc s =
     (case wl_stop s of
        SP_Cancelled dl \<Rightarrow> Some (s\<lparr>wl_timers := dl # wl_timers s, wl_stop := SP_Waiting dl\<rparr>)
      | _ \<Rightarrow> None)"
| "stop_step (WL_Fire dl) s =
     guard (dl \<in> set (wl_timers s) \<and> dl \<le> wl_now s)
       (s\<lparr>wl_timers := remove1 dl (wl_timers s), wl_drainCancelled := True\<rparr>)"
| "stop_step WL_StopDone s =
     (case wl_stop s of
        SP_Waiting dl \<Rightarrow> guard (wl_pc s = LP_Done) (s\<lparr>wl_stop := SP_Returned dl (wl_now s)\<rparr>)
      | _ \<Rightarrow> None)"
| "stop_step WL_StopBudget s =
     (case wl_stop s of
        SP_Waiting dl \<Rightarrow> guard (dl \<le> wl_now s) (s\<lparr>wl_stop := SP_Returned dl (wl_now s)\<rparr>)
      | _ \<Rightarrow> None)"
| "stop_step _ s = None"

definition wl_step :: "duration \<Rightarrow> wl_event \<Rightarrow> wloop \<Rightarrow> wloop option" where
  "wl_step q e s =
     (case e of
        WL_Tick d \<Rightarrow> guard (0 < d) (s\<lparr>wl_now := wl_now s + d\<rparr>)
      | WL_Store c \<Rightarrow> watch_step e s
      | WL_Wake \<Rightarrow> watch_step e s
      | WL_Stop dl \<Rightarrow> stop_step e s
      | WL_Cancel \<Rightarrow> stop_step e s
      | WL_AfterFunc \<Rightarrow> stop_step e s
      | WL_Fire dl \<Rightarrow> stop_step e s
      | WL_StopDone \<Rightarrow> stop_step e s
      | WL_StopBudget \<Rightarrow> stop_step e s
      | _ \<Rightarrow> loop_step (quiesce_of q) e s)"

abbreviation wl_exec :: "duration \<Rightarrow> wl_event list \<Rightarrow> wloop \<Rightarrow> wloop option" where
  "wl_exec q \<equiv> run_events (wl_step q)"

section \<open>Runs\<close>

lemma guard_Some [simp]: "guard b s = Some s' \<longleftrightarrow> b \<and> s' = s"
  by (auto simp: guard_def)

lemma guard_True [simp]: "guard True s = Some s"
  by (simp add: guard_def)

lemmas wl_splits = if_splits option.splits drain.splits loop_pc.splits stop_pc.splits

definition announced :: "wloop \<Rightarrow> bool" where
  "announced s \<longleftrightarrow> wl_owed s \<or> wl_wake s \<or> wl_pc s = LP_Pass \<or> wl_last s = Some (wl_desired s)"

lemma announced_step: "wl_step q e s = Some s' \<Longrightarrow> announced s \<Longrightarrow> announced s'"
  by (cases e) (auto simp: wl_step_def announced_def Wake_def split: wl_splits)

definition stop_ok :: "wloop \<Rightarrow> bool" where
  "stop_ok s \<longleftrightarrow>
     (case wl_stop s of
        SP_No \<Rightarrow> wl_timers s = [] \<and> \<not> wl_drainCancelled s \<and> \<not> wl_ctx s
      | SP_Published dl \<Rightarrow> True
      | SP_Cancelled dl \<Rightarrow> wl_ctx s
      | SP_Waiting dl \<Rightarrow> wl_ctx s \<and> (dl \<in> set (wl_timers s) \<or> wl_drainCancelled s)
      | SP_Returned dl t \<Rightarrow> wl_ctx s \<and> t \<le> wl_now s)
     \<and> (wl_pc s \<noteq> LP_Working \<longrightarrow> wl_drains s = [])"

lemma update_not_Nil [simp]: "AList.update k v xs \<noteq> []"
  by (cases xs) auto

lemma stop_ok_step: "wl_step q e s = Some s' \<Longrightarrow> stop_ok s \<Longrightarrow> stop_ok s'"
  by (cases e) (auto simp: wl_step_def stop_ok_def Wake_def split: wl_splits)

lemma run_ok:
  assumes "wl_exec q es (Start_worker now cfg) = Some s"
  shows "announced s" and "stop_ok s"
  by (rule run_events_inv [OF assms _ announced_step] run_events_inv [OF assms _ stop_ok_step];
      (assumption | simp add: announced_def stop_ok_def Start_worker_def))+

section \<open>No wake is lost\<close>

text \<open>
  C17. After any run, either the watcher is about to call \<open>Wake\<close>, or a wake sits in the channel, or a pass
  is about to read the desired state, or the last pass read the one in force: a configuration
  stored while a pass runs is never forgotten, whatever number of wakes the one-place channel
  dropped. And from the \<open>select\<close> the worker reads the configuration in force in at most three of its
  steps and the watcher's, with no help from the verify timer.
\<close>

theorem no_wake_lost:
  assumes "wl_exec q es (Start_worker now cfg) = Some s"
  shows "announced s
     \<and> (selecting (wl_pc s) \<longrightarrow>
          (\<exists>es' s'. set es' \<subseteq> {WL_Wake, WL_SelectWake, WL_Read} \<and> length es' \<le> 3
             \<and> wl_exec q es' s = Some s' \<and> wl_desired s' = wl_desired s \<and> wl_last s' = Some (wl_desired s)))"
proof (intro conjI impI)
  show a: "announced s" by (rule run_ok [OF assms])
  assume sel: "selecting (wl_pc s)"
  then have not_pass: "wl_pc s \<noteq> LP_Pass" by auto
  let ?goal = "\<lambda>es'. \<exists>s'. set es' \<subseteq> {WL_Wake, WL_SelectWake, WL_Read} \<and> length es' \<le> 3
      \<and> wl_exec q es' s = Some s' \<and> wl_desired s' = wl_desired s \<and> wl_last s' = Some (wl_desired s)"
  consider "wl_owed s" | "\<not> wl_owed s" "wl_wake s" | "wl_last s = Some (wl_desired s)"
    using a not_pass by (auto simp: announced_def)
  then show "\<exists>es'. ?goal es'"
  proof cases
    case 1
    with sel have "?goal [WL_Wake, WL_SelectWake, WL_Read]" by (simp add: wl_step_def Wake_def)
    then show ?thesis ..
  next
    case 2
    with sel have "?goal [WL_SelectWake, WL_Read]" by (simp add: wl_step_def)
    then show ?thesis ..
  next
    case 3
    then have "?goal []" by simp
    then show ?thesis ..
  qed
qed

section \<open>Shutting down\<close>

text \<open>The worker's and \<open>Stop\<close>'s own steps: no time passes, no configuration arrives, no request ends.\<close>

fun own_step :: "wl_event \<Rightarrow> bool" where
  "own_step (WL_Tick d) = False"
| "own_step (WL_Store c) = False"
| "own_step WL_Wake = False"
| "own_step (WL_DrainEnd j DE_Idle) = False"
| "own_step e = True"

definition own_run :: "duration \<Rightarrow> wloop \<Rightarrow> wloop \<Rightarrow> bool" where
  "own_run q s s' \<longleftrightarrow> (\<exists>es. list_all own_step es \<and> wl_exec q es s = Some s')"

lemma own_run_refl [simp, intro]: "own_run q s s"
  unfolding own_run_def by (rule exI [of _ "[]"]) simp

lemma own_run_trans [trans]: "own_run q a b \<Longrightarrow> own_run q b c \<Longrightarrow> own_run q a c"
  unfolding own_run_def
  by (elim exE conjE, rename_tac es fs, rule_tac x = "es @ fs" in exI) (simp add: run_events_append)

lemma own_runI: "wl_step q e a = Some b \<Longrightarrow> own_step e \<Longrightarrow> own_run q a b"
  unfolding own_run_def by (rule exI [of _ "[e]"]) simp

lemma drain_unwinds:
  assumes "map_of (wl_drains s) j = Some d" and "wl_drainCancelled s"
  shows "own_run q s (s\<lparr>wl_drains := AList.delete j (wl_drains s)\<rparr>)"
proof -
  have parked: "own_run q t (t\<lparr>wl_drains := AList.delete j (wl_drains t)\<rparr>)"
    if "map_of (wl_drains t) j = Some (DR_Parked at)" "wl_drainCancelled t" for t at
    by (rule own_runI [of _ "WL_DrainEnd j DE_Cancelled"]) (use that in \<open>simp_all add: wl_step_def\<close>)
  have armed: "own_run q t (t\<lparr>wl_drains := AList.delete j (wl_drains t)\<rparr>)"
    if "map_of (wl_drains t) j = Some (DR_Timeout l)" "wl_drainCancelled t" for t l
  proof -
    let ?t = "t\<lparr>wl_drains := AList.update j (DR_Parked (wl_now t + l)) (wl_drains t)\<rparr>"
    have "own_run q t ?t" by (rule own_runI [of _ "WL_DrainStep j"]) (use that in \<open>simp_all add: wl_step_def\<close>)
    also have "own_run q ?t (?t\<lparr>wl_drains := AList.delete j (wl_drains ?t)\<rparr>)"
      by (rule parked) (use that in \<open>simp_all add: update_conv\<close>)
    finally show ?thesis by (simp add: AList.delete_update_same)
  qed
  show ?thesis
  proof (cases d)
    case (DR_Budget b)
    let ?t = "s\<lparr>wl_drains := AList.update j (DR_Timeout (clamp (quiesce_of q) (wl_now s) b)) (wl_drains s)\<rparr>"
    have "own_run q s ?t"
      by (rule own_runI [of _ "WL_DrainStep j"]) (use assms DR_Budget in \<open>simp_all add: wl_step_def\<close>)
    also have "own_run q ?t (?t\<lparr>wl_drains := AList.delete j (wl_drains ?t)\<rparr>)"
      by (rule armed) (use assms in \<open>simp_all add: update_conv\<close>)
    finally show ?thesis by (simp add: AList.delete_update_same)
  next
    case (DR_Timeout l)
    with assms show ?thesis by (auto intro: armed)
  next
    case (DR_Parked at)
    with assms show ?thesis by (auto intro: parked)
  qed
qed

lemma drains_unwind: "wl_drainCancelled s \<Longrightarrow> own_run q s (s\<lparr>wl_drains := []\<rparr>)"
proof (induction "length (wl_drains s)" arbitrary: s rule: less_induct)
  case less
  show ?case
  proof (cases "wl_drains s")
    case Nil
    then have "s\<lparr>wl_drains := []\<rparr> = s" by simp
    then show ?thesis by simp
  next
    case (Cons p ds)
    let ?t = "s\<lparr>wl_drains := AList.delete (fst p) (wl_drains s)\<rparr>"
    have "own_run q s ?t" by (rule drain_unwinds [of _ _ "snd p"]) (use Cons less.prems in simp_all)
    also have "own_run q ?t (?t\<lparr>wl_drains := []\<rparr>)"
      by (rule less.hyps) (use Cons less.prems length_delete_le [of "fst p" ds] in simp_all)
    finally show ?thesis by simp
  qed
qed

lemma loop_unwinds:
  assumes "wl_drainCancelled s" and "wl_ctx s" and "stop_ok s"
  shows "\<exists>ds l. own_run q s (s\<lparr>wl_last := l, wl_drains := ds, wl_pc := LP_Done\<rparr>)"
proof -
  have sel: "own_run q t (t\<lparr>wl_pc := LP_Done\<rparr>)" if "selecting (wl_pc t)" "wl_ctx t" for t
    by (rule own_runI [of _ WL_SelectDone]) (use that in \<open>simp_all add: wl_step_def\<close>)
  have head: "own_run q t (t\<lparr>wl_pc := LP_Done\<rparr>)" if "wl_pc t = LP_Head" "wl_ctx t" for t
  proof -
    let ?t = "t\<lparr>wl_pc := LP_Select (wl_now t + interval_of (wl_desired t))\<rparr>"
    have "own_run q t ?t" by (rule own_runI [of _ WL_Interval]) (use that in \<open>simp_all add: wl_step_def\<close>)
    also have "own_run q ?t (?t\<lparr>wl_pc := LP_Done\<rparr>)" by (rule sel) (use that in simp_all)
    finally show ?thesis by simp
  qed
  have working: "own_run q t (t\<lparr>wl_drains := [], wl_pc := LP_Done\<rparr>)"
    if "wl_pc t = LP_Working" "wl_ctx t" "wl_drainCancelled t" for t
  proof -
    let ?t = "t\<lparr>wl_drains := [], wl_pc := LP_Head\<rparr>"
    have "own_run q t (t\<lparr>wl_drains := []\<rparr>)" by (rule drains_unwind) fact
    also have "own_run q (t\<lparr>wl_drains := []\<rparr>) ?t"
      by (rule own_runI [of _ WL_PassEnd]) (use that in \<open>simp_all add: wl_step_def\<close>)
    also have "own_run q ?t (?t\<lparr>wl_pc := LP_Done\<rparr>)" by (rule head) (use that in simp_all)
    finally show ?thesis by simp
  qed
  have same: "\<exists>ds l. t = t\<lparr>wl_drains := ds, wl_last := l\<rparr>" for t
    by (rule exI [of _ "wl_drains t"], rule exI [of _ "wl_last t"]) simp
  show ?thesis
  proof (cases "wl_pc s")
    case LP_Pass
    let ?t = "s\<lparr>wl_pc := LP_Working, wl_last := Some (wl_desired s)\<rparr>"
    have "own_run q s ?t" by (rule own_runI [of _ WL_Read]) (use LP_Pass in \<open>simp_all add: wl_step_def\<close>)
    also have "own_run q ?t (?t\<lparr>wl_drains := [], wl_pc := LP_Done\<rparr>)" by (rule working) (use assms in simp_all)
    finally show ?thesis by (intro exI [of _ "[]"] exI [of _ "Some (wl_desired s)"]) simp
  next
    case LP_Working
    from working [OF this assms(2,1)] show ?thesis
      by (intro exI [of _ "[]"] exI [of _ "wl_last s"]) simp
  next
    case LP_Head
    from head [OF this assms(2)] show ?thesis
      by (intro exI [of _ "wl_drains s"] exI [of _ "wl_last s"]) simp
  next
    case (LP_Select t)
    with sel [of s] assms(2) show ?thesis
      by (intro exI [of _ "wl_drains s"] exI [of _ "wl_last s"]) simp
  next
    case LP_Done
    then have "s\<lparr>wl_last := wl_last s, wl_drains := wl_drains s, wl_pc := LP_Done\<rparr> = s" by simp
    then show ?thesis by (metis own_run_refl)
  qed
qed

text \<open>
  C18. Whatever state the deadline of \<open>Stop\<close> finds the worker in -- a pass about to start, drain waits at
  any stage, however many requests still streaming -- the worker unwinds from there by its own
  steps: no request has to end and no further time has to pass for the loop to return and
  \<open>Stop\<close> with it.
\<close>

theorem unwinds_at_deadline:
  assumes "wl_exec q es (Start_worker now cfg) = Some s" and "wl_stop s = SP_Waiting dl" and "dl \<le> wl_now s"
  shows "\<exists>s'. own_run q s s' \<and> wl_pc s' = LP_Done \<and> wl_stop s' = SP_Returned dl (wl_now s)"
proof -
  from run_ok(2) [OF assms(1)] have ok: "stop_ok s" .
  with assms(2) have ctx: "wl_ctx s" "dl \<in> set (wl_timers s) \<or> wl_drainCancelled s" by (auto simp: stop_ok_def)
  obtain t where t: "own_run q s t" "wl_drainCancelled t" "wl_ctx t" "stop_ok t" "wl_stop t = wl_stop s"
    "wl_now t = wl_now s"
  proof (cases "wl_drainCancelled s")
    case True
    with that [of s] ctx ok show ?thesis by simp
  next
    case False
    let ?t = "s\<lparr>wl_timers := remove1 dl (wl_timers s), wl_drainCancelled := True\<rparr>"
    have step: "wl_step q (WL_Fire dl) s = Some ?t" using False ctx assms(3) by (simp add: wl_step_def)
    from that [of ?t] own_runI [OF step] stop_ok_step [OF step ok] ctx show ?thesis by simp
  qed
  from loop_unwinds [OF t(2-4)] obtain ds l
    where "own_run q t (t\<lparr>wl_last := l, wl_drains := ds, wl_pc := LP_Done\<rparr>)" (is "own_run q t ?u") by blast
  with t(1) have "own_run q s ?u" by (rule own_run_trans)
  also have "own_run q ?u (?u\<lparr>wl_stop := SP_Returned dl (wl_now s)\<rparr>)"
    by (rule own_runI [of _ WL_StopDone]) (use t assms in \<open>simp_all add: wl_step_def\<close>)
  finally show ?thesis by (intro exI [of _ "?u\<lparr>wl_stop := SP_Returned dl (wl_now s)\<rparr>"]) simp
qed

text \<open>A drain wait that was parked before \<open>Stop\<close> and whose own timer is not earlier than the deadline.\<close>

definition grace_spent :: "instant \<Rightarrow> instant \<Rightarrow> nat \<Rightarrow> wloop \<Rightarrow> bool" where
  "grace_spent dl at j s \<longleftrightarrow>
     (if dl \<le> wl_now s then \<forall>d t. wl_stop s = SP_Returned d t \<longrightarrow> dl \<le> t
      else wl_pc s = LP_Working \<and> map_of (wl_drains s) j = Some (DR_Parked at) \<and> \<not> wl_drainCancelled s
        \<and> set (wl_timers s) \<subseteq> {dl} \<and> wl_stop s \<in> {SP_Published dl, SP_Cancelled dl, SP_Waiting dl})"

lemma grace_spent_step:
  assumes "wl_step q e s = Some s'" and "grace_spent dl at j s" and "dl \<le> at" and "e \<noteq> WL_DrainEnd j DE_Idle"
  shows "grace_spent dl at j s'"
proof (cases e)
  case (WL_DrainEnd i w)
  with assms show ?thesis
    by (cases w) (auto simp: wl_step_def grace_spent_def delete_conv split: wl_splits)
next
  case (WL_DrainStep i)
  with assms show ?thesis
    by (auto simp: wl_step_def grace_spent_def update_conv' split: wl_splits)
qed (use assms in \<open>auto simp: wl_step_def grace_spent_def Wake_def update_conv' dest: notin_set_remove1 split: wl_splits\<close>)

text \<open>
  C36. \<open>main\<close>'s shutdown stops the worker and drains the HTTP server inside one budget. When a drain wait
  parked before the shutdown is bound to outlast that budget and its request does not end,
  \<open>Stop\<close> cannot return before the deadline, whatever else happens: the HTTP drain that follows
  starts on an expired context.
\<close>

theorem parked_drain_takes_grace:
  assumes "wl_exec q es (Start_worker now cfg) = Some s" and "wl_stop s = SP_No"
    and "map_of (wl_drains s) j = Some (DR_Parked at)" and "dl \<le> at"
    and "wl_exec q (WL_Stop dl # fs) s = Some s'" and "WL_DrainEnd j DE_Idle \<notin> set fs"
    and "wl_stop s' = SP_Returned d t"
  shows "dl \<le> t"
proof -
  have ok: "stop_ok s" by (rule run_ok [OF assms(1)])
  with assms(2) have fresh: "wl_timers s = []" "\<not> wl_drainCancelled s" by (auto simp: stop_ok_def)
  have "wl_pc s = LP_Working" using ok assms(3) by (auto simp: stop_ok_def)
  with fresh assms(2,3) have "grace_spent dl at j (s\<lparr>wl_budget := Some dl, wl_stop := SP_Published dl\<rparr>)"
    by (simp add: grace_spent_def)
  moreover have "wl_exec q fs (s\<lparr>wl_budget := Some dl, wl_stop := SP_Published dl\<rparr>) = Some s'"
    using assms(2,5) by (simp add: wl_step_def)
  ultimately have "grace_spent dl at j s'"
    using run_events_inv [where I = "grace_spent dl at j"] grace_spent_step [OF _ _ assms(4)] assms(6) by metis
  with assms(7) show ?thesis by (auto simp: grace_spent_def split: if_splits)
qed

section \<open>Runs that exist\<close>

text \<open>A pass at start opens one drain wait, under the default timeout, and 5 seconds go by.\<close>

definition w_parked_run :: "wl_event list" where
  "w_parked_run = [WL_Read, WL_DrainBegin 0, WL_DrainStep 0, WL_DrainStep 0, WL_Tick (5 * second)]"

text \<open>A shutdown with the default grace of 20 seconds; the request never ends.\<close>

definition w_shutdown_run :: "wl_event list" where
  "w_shutdown_run = [WL_Cancel, WL_AfterFunc, WL_Tick (20 * second)]"

lemma w_parked_state:
  "wl_exec 0 w_parked_run (Start_worker 0 None) = Some ((Start_worker 0 None)\<lparr>wl_now := 5 * second, wl_pc := LP_Working,
     wl_last := Some None, wl_drains := [(0, DR_Parked (30 * second))]\<rparr>)"
  by (simp add: w_parked_run_def Start_worker_def wl_step_def quiesce_of_def DefaultQuiesceTimeout_def clamp_def
      second_def)

lemma w_shutdown_state:
  "wl_exec 0 (w_parked_run @ WL_Stop (25 * second) # w_shutdown_run) (Start_worker 0 None) =
     Some ((Start_worker 0 None)\<lparr>wl_now := 25 * second, wl_pc := LP_Working, wl_last := Some None,
       wl_drains := [(0, DR_Parked (30 * second))], wl_ctx := True, wl_budget := Some (25 * second),
       wl_timers := [25 * second], wl_stop := SP_Waiting (25 * second)\<rparr>)"
  unfolding run_events_append w_parked_state by (simp add: w_shutdown_run_def Start_worker_def wl_step_def second_def)

lemma no_wake_lost_witness:
  "\<exists>s es' s'. wl_exec 0 [WL_Read, WL_Store \<lparr>cf_relays = [], cf_settings = defaultSettings\<rparr>, WL_PassEnd, WL_Interval]
       (Start_worker 0 None) = Some s \<and> wl_last s = Some None \<and> wl_exec 0 es' s = Some s'
     \<and> wl_last s' = Some (Some \<lparr>cf_relays = [], cf_settings = defaultSettings\<rparr>)"
proof -
  let ?c = "\<lparr>cf_relays = [], cf_settings = defaultSettings\<rparr> :: config"
  let ?s = "(Start_worker 0 None)\<lparr>wl_desired := Some ?c, wl_owed := True, wl_pc := LP_Select (60 * second), wl_last := Some None\<rparr>"
  have r: "wl_exec 0 [WL_Read, WL_Store ?c, WL_PassEnd, WL_Interval] (Start_worker 0 None) = Some ?s"
    by (simp add: Start_worker_def wl_step_def interval_of_def defaultSettings_def second_def)
  have "selecting (wl_pc ?s)" "wl_desired ?s = Some ?c" "wl_last ?s = Some None" by simp_all
  with r no_wake_lost [OF r] show ?thesis by metis
qed

lemma unwinds_at_deadline_witness:
  "\<exists>s s'. wl_exec 0 (w_parked_run @ WL_Stop (25 * second) # w_shutdown_run) (Start_worker 0 None) = Some s
     \<and> wl_drains s = [(0, DR_Parked (30 * second))] \<and> own_run 0 s s' \<and> wl_pc s' = LP_Done"
  using unwinds_at_deadline [OF w_shutdown_state, of "25 * second"] w_shutdown_state by (auto simp: Start_worker_def)

lemma parked_drain_takes_grace_witness:
  "\<exists>s' t. wl_exec 0 (WL_Stop (25 * second) # w_shutdown_run @ [WL_StopBudget])
       (the (wl_exec 0 w_parked_run (Start_worker 0 None))) = Some s'
     \<and> wl_stop s' = SP_Returned (25 * second) t \<and> 25 * second \<le> t"
proof -
  let ?p = "(Start_worker 0 None)\<lparr>wl_now := 5 * second, wl_pc := LP_Working,
     wl_last := Some None, wl_drains := [(0, DR_Parked (30 * second))]\<rparr>"
  let ?r = "?p\<lparr>wl_now := 25 * second, wl_ctx := True, wl_budget := Some (25 * second),
     wl_timers := [25 * second], wl_stop := SP_Returned (25 * second) (25 * second)\<rparr>"
  have r: "wl_exec 0 (WL_Stop (25 * second) # w_shutdown_run @ [WL_StopBudget]) ?p = Some ?r"
    by (simp add: w_shutdown_run_def Start_worker_def wl_step_def second_def)
  have "25 * second \<le> 25 * second"
    by (rule parked_drain_takes_grace [OF w_parked_state _ _ _ r, of 0 "30 * second" "25 * second"])
       (simp_all add: Start_worker_def w_shutdown_run_def second_def)
  then show ?thesis unfolding w_parked_state option.sel r by (intro exI [of _ ?r] exI [of _ "25 * second"]) simp
qed

end
