(* ===== verification/Fan_Out.thy ===== *)
theory Fan_Out
  imports Prelude Runs
begin

text \<open>
  The bounded fan-out a pass uses for verifications and deletes (\<open>run\<close> of
  \<open>internal/reconcile/reconcile.go\<close>): the calling goroutine, the semaphore channel, the
  wait group and one goroutine per index. An event is one atomic step of one goroutine; when the
  call on an index returns is the environment's.
\<close>

section \<open>State\<close>

definition verifyParallelism :: nat where "verifyParallelism = 4"
definition deleteParallelism :: nat where "deleteParallelism = 2"

text \<open>The caller: at the loop head, after \<open>wg.Add\<close>, holding a slot for the goroutine it is about to
  start, in \<open>wg.Wait\<close>, returned.\<close>

datatype fan_pc = FM_Loop | FM_Added | FM_Spawn | FM_Wait | FM_Done

text \<open>One index: not started, started, in the call, call returned, slot given back, gone.\<close>

datatype go_pc = G_None | G_Ready | G_Called | G_Returned | G_Released | G_Gone

record fan =
  fn_pc :: fan_pc
  fn_next :: nat
  fn_sem :: nat
  fn_wg :: nat
  fn_go :: "nat \<Rightarrow> go_pc"
  fn_calls :: "nat list"

text \<open>\<open>fn_calls\<close> is not in the code: the indices called so far, latest first.\<close>

definition run_start :: "nat \<Rightarrow> fan" where
  "run_start n = \<lparr>fn_pc = (if n = 0 then FM_Done else FM_Loop), fn_next = 0, fn_sem = 0, fn_wg = 0,
     fn_go = (\<lambda>_. G_None), fn_calls = []\<rparr>"

datatype fan_event = F_Add | F_Acquire | F_Go | F_Exit | F_Wait
  | F_Call nat | F_Return nat | F_Release nat | F_Done nat

definition moved :: "nat \<Rightarrow> go_pc \<Rightarrow> go_pc \<Rightarrow> fan \<Rightarrow> fan option" where
  "moved i a b s = (if fn_go s i = a then Some (s\<lparr>fn_go := (fn_go s)(i := b)\<rparr>) else None)"

fun run_step :: "nat \<Rightarrow> nat \<Rightarrow> fan_event \<Rightarrow> fan \<Rightarrow> fan option" where
  "run_step width n F_Add s =
     (if fn_pc s = FM_Loop \<and> fn_next s < n then Some (s\<lparr>fn_pc := FM_Added, fn_wg := fn_wg s + 1\<rparr>) else None)"
| "run_step width n F_Acquire s =
     (if fn_pc s = FM_Added \<and> fn_sem s < width then Some (s\<lparr>fn_pc := FM_Spawn, fn_sem := fn_sem s + 1\<rparr>) else None)"
| "run_step width n F_Go s =
     (if fn_pc s = FM_Spawn
      then Some (s\<lparr>fn_go := (fn_go s)(fn_next s := G_Ready), fn_next := fn_next s + 1, fn_pc := FM_Loop\<rparr>)
      else None)"
| "run_step width n F_Exit s =
     (if fn_pc s = FM_Loop \<and> fn_next s = n then Some (s\<lparr>fn_pc := FM_Wait\<rparr>) else None)"
| "run_step width n F_Wait s =
     (if fn_pc s = FM_Wait \<and> fn_wg s = 0 then Some (s\<lparr>fn_pc := FM_Done\<rparr>) else None)"
| "run_step width n (F_Call i) s =
     map_option (\<lambda>s'. s'\<lparr>fn_calls := i # fn_calls s\<rparr>) (moved i G_Ready G_Called s)"
| "run_step width n (F_Return i) s = moved i G_Called G_Returned s"
| "run_step width n (F_Release i) s =
     (if fn_sem s = 0 then None
      else map_option (\<lambda>s'. s'\<lparr>fn_sem := fn_sem s - 1\<rparr>) (moved i G_Returned G_Released s))"
| "run_step width n (F_Done i) s =
     map_option (\<lambda>s'. s'\<lparr>fn_wg := fn_wg s - 1\<rparr>) (moved i G_Released G_Gone s)"

abbreviation run_exec :: "nat \<Rightarrow> nat \<Rightarrow> fan_event list \<Rightarrow> fan \<Rightarrow> fan option" where
  "run_exec width n \<equiv> run_events (run_step width n)"

section \<open>Counting goroutines\<close>

definition tally :: "(go_pc \<Rightarrow> nat) \<Rightarrow> nat \<Rightarrow> fan \<Rightarrow> nat" where
  "tally f n s = (\<Sum>i<n. f (fn_go s i))"

lemma tally_frame [simp]:
  "tally f n (s\<lparr>fn_pc := p\<rparr>) = tally f n s"
  "tally f n (s\<lparr>fn_next := k\<rparr>) = tally f n s"
  "tally f n (s\<lparr>fn_sem := k\<rparr>) = tally f n s"
  "tally f n (s\<lparr>fn_wg := k\<rparr>) = tally f n s"
  "tally f n (s\<lparr>fn_calls := c\<rparr>) = tally f n s"
  by (simp_all add: tally_def)

lemma tally_move:
  assumes "i < n" and "fn_go s i = a"
  shows "tally f n (s\<lparr>fn_go := (fn_go s)(i := b)\<rparr>) + f a = tally f n s + f b"
proof -
  have "(\<Sum>j\<in>{..<n} - {i}. f (((fn_go s)(i := b)) j)) = (\<Sum>j\<in>{..<n} - {i}. f (fn_go s j))"
    by (rule sum.cong) auto
  with assms show ?thesis
    by (simp add: tally_def sum.remove [of "{..<n}" i])
qed

fun holds_slot :: "go_pc \<Rightarrow> nat" where
  "holds_slot G_Ready = 1" | "holds_slot G_Called = 1" | "holds_slot G_Returned = 1" | "holds_slot _ = 0"

fun awaited :: "go_pc \<Rightarrow> nat" where
  "awaited G_None = 0" | "awaited G_Gone = 0" | "awaited _ = 1"

fun steps_left :: "go_pc \<Rightarrow> nat" where
  "steps_left G_Ready = 4" | "steps_left G_Called = 3" | "steps_left G_Returned = 2"
| "steps_left G_Released = 1" | "steps_left _ = 0"

fun pc_left :: "nat \<Rightarrow> fan_pc \<Rightarrow> nat" where
  "pc_left k FM_Loop = 7 * k + 2" | "pc_left k FM_Added = 7 * k + 1" | "pc_left k FM_Spawn = 7 * k"
| "pc_left k FM_Wait = 1" | "pc_left k FM_Done = 0"

definition left :: "nat \<Rightarrow> fan \<Rightarrow> nat" where
  "left n s = pc_left (n - fn_next s) (fn_pc s) + tally steps_left n s"

definition calls_ok :: "nat \<Rightarrow> (nat \<Rightarrow> go_pc) \<Rightarrow> nat list \<Rightarrow> bool" where
  "calls_ok k go calls \<longleftrightarrow>
     (\<forall>i. go i = G_None \<longleftrightarrow> k \<le> i) \<and> distinct calls \<and> (\<forall>i. i \<in> set calls \<longleftrightarrow> go i \<noteq> G_None \<and> go i \<noteq> G_Ready)"

lemma calls_okI:
  assumes "\<And>i. go i = G_None \<longleftrightarrow> k \<le> i" and "distinct calls"
    and "\<And>i. i \<in> set calls \<longleftrightarrow> go i \<noteq> G_None \<and> go i \<noteq> G_Ready"
  shows "calls_ok k go calls"
  unfolding calls_ok_def using assms by blast

lemma calls_okD:
  assumes "calls_ok k go calls"
  shows "go i = G_None \<longleftrightarrow> k \<le> i" and "distinct calls" and "i \<in> set calls \<longleftrightarrow> \<not> k \<le> i \<and> go i \<noteq> G_Ready"
  using assms unfolding calls_ok_def by blast+

lemma calls_ok_start: "calls_ok k go calls \<Longrightarrow> calls_ok (Suc k) (go(k := G_Ready)) calls"
  by (rule calls_okI) (auto simp: calls_okD)

lemma calls_ok_call:
  assumes "calls_ok k go calls" and "go i = G_Ready"
  shows "calls_ok k (go(i := G_Called)) (i # calls)"
proof (rule calls_okI)
  have "\<not> k \<le> i" using calls_okD(1) [OF assms(1), of i] assms(2) by simp
  then show "(go(i := G_Called)) j = G_None \<longleftrightarrow> k \<le> j"
    and "j \<in> set (i # calls) \<longleftrightarrow> (go(i := G_Called)) j \<noteq> G_None \<and> (go(i := G_Called)) j \<noteq> G_Ready" for j
    by (simp_all add: calls_okD [OF assms(1)])
  show "distinct (i # calls)" using assms(2) by (simp add: calls_okD [OF assms(1)])
qed

lemma calls_ok_move:
  assumes "calls_ok k go calls" and "go i \<noteq> G_None" and "go i \<noteq> G_Ready" and "b \<noteq> G_None" and "b \<noteq> G_Ready"
  shows "calls_ok k (go(i := b)) calls"
proof (rule calls_okI)
  have "\<not> k \<le> i" using calls_okD(1) [OF assms(1), of i] assms(2) by simp
  with assms show "(go(i := b)) j = G_None \<longleftrightarrow> k \<le> j"
    and "j \<in> set calls \<longleftrightarrow> (go(i := b)) j \<noteq> G_None \<and> (go(i := b)) j \<noteq> G_Ready" for j
    by (simp_all add: calls_okD [OF assms(1)])
  show "distinct calls" by (rule calls_okD [OF assms(1)])
qed

definition fan_ok :: "nat \<Rightarrow> nat \<Rightarrow> fan \<Rightarrow> bool" where
  "fan_ok width n s \<longleftrightarrow>
     fn_sem s = tally holds_slot n s + of_bool (fn_pc s = FM_Spawn)
     \<and> fn_sem s \<le> width
     \<and> fn_wg s = tally awaited n s + of_bool (fn_pc s \<in> {FM_Added, FM_Spawn})
     \<and> fn_next s \<le> n
     \<and> (fn_pc s \<in> {FM_Added, FM_Spawn} \<longrightarrow> fn_next s < n)
     \<and> (fn_pc s \<in> {FM_Wait, FM_Done} \<longrightarrow> fn_next s = n)
     \<and> (fn_pc s = FM_Done \<longrightarrow> fn_wg s = 0)
     \<and> calls_ok (fn_next s) (fn_go s) (fn_calls s)"

lemma fan_ok_start: "fan_ok width n (run_start n)"
  by (simp add: fan_ok_def run_start_def tally_def calls_ok_def)

lemma goroutine_bound: "fan_ok width n s \<Longrightarrow> fn_go s i \<noteq> G_None \<Longrightarrow> i < n"
  unfolding fan_ok_def calls_ok_def by (meson leI le_trans)

lemma moved_tallies:
  assumes "moved i a b s = Some s'" and "fan_ok width n s" and "a \<noteq> G_None"
  shows "i < n" and "fn_go s i = a" and "s' = s\<lparr>fn_go := (fn_go s)(i := b)\<rparr>"
    and "tally f n (s\<lparr>fn_go := (fn_go s)(i := b)\<rparr>) + f a = tally f n s + f b"
proof -
  from assms show i: "fn_go s i = a" "s' = s\<lparr>fn_go := (fn_go s)(i := b)\<rparr>"
    by (auto simp: moved_def split: if_splits)
  show "i < n" using goroutine_bound [OF assms(2)] assms(3) i(1) by simp
  then show "tally f n (s\<lparr>fn_go := (fn_go s)(i := b)\<rparr>) + f a = tally f n s + f b" using i(1) by (rule tally_move)
qed

text \<open>A goroutine's own step: the counts of a state equal to \<open>s\<close> but for the moved goroutine and its channel
  operation.\<close>

lemma fan_ok_move:
  assumes "moved i a b s = Some m" and "fan_ok width n s" and "a \<noteq> G_None" and "b \<noteq> G_None" and "b \<noteq> G_Ready"
    and "k + holds_slot a = fn_sem s + holds_slot b" and "w + awaited a = fn_wg s + awaited b"
    and "k \<le> width" and "calls = (if a = G_Ready then i # fn_calls s else fn_calls s)"
    and "steps_left a = Suc (steps_left b)" and "w = 0 \<or> fn_pc s \<noteq> FM_Done"
    and "s' = m\<lparr>fn_sem := k, fn_wg := w, fn_calls := calls\<rparr>"
  shows "fan_ok width n s' \<and> left n s = Suc (left n s')"
proof -
  note t = moved_tallies [OF assms(1-3)]
  have go: "fn_go s' = (fn_go s)(i := b)" "fn_pc s' = fn_pc s" "fn_next s' = fn_next s" "fn_sem s' = k"
    "fn_wg s' = w" "fn_calls s' = calls" "tally f n s' + f a = tally f n s + f b" for f
    using t(3) t(4) [of f] assms(12) by simp_all
  have c: "calls_ok (fn_next s) (fn_go s) (fn_calls s)" using assms(2) by (simp add: fan_ok_def)
  have "calls_ok (fn_next s') (fn_go s') (fn_calls s')"
  proof (cases "a = G_Ready")
    case True
    with assms(4,5,9) calls_ok_call [OF c, of i] calls_ok_move [OF calls_ok_call [OF c, of i], of i b] t(2)
    show ?thesis by (simp add: go)
  next
    case False
    with assms(3-5,9) calls_ok_move [OF c, of i b] t(2) show ?thesis by (simp add: go)
  qed
  then have "fan_ok width n s'"
    using assms(2,6-8,11) go(7) [of holds_slot] go(7) [of awaited] unfolding fan_ok_def go(1-6) by auto
  moreover have "left n s = Suc (left n s')" using go(7) [of steps_left] assms(10) by (simp add: left_def go)
  ultimately show ?thesis ..
qed

lemma fan_step:
  assumes "run_step width n e s = Some s'" and "fan_ok width n s"
  shows "fan_ok width n s' \<and> left n s = Suc (left n s')"
proof (cases e)
  case F_Go
  with assms have i: "fn_next s < n" "fn_go s (fn_next s) = G_None" by (auto simp: fan_ok_def calls_ok_def split: if_splits)
  from F_Go assms i tally_move [OF i, of holds_slot G_Ready] tally_move [OF i, of awaited G_Ready]
    tally_move [OF i, of steps_left G_Ready] show ?thesis
    by (auto simp: fan_ok_def left_def intro: calls_ok_start split: if_splits)
next
  case (F_Call i)
  with assms(1) obtain m where "moved i G_Ready G_Called s = Some m" "s' = m\<lparr>fn_calls := i # fn_calls s\<rparr>" by auto
  with assms(2) show ?thesis
    by (intro fan_ok_move [where i = i and a = G_Ready and b = G_Called and k = "fn_sem s" and w = "fn_wg s"])
       (auto simp: fan_ok_def moved_def split: if_splits)
next
  case (F_Return i)
  with assms show ?thesis
    by (intro fan_ok_move [where i = i and a = G_Called and b = G_Returned and k = "fn_sem s" and w = "fn_wg s"])
       (auto simp: fan_ok_def moved_def split: if_splits)
next
  case (F_Release i)
  with assms(1) obtain m where "moved i G_Returned G_Released s = Some m" "fn_sem s \<noteq> 0"
      "s' = m\<lparr>fn_sem := fn_sem s - 1\<rparr>" by (auto split: if_splits)
  with assms(2) show ?thesis
    by (intro fan_ok_move [where i = i and a = G_Returned and b = G_Released and k = "fn_sem s - 1" and w = "fn_wg s"])
       (auto simp: fan_ok_def moved_def split: if_splits)
next
  case (F_Done i)
  with assms(1) obtain m where m: "moved i G_Released G_Gone s = Some m" "s' = m\<lparr>fn_wg := fn_wg s - 1\<rparr>" by auto
  have "awaited (fn_go s i) \<le> tally awaited n s"
    using moved_tallies(1) [OF m(1) assms(2)] unfolding tally_def by (intro member_le_sum) auto
  with m assms(2) show ?thesis
    by (intro fan_ok_move [where i = i and a = G_Released and b = G_Gone and k = "fn_sem s" and w = "fn_wg s - 1"])
       (auto simp: fan_ok_def moved_def split: if_splits)
qed (use assms in \<open>auto simp: fan_ok_def left_def split: if_splits\<close>)

section \<open>What run guarantees\<close>

lemma fan_run:
  assumes "run_exec width n es s = Some s'" and "fan_ok width n s"
  shows "fan_ok width n s' \<and> left n s = length es + left n s'"
  by (rule run_events_measure [where I = "fan_ok width n" and f = "left n", OF assms]) (rule fan_step)

definition in_call :: "nat \<Rightarrow> fan \<Rightarrow> nat" where
  "in_call n s = tally (\<lambda>g. of_bool (g = G_Called)) n s"

lemma in_call_bound: "fan_ok width n s \<Longrightarrow> in_call n s \<le> width"
proof -
  assume "fan_ok width n s"
  then have "tally holds_slot n s \<le> width" by (simp add: fan_ok_def)
  moreover have "in_call n s \<le> tally holds_slot n s"
    unfolding in_call_def tally_def by (rule sum_mono) (rename_tac i, case_tac "fn_go s i", simp_all)
  ultimately show ?thesis by simp
qed

lemma fan_returned:
  assumes "fan_ok width n s" and "fn_pc s = FM_Done"
  shows "set (fn_calls s) = {..<n} \<and> (\<forall>i<n. fn_go s i = G_Gone)"
proof -
  from assms have zero: "tally awaited n s = 0" and k: "fn_next s = n" by (auto simp: fan_ok_def)
  have "fn_go s i = G_Gone" if "i < n" for i
  proof -
    have "awaited (fn_go s i) = 0" using zero that by (simp add: tally_def)
    moreover have "fn_go s i \<noteq> G_None" using assms(1) k that by (auto simp: fan_ok_def calls_ok_def)
    ultimately show ?thesis by (cases "fn_go s i") auto
  qed
  moreover from this assms k have "set (fn_calls s) = {..<n}"
    unfolding fan_ok_def calls_ok_def by (auto simp: not_le)
  ultimately show ?thesis by simp
qed

lemma fan_progress:
  assumes "fan_ok width n s" and "0 < width" and "fn_pc s \<noteq> FM_Done"
  shows "\<exists>e. run_step width n e s \<noteq> None"
proof (cases "\<exists>i. fn_go s i \<in> {G_Ready, G_Called, G_Returned, G_Released}")
  case True
  then obtain i where i: "fn_go s i \<in> {G_Ready, G_Called, G_Returned, G_Released}" ..
  have "fn_sem s \<noteq> 0" if "fn_go s i = G_Returned"
  proof -
    have "i < n" using goroutine_bound [OF assms(1)] that by simp
    then have "holds_slot (fn_go s i) \<le> tally holds_slot n s"
      unfolding tally_def by (intro member_le_sum) auto
    with that assms(1) show ?thesis by (simp add: fan_ok_def)
  qed
  with i have "run_step width n (F_Call i) s \<noteq> None \<or> run_step width n (F_Return i) s \<noteq> None
      \<or> run_step width n (F_Release i) s \<noteq> None \<or> run_step width n (F_Done i) s \<noteq> None"
    by (auto simp: moved_def)
  then show ?thesis by blast
next
  case False
  then have g: "fn_go s i = G_None \<or> fn_go s i = G_Gone" for i by (cases "fn_go s i") auto
  have "holds_slot (fn_go s i) = 0" "awaited (fn_go s i) = 0" for i using g [of i] by auto
  then have "tally holds_slot n s = 0" "tally awaited n s = 0" by (simp_all add: tally_def)
  with assms have "run_step width n F_Add s \<noteq> None \<or> run_step width n F_Acquire s \<noteq> None
      \<or> run_step width n F_Go s \<noteq> None \<or> run_step width n F_Exit s \<noteq> None \<or> run_step width n F_Wait s \<noteq> None"
    by (cases "fn_pc s") (auto simp: fan_ok_def)
  then show ?thesis by blast
qed

text \<open>
  C19. In every interleaving of \<open>run\<close> at most \<open>width\<close> calls are in flight and no index is called
  twice; some goroutine can always move until \<open>run\<close> has returned, every interleaving ends within
  seven steps per index and two, and when \<open>run\<close> returns every index below \<open>n\<close> has been called
  exactly once and its call has returned.
\<close>

theorem run_exact:
  assumes "0 < width" and "run_exec width n es (run_start n) = Some s"
  shows "in_call n s \<le> width \<and> distinct (fn_calls s) \<and> length es \<le> 7 * n + 2
     \<and> (if fn_pc s = FM_Done then set (fn_calls s) = {..<n} \<and> (\<forall>i<n. fn_go s i = G_Gone)
        else \<exists>e. run_step width n e s \<noteq> None)"
proof -
  have "left n (run_start n) \<le> 7 * n + 2" by (simp add: left_def run_start_def tally_def)
  with fan_run [OF assms(2) fan_ok_start] have s: "fan_ok width n s" "length es \<le> 7 * n + 2" by simp_all
  then have "distinct (fn_calls s)" by (simp add: fan_ok_def calls_ok_def)
  with s fan_progress [OF s(1) assms(1)] in_call_bound [OF s(1)] fan_returned [OF s(1)] show ?thesis by simp
qed

text \<open>Two deletes and a third that waits for a slot.\<close>

definition w_fan_run :: "fan_event list" where
  "w_fan_run = [F_Add, F_Acquire, F_Go, F_Add, F_Acquire, F_Go, F_Call 1, F_Add, F_Call 0, F_Return 1, F_Release 1,
     F_Acquire, F_Go, F_Exit, F_Call 2, F_Return 2, F_Release 2, F_Done 2, F_Done 1, F_Return 0, F_Release 0, F_Done 0,
     F_Wait]"

lemma run_exact_witness:
  "\<exists>s. run_exec deleteParallelism 3 w_fan_run (run_start 3) = Some s \<and> set (fn_calls s) = {..<3}"
proof -
  obtain s where s: "run_exec deleteParallelism 3 w_fan_run (run_start 3) = Some s" "fn_pc s = FM_Done"
    by (simp add: w_fan_run_def run_start_def deleteParallelism_def moved_def)
  with run_exact [OF _ s(1)] show ?thesis by (simp add: deleteParallelism_def)
qed

end
