(* ===== verification/Response_Copy.thy ===== *)
theory Response_Copy
  imports Gateway_Evidence "HOL-Library.Sublist"
begin

text \<open>
  How a relay's answer reaches the client: \<open>copyResponse\<close> and \<open>flushWriter\<close> of
  \<open>internal/gateway/gateway.go\<close>, over the loop of \<open>io.Copy\<close>. What the body's \<open>Read\<close> and the
  client's \<open>Write\<close> return, call by call, are inputs; the result is the \<open>ra_body\<close> and the
  \<open>ra_copyErr\<close> the pipeline of \<^theory_text>\<open>Gateway\<close> classifies.
\<close>

section \<open>The copy\<close>

text \<open>A \<open>Read\<close>: the bytes, and whether the stream ended or broke with them.\<close>

datatype read_end = EOF | Broken string

type_synonym read_result = "string \<times> read_end option"
type_synonym write_result = "nat \<times> string option"

text \<open>The client's side: the bytes it took and how many of them were flushed.\<close>

record sink =
  sk_sent :: string
  sk_flushed :: nat

definition flushWriter :: "bool \<Rightarrow> string \<Rightarrow> write_result \<Rightarrow> sink \<Rightarrow> sink" where
  "flushWriter flusher p r k =
     (let sent = sk_sent k @ take (fst r) p
      in \<lparr>sk_sent = sent, sk_flushed = (if flusher then length sent else sk_flushed k)\<rparr>)"

text \<open>What \<open>io.Copy\<close> makes of one \<open>Write\<close>: the error that ends it.\<close>

definition write_error :: "string \<Rightarrow> write_result \<Rightarrow> string option" where
  "write_error p r =
     (if length p < fst r
      then (case snd r of None \<Rightarrow> Some ''invalid write result'' | Some e \<Rightarrow> Some e)
      else (case snd r of
              Some e \<Rightarrow> Some e
            | None \<Rightarrow> if fst r \<noteq> length p then Some ''short write'' else None))"

text \<open>\<open>None\<close>: the inputs end before the copy does.\<close>

fun io_copy :: "bool \<Rightarrow> read_result list \<Rightarrow> write_result list \<Rightarrow> sink \<Rightarrow> (string option \<times> sink) option" where
  "io_copy flusher [] ws k = None"
| "io_copy flusher ((p, e) # rs) ws k =
     (if p = []
      then (case e of
              None \<Rightarrow> io_copy flusher rs ws k
            | Some EOF \<Rightarrow> Some (None, k)
            | Some (Broken m) \<Rightarrow> Some (Some m, k))
      else (case ws of
              [] \<Rightarrow> None
            | w # ws' \<Rightarrow>
                (let k' = flushWriter flusher p w k
                 in case write_error p w of
                      Some m \<Rightarrow> Some (Some m, k')
                    | None \<Rightarrow>
                        (case e of
                           None \<Rightarrow> io_copy flusher rs ws' k'
                         | Some EOF \<Rightarrow> Some (None, k')
                         | Some (Broken m) \<Rightarrow> Some (Some m, k')))))"

definition copyResponse ::
    "bool \<Rightarrow> int \<Rightarrow> header \<Rightarrow> read_result list \<Rightarrow> write_result list \<Rightarrow> bool \<Rightarrow> (reply \<times> response) option" where
  "copyResponse flusher status h rs ws ctxDead =
     map_option (\<lambda>(err, k).
         (Rp_Response status (copyResponseHeader [] h) (sk_sent k),
          \<lparr>ra_status = status, ra_header = h, ra_body = sk_sent k, ra_copyErr = err, ra_ctxDead = ctxDead\<rparr>))
       (io_copy flusher rs ws \<lparr>sk_sent = [], sk_flushed = 0\<rparr>)"

section \<open>What it delivers\<close>

text \<open>What the relay sent up to the end or the break, and how it ended.\<close>

fun upstream :: "read_result list \<Rightarrow> (string \<times> string option) option" where
  "upstream [] = None"
| "upstream ((p, None) # rs) = map_option (\<lambda>(b, e). (p @ b, e)) (upstream rs)"
| "upstream ((p, Some EOF) # rs) = Some (p, None)"
| "upstream ((p, Some (Broken m)) # rs) = Some (p, Some m)"

lemma write_error_None [simp]: "write_error p w = None \<longleftrightarrow> w = (length p, None)"
  by (cases w) (auto simp: write_error_def split: option.splits if_splits)

lemma write_error_full [simp]: "write_error p (length p, None) = None"
  by simp

lemma flushWriter_full [simp]: "sk_sent (flushWriter f p (length p, None) k) = sk_sent k @ p"
  by (simp add: flushWriter_def Let_def)

lemma flushWriter_flushed: "sk_flushed (flushWriter True p w k) = length (sk_sent (flushWriter True p w k))"
  by (simp add: flushWriter_def Let_def)

lemma io_copy_prefix:
  assumes "io_copy flusher rs ws k = Some (err, k')" and "upstream rs = Some (b, e)"
  shows "\<exists>d. prefix d b \<and> sk_sent k' = sk_sent k @ d \<and> (err = None \<longrightarrow> d = b \<and> e = None)"
  using assms
proof (induction rs arbitrary: ws k b)
  case (Cons x rs)
  obtain p n where x: "x = (p, n)" by (cases x)
  show ?case
  proof (cases "p = []")
    case True
    with Cons x show ?thesis by (cases n rule: option.exhaust) (auto split: read_end.splits)
  next
    case False
    with Cons.prems(1) x obtain w ws' where ws: "ws = w # ws'" by (cases ws) auto
    let ?k = "flushWriter flusher p w k"
    have sent: "sk_sent ?k = sk_sent k @ take (fst w) p" by (simp add: flushWriter_def Let_def)
    show ?thesis
    proof (cases "write_error p w")
      case (Some m)
      with Cons.prems False x ws have "err = Some m" "k' = ?k" by (auto simp: Let_def)
      moreover have "prefix p b" using Cons.prems(2) x by (cases n rule: option.exhaust) (auto elim: upstream.elims)
      then have "prefix (take (fst w) p) b" using take_is_prefix prefix_order.trans by blast
      ultimately show ?thesis using sent by blast
    next
      case None
      then have w: "sk_sent ?k = sk_sent k @ p" using sent by simp
      show ?thesis
      proof (cases n)
        case None
        with Cons.prems(2) x obtain b' where b: "upstream rs = Some (b', e)" "b = p @ b'" by auto
        have "io_copy flusher rs ws' ?k = Some (err, k')"
          using Cons.prems(1) \<open>write_error p w = None\<close> False x ws None by (simp add: Let_def)
        from Cons.IH [OF this b(1)] w b(2) show ?thesis by auto
      next
        case (Some r)
        with Cons.prems \<open>write_error p w = None\<close> False x ws w show ?thesis
          by (cases r) (auto simp: Let_def)
      qed
    qed
  qed
qed simp

lemma io_copy_flushed:
  assumes "io_copy True rs ws k = Some (err, k')" and "sk_flushed k = length (sk_sent k)"
  shows "sk_flushed k' = length (sk_sent k')"
  using assms
  by (induction True rs ws k rule: io_copy.induct)
     (auto simp: Let_def flushWriter_flushed split: if_splits list.splits option.splits read_end.splits)

text \<open>The writes of a client that takes everything.\<close>

definition taken_whole :: "read_result list \<Rightarrow> write_result list" where
  "taken_whole rs = map (\<lambda>r. (length (fst r), None)) (filter (\<lambda>r. fst r \<noteq> []) rs)"

lemma io_copy_whole:
  assumes "upstream rs = Some (b, e)"
  shows "\<exists>k'. io_copy flusher rs (taken_whole rs) k = Some (e, k') \<and> sk_sent k' = sk_sent k @ b"
  using assms
proof (induction rs arbitrary: k b)
  case (Cons x rs)
  obtain p n where x: "x = (p, n)" by (cases x)
  show ?case
  proof (cases n)
    case None
    with Cons.prems x obtain b' where b: "upstream rs = Some (b', e)" "b = p @ b'" by auto
    from Cons.IH [OF b(1), of k] Cons.IH [OF b(1), of "flushWriter flusher p (length p, None) k"] b(2) x None
    show ?thesis by (auto simp: taken_whole_def Let_def)
  next
    case (Some r)
    with Cons.prems x show ?thesis by (cases r) (auto simp: taken_whole_def Let_def)
  qed
qed simp

text \<open>
  C31. However the relay's body arrives and however the client's connection takes it, what the client
  has is a prefix of what the relay sent, flushed to the last byte where the writer can flush, and
  the copy reports no error only when the relay's body ended properly and the client has all of
  it. A client that takes everything gets everything the relay sent, and the copy's error is the
  relay's own. So \<open>copyResponse\<close> replies with the relay's status and filtered headers and a prefix of
  its body, and its error is what the relay pipeline classifies.
\<close>

theorem copy_exact:
  assumes "upstream rs = Some (b, e)"
  shows "(\<exists>k. io_copy flusher rs (taken_whole rs) \<lparr>sk_sent = [], sk_flushed = 0\<rparr> = Some (e, k) \<and> sk_sent k = b)
     \<and> (\<forall>ws err k. io_copy flusher rs ws \<lparr>sk_sent = [], sk_flushed = 0\<rparr> = Some (err, k) \<longrightarrow>
          prefix (sk_sent k) b \<and> (flusher \<longrightarrow> sk_flushed k = length (sk_sent k))
          \<and> (err = None \<longrightarrow> sk_sent k = b \<and> e = None))
     \<and> (\<forall>status h ws dead rep resp. copyResponse flusher status h rs ws dead = Some (rep, resp) \<longrightarrow>
          rep = Rp_Response status (copyResponseHeader [] h) (ra_body resp) \<and> prefix (ra_body resp) b
          \<and> (ra_copyErr resp = None \<longrightarrow> ra_body resp = b \<and> e = None))"
proof (intro conjI allI impI)
  show "\<exists>k. io_copy flusher rs (taken_whole rs) \<lparr>sk_sent = [], sk_flushed = 0\<rparr> = Some (e, k) \<and> sk_sent k = b"
    using io_copy_whole [OF assms, of flusher "\<lparr>sk_sent = [], sk_flushed = 0\<rparr>"] by auto
next
  fix ws err k
  assume run: "io_copy flusher rs ws \<lparr>sk_sent = [], sk_flushed = 0\<rparr> = Some (err, k)"
  show "prefix (sk_sent k) b" using io_copy_prefix [OF run assms] by auto
  show "sk_sent k = b" "e = None" if "err = None" using io_copy_prefix [OF run assms] that by auto
  show "sk_flushed k = length (sk_sent k)" if flusher
    using io_copy_flushed [of rs ws _ err k] run that by simp
next
  fix status h ws dead rep resp
  assume "copyResponse flusher status h rs ws dead = Some (rep, resp)"
  then obtain k where run: "io_copy flusher rs ws \<lparr>sk_sent = [], sk_flushed = 0\<rparr> = Some (ra_copyErr resp, k)"
    and resp: "ra_body resp = sk_sent k" "rep = Rp_Response status (copyResponseHeader [] h) (sk_sent k)"
    by (auto simp: copyResponse_def)
  note d = io_copy_prefix [OF run assms]
  show "rep = Rp_Response status (copyResponseHeader [] h) (ra_body resp)" using resp by simp
  show "prefix (ra_body resp) b" using d resp by auto
  show "ra_body resp = b" "e = None" if "ra_copyErr resp = None" using d resp that by auto
qed

text \<open>
  A truncated response is never a success: when the client did not get the whole of a body that
  ended properly, then either the request's context was dead, and the relay's state is as it was,
  or the relay is charged one failure and one mid-stream failure, whatever the reason.
\<close>

theorem truncated_is_no_success:
  assumes "copyResponse flusher status h rs ws dead = Some (rep, resp)" and "upstream rs = Some (b, e)"
    and "ra_body resp \<noteq> b \<or> e \<noteq> None"
    and "settle_response p rl resp now (a, g) = (a', g')"
  shows "rep = Rp_Response status (copyResponseHeader [] h) (ra_body resp) \<and> prefix (ra_body resp) b
     \<and> (if dead then st_cells (g_store g') (r_state rl) = st_cells (g_store g) (r_state rl)
        else rs_failures (st_cells (g_store g') (r_state rl)) = rs_failures (st_cells (g_store g) (r_state rl)) + 1
           \<and> rs_midstream (st_cells (g_store g') (r_state rl)) = rs_midstream (st_cells (g_store g) (r_state rl)) + 1)"
proof -
  from assms(1) obtain err k where k: "io_copy flusher rs ws \<lparr>sk_sent = [], sk_flushed = 0\<rparr> = Some (err, k)"
    and resp: "resp = \<lparr>ra_status = status, ra_header = h, ra_body = sk_sent k, ra_copyErr = err, ra_ctxDead = dead\<rparr>"
    and rep: "rep = Rp_Response status (copyResponseHeader [] h) (sk_sent k)"
    by (auto simp: copyResponse_def)
  from io_copy_prefix [OF k assms(2)] have d: "prefix (sk_sent k) b" "err = None \<Longrightarrow> sk_sent k = b \<and> e = None"
    by auto
  with assms(3) resp have "err \<noteq> None" by auto
  with assms(4) d(1) show ?thesis
    by (auto simp: resp rep settle_response_def Let_def on_store_def RecordFailure_def upd_cell_def record_failure_def
        count_midstream_def split: if_splits)
qed

section \<open>Runs that exist\<close>

text \<open>An event stream of two chunks, cut after the first by a write that fails.\<close>

definition w_reads :: "read_result list" where
  "w_reads = [(''data: 1'', None), (''data: 2'', Some EOF)]"

lemma w_upstream: "upstream w_reads = Some (''data: 1data: 2'', None)"
  by (simp add: w_reads_def)

lemma copy_exact_witness:
  "\<exists>k. io_copy True w_reads (taken_whole w_reads) \<lparr>sk_sent = [], sk_flushed = 0\<rparr> = Some (None, k)
     \<and> sk_sent k = ''data: 1data: 2''"
  using copy_exact [OF w_upstream, of True] by blast

lemma truncated_is_no_success_witness:
  "\<exists>rep resp g'. copyResponse True 200 [] w_reads [(7, None), (3, Some ''broken pipe'')] False = Some (rep, resp)
     \<and> snd (settle_response (gs_pool (g_st (w_gateway 2 0))) (w_relay 2 ''deno'') resp 0 (no_attempts, w_gateway 2 0)) = g'
     \<and> rs_failures (st_cells (g_store g') (r_state (w_relay 2 ''deno''))) =
         rs_failures (st_cells (g_store (w_gateway 2 0)) (r_state (w_relay 2 ''deno''))) + 1"
proof -
  let ?resp = "\<lparr>ra_status = 200, ra_header = [], ra_body = ''data: 1dat'', ra_copyErr = Some ''broken pipe'',
      ra_ctxDead = False\<rparr>"
  have run: "copyResponse True 200 [] w_reads [(7, None), (3, Some ''broken pipe'')] False =
      Some (Rp_Response 200 [] ''data: 1dat'', ?resp)"
    by (simp add: copyResponse_def w_reads_def write_error_def flushWriter_def Let_def)
  obtain a' g' where st: "settle_response (gs_pool (g_st (w_gateway 2 0))) (w_relay 2 ''deno'') ?resp 0
      (no_attempts, w_gateway 2 0) = (a', g')" by (rule prod.exhaust)
  have "ra_body ?resp \<noteq> ''data: 1data: 2'' \<or> None \<noteq> (None :: string option)" by simp
  from truncated_is_no_success [OF run w_upstream this st]
  have "rs_failures (st_cells (g_store g') (r_state (w_relay 2 ''deno''))) =
         rs_failures (st_cells (g_store (w_gateway 2 0)) (r_state (w_relay 2 ''deno''))) + 1"
    by (simp only: if_False HOL.simp_thms)
  with run st show ?thesis
    by (intro exI [of _ "Rp_Response 200 [] ''data: 1dat''"] exI [of _ ?resp] exI [of _ g'])
       (simp only: snd_conv simp_thms)
qed

end
