(* ===== verification/Main_Loop.thy ===== *)
theory Main_Loop
  imports Main_Process Config_Properties Registry_Invariants Runs
begin

text \<open>
  \<open>run\<close> of \<open>cmd/http-relay-gateway/main.go\<close> from the boot to its return: the main goroutine with
  its \<open>select\<close>, \<open>apply\<close> and \<open>shutdown\<close>, and beside it the watcher with \<open>onChange\<close>, the other users
  of the registry and of the gateway, the listener and the signals. An event is one
  atomic step of one goroutine or something the outside does.
\<close>

section \<open>State\<close>

text \<open>The watcher: at its ticker, after a \<open>poll\<close> that applied a configuration, after waking the worker.\<close>

datatype watch_pc = WP_Idle | WP_Changed | WP_Woke

text \<open>\<open>net.Listen\<close> and the deferred \<open>Stop\<close> when it fails, \<open>apply\<close> and \<open>shutdown\<close>, by what the next step does. The
  flag says that \<open>source\<close> is \<open>"config"\<close>; \<open>nat\<close> is the captured notification count; the last argument of
  the points of \<open>shutdown\<close> is what \<open>run\<close> returns.\<close>

datatype main_pc =
    MP_Listen
  | MP_Bail string
  | MP_Bailed string
  | MP_Select
  | MP_Capture bool
  | MP_Get bool nat
  | MP_Push bool nat "config option"
  | MP_Prune nat "config option"
  | MP_Build nat "config option" registry
  | MP_Level nat cfg_settings
  | MP_Publish nat
  | MP_Flag "string option"
  | MP_Stop "string option"
  | MP_BeginDrain "string option"
  | MP_Shutdown "string option"
  | MP_CloseAll "string option"
  | MP_Returned "string option"

record process =
  mn_addr :: string
  mn_store :: desired_store
  mn_watch :: watch_pc
  mn_wake :: bool
  mn_reloaded :: bool
  mn_reg :: registry
  mn_gw :: gateway
  mn_cc :: client_cache
  mn_level :: level
  mn_applied :: nat
  mn_shutting :: bool
  mn_err :: "string option"
  mn_sig :: bool
  mn_pc :: main_pc

text \<open>The boot: one poll, the registry seeded, the first serving state built; the worker and the watcher
  start before the listener.\<close>

definition boot ::
    "url_parser \<Rightarrow> string \<Rightarrow> string \<Rightarrow> string \<Rightarrow> string + string \<Rightarrow> string + config \<Rightarrow> process" where
  "boot up addr version relayVersion raw loaded =
    (let store = snd (snd (poll raw loaded newDesiredStore));
         s = effective (ds_p store);
         reg = New (registry_settings s);
         (st, rs, cc) = buildState up reg reg s (NewRuntimeState, empty_store) NewClientCache
     in \<lparr>mn_addr = addr, mn_store = store, mn_watch = WP_Idle, mn_wake = False, mn_reloaded = False, mn_reg = reg,
         mn_gw = New_gateway st version relayVersion rs, mn_cc = cc, mn_level = parseZerologLevel (se_logLevel s),
         mn_applied = 0, mn_shutting = False, mn_err = None, mn_sig = False, mn_pc = MP_Listen\<rparr>)"

section \<open>Steps\<close>

text \<open>\<open>reg.Changes()\<close> fires, the reload channel has a value, a listener error, a signal.\<close>

datatype choice = CH_Changes | CH_Reloaded | CH_Err | CH_Signal

definition select_step :: "choice \<Rightarrow> process \<Rightarrow> process option" where
  "select_step c s =
     (case c of
        CH_Changes \<Rightarrow> map_option (\<lambda>r. s\<lparr>mn_reg := r, mn_pc := MP_Capture False\<rparr>) (take_change (mn_reg s))
      | CH_Reloaded \<Rightarrow> if mn_reloaded s then Some (s\<lparr>mn_reloaded := False, mn_pc := MP_Capture True\<rparr>) else None
      | CH_Err \<Rightarrow> map_option (\<lambda>e. s\<lparr>mn_err := None, mn_pc := MP_Flag (Some e)\<rparr>) (mn_err s)
      | CH_Signal \<Rightarrow> if mn_sig s then Some (s\<lparr>mn_sig := False, mn_pc := MP_Flag None\<rparr>) else None)"

fun apply_step :: "url_parser \<Rightarrow> main_pc \<Rightarrow> process \<Rightarrow> process option" where
  "apply_step up (MP_Capture src) s = Some (s\<lparr>mn_pc := MP_Get src (NotifySeq (mn_reg s))\<rparr>)"
| "apply_step up (MP_Get src n) s = Some (s\<lparr>mn_pc := MP_Push src n (ds_p (mn_store s))\<rparr>)"
| "apply_step up (MP_Push src n cfg) s =
     Some (s\<lparr>mn_reg := (if src then UpdateSettings (registry_settings (effective cfg)) (mn_reg s) else mn_reg s),
             mn_pc := MP_Prune n cfg\<rparr>)"
| "apply_step up (MP_Prune n cfg) s =
     Some (s\<lparr>mn_gw := (mn_gw s)\<lparr>g_rt := Prune (desiredIdentities cfg) (g_rt (mn_gw s))\<rparr>,
             mn_pc := MP_Build n cfg (mn_reg s)\<rparr>)"
| "apply_step up (MP_Build n cfg seen) s =
     (let (st, rs, cc) = buildState up seen (mn_reg s) (effective cfg) (g_rt (mn_gw s), g_store (mn_gw s)) (mn_cc s)
      in Some (s\<lparr>mn_gw := Swap st ((mn_gw s)\<lparr>g_rt := fst rs, g_store := snd rs\<rparr>), mn_cc := cc,
                 mn_pc := MP_Level n (effective cfg)\<rparr>))"
| "apply_step up (MP_Level n c) s =
     Some (s\<lparr>mn_level := parseZerologLevel (se_logLevel c), mn_pc := MP_Publish n\<rparr>)"
| "apply_step up (MP_Publish n) s =
     Some (s\<lparr>mn_applied := (if n > mn_applied s then n else mn_applied s), mn_pc := MP_Select\<rparr>)"
| "apply_step up _ s = None"

text \<open>\<open>Stop\<close> and \<open>Server.Shutdown\<close> block; that they return is the environment's move.\<close>

fun shutdown_step :: "main_pc \<Rightarrow> process \<Rightarrow> process option" where
  "shutdown_step (MP_Flag e) s = Some (s\<lparr>mn_shutting := True, mn_pc := MP_Stop e\<rparr>)"
| "shutdown_step (MP_Stop e) s = Some (s\<lparr>mn_pc := MP_BeginDrain e\<rparr>)"
| "shutdown_step (MP_BeginDrain e) s = Some (s\<lparr>mn_gw := BeginDrain (mn_gw s), mn_pc := MP_Shutdown e\<rparr>)"
| "shutdown_step (MP_Shutdown e) s = Some (s\<lparr>mn_pc := MP_CloseAll e\<rparr>)"
| "shutdown_step (MP_CloseAll e) s = Some (s\<lparr>mn_cc := CloseAll (mn_cc s), mn_pc := MP_Returned e\<rparr>)"
| "shutdown_step (MP_Bail e) s = Some (s\<lparr>mn_pc := MP_Bailed e\<rparr>)"
| "shutdown_step _ s = None"

datatype main_event =
    PE_Poll "string + string" "string + config"
  | PE_WakeWorker
  | PE_Reloaded
  | PE_Registry instant reg_op
  | PE_Gateway other
  | PE_Listen "string option"
  | PE_ListenerError string
  | PE_Signal
  | PE_Select choice
  | PE_Apply
  | PE_Shutdown

text \<open>Requests, a failing listener and signals that reach \<open>sigCh\<close> come after \<open>net.Listen\<close>.\<close>

fun listening :: "main_pc \<Rightarrow> bool" where
  "listening MP_Listen = False"
| "listening (MP_Bail e) = False"
| "listening (MP_Bailed e) = False"
| "listening _ = True"

text \<open>The other goroutines leave to the main goroutine what is its own: settings, the change channel,
  swaps and the drain label.\<close>

fun others_may :: "reg_op \<Rightarrow> bool" where
  "others_may (OpUpdateSettings c) = False"
| "others_may OpTakeChange = False"
| "others_may _ = True"

fun gateway_may :: "other \<Rightarrow> bool" where
  "gateway_may (O_Swap st) = False"
| "gateway_may O_Drain = False"
| "gateway_may _ = True"

fun main_step :: "url_parser \<Rightarrow> main_event \<Rightarrow> process \<Rightarrow> process option" where
  "main_step up (PE_Poll raw loaded) s =
     (if mn_watch s = WP_Idle
      then (let (changed, warn, store) = poll raw loaded (mn_store s)
            in Some (s\<lparr>mn_store := store, mn_watch := (if changed then WP_Changed else WP_Idle)\<rparr>))
      else None)"
| "main_step up PE_WakeWorker s =
     (if mn_watch s = WP_Changed then Some (s\<lparr>mn_wake := True, mn_watch := WP_Woke\<rparr>) else None)"
| "main_step up PE_Reloaded s =
     (if mn_watch s = WP_Woke then Some (s\<lparr>mn_reloaded := True, mn_watch := WP_Idle\<rparr>) else None)"
| "main_step up (PE_Registry now x) s =
     (if others_may x then Some (s\<lparr>mn_reg := reg_apply now x (mn_reg s)\<rparr>) else None)"
| "main_step up (PE_Gateway x) s =
     (if gateway_may x \<and> listening (mn_pc s) then Some (s\<lparr>mn_gw := apply_other x (mn_gw s)\<rparr>) else None)"
| "main_step up (PE_Listen e) s =
     (if mn_pc s = MP_Listen
      then Some (s\<lparr>mn_pc := (case e of None \<Rightarrow> MP_Select | Some m \<Rightarrow> MP_Bail (''listen '' @ mn_addr s @ '': '' @ m))\<rparr>)
      else None)"
| "main_step up (PE_ListenerError e) s =
     (if mn_err s = None \<and> listening (mn_pc s) then Some (s\<lparr>mn_err := Some (''listener: '' @ e)\<rparr>) else None)"
| "main_step up PE_Signal s = (if listening (mn_pc s) then Some (s\<lparr>mn_sig := True\<rparr>) else None)"
| "main_step up (PE_Select c) s = (if mn_pc s = MP_Select then select_step c s else None)"
| "main_step up PE_Apply s = apply_step up (mn_pc s) s"
| "main_step up PE_Shutdown s = shutdown_step (mn_pc s) s"

abbreviation main_exec :: "url_parser \<Rightarrow> main_event list \<Rightarrow> process \<Rightarrow> process option" where
  "main_exec up \<equiv> run_events (main_step up)"

section \<open>What the other goroutines leave alone\<close>

lemma sync_cfg:
  "reg_cfg (sync_member now m r) = reg_cfg r" "reg_cfg (sync_leave now k r) = reg_cfg r"
  by (auto simp: sync_member_def sync_leave_def Let_def split: option.splits)

lemma fold_keeps: "(\<And>x r. f (g x r) = f r) \<Longrightarrow> f (fold g xs r) = f r"
  by (induction xs arbitrary: r) auto

lemma revoke_cfg [simp]: "reg_cfg (revoke now k e r) = reg_cfg r" "reg_cfg (label_failed now k e r) = reg_cfg r"
  by (simp_all add: revoke_def label_failed_def Let_def)

lemma others_keep_cfg: "others_may x \<Longrightarrow> reg_cfg (reg_apply now x r) = reg_cfg r"
  by (cases x)
     (auto simp: Sync_def Let_def sync_cfg fold_keeps [where f = reg_cfg] TakeScopeChanged_def Begin_def BeginDelete_def
        Release_def Enter_def Ready_def Failing_def Demote_def Pause_def DeferDrain_def DrainCompleted_def
        DeleteDone_def DeleteFailed_def ensure_entry_def split: option.splits prod.splits)

lemma others_keep_state:
  assumes "gateway_may x"
  shows "g_st (apply_other x g) = g_st g" and "g_draining (apply_other x g) = g_draining g"
  using assms by (cases x; simp)+

lemma Client_kept: "Client d h cc = (c, cc') \<Longrightarrow> map_of (cc_m cc') (d, h) = Some c"
  by (auto simp: Client_def update_conv' split: option.splits)

section \<open>Settings reach everyone\<close>

abbreviation desired :: "process \<Rightarrow> config option" where
  "desired s \<equiv> ds_p (mn_store s)"

definition due :: "process \<Rightarrow> bool" where
  "due s \<longleftrightarrow> mn_watch s \<noteq> WP_Idle \<or> mn_reloaded s"

text \<open>A serving state and the outbound client tuned by these settings.\<close>

definition serves :: "cfg_settings \<Rightarrow> client_cache \<Rightarrow> gstate \<Rightarrow> bool" where
  "serves c cc st \<longleftrightarrow>
     p_threshold (gs_pool st) = se_failureThreshold c \<and> p_cooldown (gs_pool st) = se_cooldown c
     \<and> gs_maxRetries st = se_maxRetries c \<and> gs_streamThresholdBytes st = se_streamThresholdBytes c
     \<and> map_of (cc_m cc) (se_dialTimeout c, se_responseHeaderTimeout c) = Some (gs_client st)"

lemma buildState_serves:
  assumes "buildState up reg reg' c rs cc = (st, rs', cc')"
  shows "serves c cc' st"
proof -
  obtain p r2 where p: "NewAttached \<lparr>pi_failureThreshold = se_failureThreshold c, pi_cooldown = se_cooldown c,
      pi_relays = relay_inputs up (Serving reg)\<rparr> rs = (p, r2)" by (rule prod.exhaust)
  obtain cl c2 where cl: "Client (se_dialTimeout c) (se_responseHeaderTimeout c) cc = (cl, c2)" by (rule prod.exhaust)
  from p have "p_threshold p = se_failureThreshold c" "p_cooldown p = se_cooldown c"
    by (auto simp: NewAttached_def newPool_def Let_def split: prod.splits)
  with assms p cl Client_kept [OF cl] show ?thesis by (auto simp: buildState_def serves_def Let_def)
qed

lemma Swap_state: "g_st (Swap st g) = st" "g_draining (Swap st g) = g_draining g"
  by (simp_all add: Swap_def Let_def)

definition gates :: "process \<Rightarrow> bool" where
  "gates s \<longleftrightarrow> reg_cfg (mn_reg s) = registry_settings (effective (desired s))"

definition routes :: "process \<Rightarrow> bool" where
  "routes s \<longleftrightarrow> serves (effective (desired s)) (mn_cc s) (g_st (mn_gw s))"

definition logs :: "process \<Rightarrow> bool" where
  "logs s \<longleftrightarrow> mn_level s = parseZerologLevel (se_logLevel (effective (desired s)))"

text \<open>What an \<open>apply\<close> under way with the configuration in force has yet to do.\<close>

fun underway :: "main_pc \<Rightarrow> process \<Rightarrow> bool" where
  "underway (MP_Capture src) s \<longleftrightarrow> src \<or> gates s"
| "underway (MP_Get src n) s \<longleftrightarrow> src \<or> gates s"
| "underway (MP_Push src n cfg) s \<longleftrightarrow> cfg = desired s \<and> (src \<or> gates s)"
| "underway (MP_Prune n cfg) s \<longleftrightarrow> cfg = desired s \<and> gates s"
| "underway (MP_Build n cfg seen) s \<longleftrightarrow> cfg = desired s \<and> gates s"
| "underway (MP_Level n c) s \<longleftrightarrow> c = effective (desired s) \<and> gates s \<and> routes s"
| "underway _ s \<longleftrightarrow> gates s \<and> routes s \<and> logs s"

definition tuned :: "process \<Rightarrow> bool" where
  "tuned s \<longleftrightarrow> settings_ok (effective (desired s)) \<and> (due s \<or> underway (mn_pc s) s)"

lemmas tuned_defs = tuned_def due_def gates_def routes_def logs_def

fun loads_valid :: "main_event \<Rightarrow> bool" where
  "loads_valid (PE_Poll raw loaded) = (case loaded of Inl e \<Rightarrow> True | Inr c \<Rightarrow> settings_ok (cf_settings c))"
| "loads_valid e = True"

lemma push_settings: "settings_ok c \<Longrightarrow> reg_cfg (UpdateSettings (registry_settings c) r) = registry_settings c"
  by (auto simp: UpdateSettings_def with_settings_def registry_settings_def pick_positive_def settings_ok_def Let_def)

lemma seed_settings: "settings_ok c \<Longrightarrow> reg_cfg (New (registry_settings c)) = registry_settings c"
  by (auto simp: New_def registry_settings_def settings_ok_def)

lemma poll_store:
  assumes "poll raw loaded st = (changed, warn, st')"
  shows "if changed then \<exists>c. loaded = Inr c \<and> ds_p st' = Some c else ds_p st' = ds_p st"
  using assms by (auto simp: poll_def Let_def split: sum.splits if_splits)

lemma tuned_boot:
  assumes "loads_valid (PE_Poll raw loaded)"
  shows "tuned (boot up addr version relayVersion raw loaded)"
proof -
  obtain ch w st where store: "poll raw loaded newDesiredStore = (ch, w, st)" by (rule prod_cases3)
  obtain gs rs cc where b: "buildState up (New (registry_settings (effective (ds_p st))))
      (New (registry_settings (effective (ds_p st)))) (effective (ds_p st)) (NewRuntimeState, empty_store) NewClientCache
      = (gs, rs, cc)" by (rule prod_cases3)
  have ok: "settings_ok (effective (ds_p st))"
    using assms poll_store [OF store]
    by (auto simp: effective_def newDesiredStore_def defaults_ok split: if_splits option.splits)
  show ?thesis
    using ok buildState_serves [OF b] b
    by (simp add: boot_def store Let_def tuned_defs New_gateway_def seed_settings)
qed

lemma tuned_select: "select_step c s = Some s' \<Longrightarrow> mn_pc s = MP_Select \<Longrightarrow> tuned s \<Longrightarrow> tuned s'"
  by (cases c) (auto simp: select_step_def tuned_defs take_change_def split: if_splits)

lemma tuned_apply:
  assumes "apply_step up (mn_pc s) s = Some s'" and "tuned s"
  shows "tuned s'"
proof (cases "mn_pc s")
  case (MP_Build n cfg seen)
  obtain gs rs cc where b: "buildState up seen (mn_reg s) (effective cfg)
      (g_rt (mn_gw s), g_store (mn_gw s)) (mn_cc s) = (gs, rs, cc)" by (rule prod_cases3)
  with assms(1) MP_Build have "s' = s\<lparr>mn_gw := Swap gs ((mn_gw s)\<lparr>g_rt := fst rs, g_store := snd rs\<rparr>), mn_cc := cc,
      mn_pc := MP_Level n (effective cfg)\<rparr>" by simp
  with assms(2) MP_Build buildState_serves [OF b] show ?thesis by (auto simp: tuned_defs Swap_state)
next
  case (MP_Push src n cfg)
  with assms show ?thesis by (auto simp: tuned_defs push_settings)
qed (use assms in \<open>auto simp: tuned_defs\<close>)

lemma tuned_shutdown: "shutdown_step (mn_pc s) s = Some s' \<Longrightarrow> tuned s \<Longrightarrow> tuned s'"
  by (cases "mn_pc s") (auto simp: tuned_defs BeginDrain_def CloseAll_def serves_def)

text \<open>A step beside the main goroutine keeps where the main goroutine stands and what it has yet to do.\<close>

lemma underway_frame:
  assumes "desired s' = desired s" and "reg_cfg (mn_reg s') = reg_cfg (mn_reg s)" and "mn_cc s' = mn_cc s"
    and "g_st (mn_gw s') = g_st (mn_gw s)" and "mn_level s' = mn_level s"
  shows "underway pc s' = underway pc s"
  using assms by (cases pc) (simp_all add: gates_def routes_def logs_def)

lemma tuned_step:
  assumes "main_step up e s = Some s'" and "loads_valid e" and "tuned s"
  shows "tuned s'"
proof (cases e)
  case (PE_Poll raw loaded)
  obtain ch w st where store: "poll raw loaded (mn_store s) = (ch, w, st)" by (rule prod_cases3)
  with assms PE_Poll have s': "s' = s\<lparr>mn_store := st, mn_watch := if ch then WP_Changed else WP_Idle\<rparr>"
    and idle: "mn_watch s = WP_Idle" by (auto split: if_splits)
  show ?thesis
  proof (cases ch)
    case True
    with poll_store [OF store] assms(2) PE_Poll s' show ?thesis by (auto simp: tuned_def due_def effective_def)
  next
    case False
    with poll_store [OF store] s' have d: "desired s' = desired s" by simp
    from False s' have "underway (mn_pc s') s' = underway (mn_pc s) s" using underway_frame [OF d] by simp
    with False assms(3) d s' idle show ?thesis by (simp add: tuned_def due_def)
  qed
next
  case (PE_Registry now x)
  with assms(1) have "others_may x" and s': "s' = s\<lparr>mn_reg := reg_apply now x (mn_reg s)\<rparr>" by (auto split: if_splits)
  then have "underway (mn_pc s) s' = underway (mn_pc s) s" by (intro underway_frame) (simp_all add: others_keep_cfg)
  with assms(3) s' show ?thesis by (simp add: tuned_def due_def)
next
  case (PE_Gateway x)
  with assms(1) have "gateway_may x" and s': "s' = s\<lparr>mn_gw := apply_other x (mn_gw s)\<rparr>" by (auto split: if_splits)
  then have "underway (mn_pc s) s' = underway (mn_pc s) s" by (intro underway_frame) (simp_all add: others_keep_state)
  with assms(3) s' show ?thesis by (simp add: tuned_def due_def)
next
  case PE_Apply
  with assms show ?thesis by (auto intro: tuned_apply)
next
  case PE_Shutdown
  with assms show ?thesis by (auto intro: tuned_shutdown)
next
  case (PE_Select c)
  with assms show ?thesis by (auto intro: tuned_select split: if_splits)
next
  case PE_WakeWorker
  with assms show ?thesis by (auto simp: tuned_def due_def split: if_splits)
next
  case PE_Reloaded
  with assms show ?thesis by (auto simp: tuned_def due_def split: if_splits)
next
  case (PE_ListenerError e)
  with assms(1) have s': "s' = s\<lparr>mn_err := Some (''listener: '' @ e)\<rparr>" by (auto split: if_splits)
  then have "underway (mn_pc s) s' = underway (mn_pc s) s" by (intro underway_frame) simp_all
  with assms(3) s' show ?thesis by (simp add: tuned_def due_def)
next
  case (PE_Listen e)
  with assms show ?thesis by (auto simp: tuned_def due_def gates_def routes_def logs_def split: if_splits option.splits)
next
  case PE_Signal
  with assms(1) have s': "s' = s\<lparr>mn_sig := True\<rparr>" by (simp split: if_splits)
  then have "underway (mn_pc s) s' = underway (mn_pc s) s" by (intro underway_frame) simp_all
  with assms(3) s' show ?thesis by (simp add: tuned_def due_def)
qed

text \<open>
  C27. After any interleaving from the boot on -- polls, admission changes, requests, applies for either
  reason, a configuration replaced while an \<open>apply\<close> runs -- once the watcher is idle, no reload is
  pending and the main goroutine is back in its \<open>select\<close>, the registry gates on the settings of
  the configuration in force, the serving state and its client were built from them, and the log
  level is theirs.
\<close>

theorem settings_reach_everyone:
  assumes "main_exec up es (boot up addr version relayVersion raw loaded) = Some s"
    and "list_all loads_valid (PE_Poll raw loaded # es)"
    and "mn_watch s = WP_Idle" and "\<not> mn_reloaded s" and "mn_pc s = MP_Select"
  shows "reg_cfg (mn_reg s) = registry_settings (effective (ds_p (mn_store s)))
     \<and> serves (effective (ds_p (mn_store s))) (mn_cc s) (g_st (mn_gw s))
     \<and> mn_level s = parseZerologLevel (se_logLevel (effective (ds_p (mn_store s))))"
proof -
  have "tuned s"
  proof (rule run_events_inv [OF assms(1)])
    show "tuned (boot up addr version relayVersion raw loaded)" using assms(2) by (intro tuned_boot) simp
    show "tuned b" if "e \<in> set es" "main_step up e a = Some b" "tuned a" for e a b
      using tuned_step [OF that(2) _ that(3)] assms(2) that(1) by (auto simp: list_all_iff)
  qed
  with assms(3-5) show ?thesis by (simp add: tuned_defs)
qed

section \<open>The way out\<close>

text \<open>Main-goroutine steps from a program point to the return, taking the signal at the next \<open>select\<close>.\<close>

fun pc_rank :: "main_pc \<Rightarrow> nat" where
  "pc_rank MP_Listen = 14"
| "pc_rank (MP_Bail e) = 14"
| "pc_rank (MP_Bailed e) = 14"
| "pc_rank (MP_Capture src) = 13"
| "pc_rank (MP_Get src n) = 12"
| "pc_rank (MP_Push src n cfg) = 11"
| "pc_rank (MP_Prune n cfg) = 10"
| "pc_rank (MP_Build n cfg seen) = 9"
| "pc_rank (MP_Level n c) = 8"
| "pc_rank (MP_Publish n) = 7"
| "pc_rank MP_Select = 6"
| "pc_rank (MP_Flag e) = 5"
| "pc_rank (MP_Stop e) = 4"
| "pc_rank (MP_BeginDrain e) = 3"
| "pc_rank (MP_Shutdown e) = 2"
| "pc_rank (MP_CloseAll e) = 1"
| "pc_rank (MP_Returned e) = 0"

definition ready_to_go :: "process \<Rightarrow> bool" where
  "ready_to_go s \<longleftrightarrow> mn_sig s \<or> pc_rank (mn_pc s) \<le> 5"

lemma main_own_step:
  assumes "pc_rank (mn_pc s) = Suc k" and "ready_to_go s" and "listening (mn_pc s)"
  shows "\<exists>e s'. e \<in> {PE_Apply, PE_Select CH_Signal, PE_Shutdown} \<and> main_step up e s = Some s'
     \<and> pc_rank (mn_pc s') = k \<and> ready_to_go s' \<and> listening (mn_pc s')"
proof -
  let ?goal = "\<lambda>e. \<exists>s'. e \<in> {PE_Apply, PE_Select CH_Signal, PE_Shutdown} \<and> main_step up e s = Some s'
      \<and> pc_rank (mn_pc s') = k \<and> ready_to_go s' \<and> listening (mn_pc s')"
  consider "pc_rank (mn_pc s) > 6" | "mn_pc s = MP_Select" | "pc_rank (mn_pc s) \<le> 5" "pc_rank (mn_pc s) \<noteq> 0"
    using assms(1) by (cases "mn_pc s") auto
  then have "?goal PE_Apply \<or> ?goal (PE_Select CH_Signal) \<or> ?goal PE_Shutdown"
  proof cases
    case 1
    with assms have "?goal PE_Apply"
      by (cases "mn_pc s") (auto simp: ready_to_go_def split: prod.splits)
    then show ?thesis ..
  next
    case 2
    with assms have "?goal (PE_Select CH_Signal)" by (auto simp: ready_to_go_def select_step_def)
    then show ?thesis by blast
  next
    case 3
    with assms have "?goal PE_Shutdown" by (cases "mn_pc s") (auto simp: ready_to_go_def)
    then show ?thesis by blast
  qed
  then show ?thesis by blast
qed

fun outcome_of :: "main_pc \<Rightarrow> string option" where
  "outcome_of (MP_Flag e) = e" | "outcome_of (MP_Stop e) = e" | "outcome_of (MP_BeginDrain e) = e"
| "outcome_of (MP_Shutdown e) = e" | "outcome_of (MP_CloseAll e) = e" | "outcome_of (MP_Returned e) = e"
| "outcome_of _ = None"

text \<open>The idle connections of every cached client are closed.\<close>

definition all_closed :: "client_cache \<Rightarrow> bool" where
  "all_closed cc \<longleftrightarrow> list_all (\<lambda>e. snd e \<in> set (cc_closed cc)) (cc_m cc)"

lemma CloseAll_closed [simp]: "all_closed (CloseAll cc)"
  by (simp add: all_closed_def CloseAll_def list_all_iff)

definition from_listener :: "string \<Rightarrow> bool" where
  "from_listener e \<longleftrightarrow> (\<exists>m. e = ''listener: '' @ m)"

definition closing :: "process \<Rightarrow> bool" where
  "closing s \<longleftrightarrow>
     (mn_shutting s \<longleftrightarrow> pc_rank (mn_pc s) \<le> 4) \<and> (g_draining (mn_gw s) \<longleftrightarrow> pc_rank (mn_pc s) \<le> 2)
     \<and> (pc_rank (mn_pc s) = 0 \<longrightarrow> all_closed (mn_cc s))
     \<and> (case outcome_of (mn_pc s) of None \<Rightarrow> True | Some e \<Rightarrow> from_listener e)
     \<and> (case mn_err s of None \<Rightarrow> True | Some e \<Rightarrow> from_listener e)
     \<and> (listening (mn_pc s) \<or> \<not> mn_sig s)"

lemma closing_boot: "closing (boot up addr version relayVersion raw loaded)"
  by (simp add: boot_def Let_def closing_def New_gateway_def split: prod.split)

lemma closing_step:
  assumes "main_step up e s = Some s'" and "closing s"
  shows "closing s'"
proof (cases e)
  case PE_Apply
  with assms show ?thesis
    by (cases "mn_pc s") (auto simp: closing_def Swap_state Let_def split: prod.splits)
next
  case PE_Shutdown
  with assms show ?thesis
    by (cases "mn_pc s") (auto simp: closing_def BeginDrain_def)
next
  case (PE_Select c)
  with assms show ?thesis
    by (cases c) (auto simp: closing_def select_step_def split: if_splits option.splits)
next
  case (PE_Gateway x)
  with assms show ?thesis by (auto simp: closing_def others_keep_state split: if_splits)
next
  case (PE_ListenerError m)
  with assms have "s' = s\<lparr>mn_err := Some (''listener: '' @ m)\<rparr>" by (simp split: if_splits)
  moreover have "from_listener (''listener: '' @ m)" unfolding from_listener_def by blast
  ultimately show ?thesis using assms(2) unfolding closing_def by simp
next
  case (PE_Poll raw loaded)
  with assms(1) have "mn_pc s' = mn_pc s \<and> mn_shutting s' = mn_shutting s \<and> mn_gw s' = mn_gw s \<and> mn_cc s' = mn_cc s
      \<and> mn_err s' = mn_err s \<and> mn_sig s' = mn_sig s" by (auto simp: Let_def split: if_splits prod.splits)
  with assms(2) show ?thesis unfolding closing_def by metis
next
  case (PE_Registry now x)
  with assms(1) have "s' = s\<lparr>mn_reg := reg_apply now x (mn_reg s)\<rparr>" by (simp split: if_splits)
  with assms(2) show ?thesis unfolding closing_def by simp
next
  case PE_WakeWorker
  with assms(1) have "s' = s\<lparr>mn_wake := True, mn_watch := WP_Woke\<rparr>" by (simp split: if_splits)
  with assms(2) show ?thesis unfolding closing_def by simp
next
  case PE_Reloaded
  with assms(1) have "s' = s\<lparr>mn_reloaded := True, mn_watch := WP_Idle\<rparr>" by (simp split: if_splits)
  with assms(2) show ?thesis unfolding closing_def by simp
next
  case PE_Signal
  with assms(1) have "s' = s\<lparr>mn_sig := True\<rparr> \<and> listening (mn_pc s)" by (simp split: if_splits)
  with assms(2) show ?thesis unfolding closing_def by simp
next
  case (PE_Listen e)
  with assms show ?thesis unfolding closing_def by (auto split: if_splits option.splits)
qed

text \<open>
  C20. Once a signal has reached \<open>run\<close>, or its shutdown has begun, \<open>run\<close> is at most thirteen steps of the main
  goroutine from its return, whatever it was doing, provided \<open>Stop\<close> and \<open>Server.Shutdown\<close> return;
  the error it returns is the listener's or none. The settle barrier is released before \<open>Stop\<close>, the
  drain label is set between \<open>Stop\<close> and \<open>Server.Shutdown\<close>, and at the return every cached client's
  idle connections are closed.
\<close>

theorem shutdown_completes:
  assumes "main_exec up es (boot up addr version relayVersion raw loaded) = Some s" and "ready_to_go s"
  shows "(mn_shutting s \<longleftrightarrow> pc_rank (mn_pc s) \<le> 4) \<and> (g_draining (mn_gw s) \<longleftrightarrow> pc_rank (mn_pc s) \<le> 2)
     \<and> (\<exists>fs s' e. length fs \<le> 13 \<and> set fs \<subseteq> {PE_Apply, PE_Select CH_Signal, PE_Shutdown}
          \<and> main_exec up fs s = Some s' \<and> mn_pc s' = MP_Returned e
          \<and> (case e of None \<Rightarrow> True | Some m \<Rightarrow> from_listener m)
          \<and> all_closed (mn_cc s'))"
proof -
  have ok: "closing s"
    by (rule run_events_inv [where I = closing, OF assms(1) closing_boot]) (rule closing_step)
  let ?I = "\<lambda>s. closing s \<and> ready_to_go s \<and> listening (mn_pc s)"
  have "?I s" using ok assms(2) by (cases "mn_pc s") (auto simp: closing_def ready_to_go_def)
  moreover have "\<exists>e b. e \<in> {PE_Apply, PE_Select CH_Signal, PE_Shutdown} \<and> main_step up e a = Some b
      \<and> ?I b \<and> pc_rank (mn_pc b) = k" if "?I a" and "pc_rank (mn_pc a) = Suc k" for a k
    using main_own_step [of a k up] closing_step [of up _ a] that by metis
  ultimately have "\<exists>fs s'. length fs = pc_rank (mn_pc s) \<and> set fs \<subseteq> {PE_Apply, PE_Select CH_Signal, PE_Shutdown}
      \<and> main_exec up fs s = Some s' \<and> ?I s' \<and> pc_rank (mn_pc s') = 0"
    by (intro run_events_rank [where rank = "\<lambda>s. pc_rank (mn_pc s)"]) blast+
  then obtain fs s' where fs: "length fs = pc_rank (mn_pc s)" "set fs \<subseteq> {PE_Apply, PE_Select CH_Signal, PE_Shutdown}"
    "main_exec up fs s = Some s'" "pc_rank (mn_pc s') = 0" "closing s'" by blast
  obtain e where e: "mn_pc s' = MP_Returned e" using fs(4) by (cases "mn_pc s'") auto
  have "length fs \<le> 13" unfolding fs(1) using \<open>?I s\<close> by (cases "mn_pc s") simp_all
  with fs e ok show ?thesis
    by (intro conjI exI [of _ fs] exI [of _ s'] exI [of _ e]) (auto simp: closing_def)
qed

section \<open>Runs that exist\<close>

text \<open>A process that boots without a configuration file; the file appears and raises one setting.\<close>

definition w_config :: config where
  "w_config = \<lparr>cf_relays = [], cf_settings = defaultSettings\<lparr>se_verifyDemoteAfter := 5\<rparr>\<rparr>"

definition w_boot :: process where
  "w_boot = boot (\<lambda>u. None) '':8080'' ''1'' ''2'' (Inl ''no such file'') (Inl ''no such file'')"

definition w_reload :: "main_event list" where
  "w_reload = [PE_Listen None, PE_Poll (Inr ''relays: []'') (Inr w_config), PE_WakeWorker, PE_Reloaded, PE_Select CH_Reloaded,
     PE_Apply, PE_Apply, PE_Apply, PE_Apply, PE_Apply, PE_Apply, PE_Apply]"

lemma w_boot_state:
  "mn_watch w_boot = WP_Idle" "\<not> mn_reloaded w_boot" "mn_pc w_boot = MP_Listen"
  "ds_appliedKey (mn_store w_boot) = []"
  by (simp_all add: w_boot_def boot_def Let_def split_beta poll_def newDesiredStore_def)

lemma w_reload_run:
  "\<exists>s. main_exec (\<lambda>u. None) w_reload w_boot = Some s \<and> mn_watch s = WP_Idle \<and> \<not> mn_reloaded s
     \<and> mn_pc s = MP_Select \<and> ds_p (mn_store s) = Some w_config"
  using w_boot_state
  by (simp add: w_reload_def poll_def Let_def split_beta hash_key_def select_step_def)

lemma settings_reach_everyone_witness:
  "\<exists>s. main_exec (\<lambda>u. None) w_reload w_boot = Some s \<and> rs_demoteAfter (reg_cfg (mn_reg s)) = 5"
proof -
  obtain s where s: "main_exec (\<lambda>u. None) w_reload w_boot = Some s" "mn_watch s = WP_Idle" "\<not> mn_reloaded s"
    "mn_pc s = MP_Select" "ds_p (mn_store s) = Some w_config" using w_reload_run by blast
  have "list_all loads_valid (PE_Poll (Inl ''no such file'') (Inl ''no such file'') # w_reload)"
    by (simp add: w_reload_def w_config_def settings_ok_def defaultSettings_def second_def)
  from settings_reach_everyone [OF s(1) [unfolded w_boot_def] this s(2-4)] s(1,5) show ?thesis
    by (intro exI [of _ s]) (simp add: effective_def w_config_def registry_settings_def)
qed

lemma shutdown_completes_witness:
  "\<exists>s fs s' e. main_exec (\<lambda>u. None) [PE_Listen None, PE_Signal] w_boot = Some s \<and> main_exec (\<lambda>u. None) fs s = Some s'
     \<and> mn_pc s' = MP_Returned e"
proof -
  have run: "main_exec (\<lambda>u. None) [PE_Listen None, PE_Signal] w_boot = Some (w_boot\<lparr>mn_pc := MP_Select, mn_sig := True\<rparr>)"
    using w_boot_state by simp
  have "ready_to_go (w_boot\<lparr>mn_pc := MP_Select, mn_sig := True\<rparr>)" by (simp add: ready_to_go_def)
  from shutdown_completes [OF run [unfolded w_boot_def], folded w_boot_def, OF this] run show ?thesis by blast
qed

end
