(* ===== verification/Main_Routing.thy ===== *)
theory Main_Routing
  imports Main_Loop Main_Properties
begin

text \<open>
  Admission and routing in the running process: what the main goroutine of \<open>main.go\<close> makes of the
  registry, on every interleaving of \<^theory_text>\<open>Main_Loop\<close>. Whatever the pool lists was admitted by a
  \<open>Ready\<close> call; a published count that is current means an exact pool; and once the count of a
  withdrawal is published, the relay withdrawn is out of every pick.
\<close>

section \<open>Admissions\<close>

type_synonym row = "relay_key \<times> string \<times> string \<times> nat"

text \<open>The relay, URL, relay key and incarnation of a \<open>Ready\<close> call.\<close>

fun admission :: "main_event \<Rightarrow> row option" where
  "admission (PE_Registry now (OpReady k g url token dur)) = Some (k, url, token, g)"
| "admission _ = None"

definition admissions :: "main_event list \<Rightarrow> row set" where
  "admissions es = {x. \<exists>e \<in> set es. admission e = Some x}"

definition offers :: "row set \<Rightarrow> registry \<Rightarrow> bool" where
  "offers H r \<longleftrightarrow> reg_wf r \<and> (\<forall>k u t g. offer r k = Some (u, t, g) \<longrightarrow> (k, u, t, g) \<in> H)"

lemma offers_wf: "offers H r \<Longrightarrow> reg_wf r"
  by (simp add: offers_def)

lemma offers_row:
  assumes "offers H r" and "s \<in> set (Serving r)"
  shows "(sv_key s, sv_url s, sv_token s, sv_version s) \<in> H"
  using assms Serving_offer(1) [OF offers_wf [OF assms(1)] assms(2)] by (simp add: offers_def)

lemma offers_New: "offers H (New c)"
  by (simp add: offers_def New_wf) (simp add: offer_def New_def)

lemma offers_narrows:
  assumes "offers H r" and "narrows r r'" and "reg_wf r'"
  shows "offers H r'"
  unfolding offers_def
proof (intro conjI allI impI)
  fix k u t g
  assume "offer r' k = Some (u, t, g)"
  moreover from assms(2) have "offer r' k = None \<or> offer r' k = offer r k" by (simp add: narrows_def)
  ultimately have "offer r k = Some (u, t, g)" by auto
  with assms(1) show "(k, u, t, g) \<in> H" by (simp add: offers_def)
qed (rule assms(3))

lemma ready_op_cases:
  obtains (ready) k g u t d where "x = OpReady k g u t d" | (other) "\<not> is_ready_op x"
  by (cases x) auto

lemma offers_apply:
  assumes "offers H r" and "op_ok x" and "\<And>y. admission (PE_Registry now x) = Some y \<Longrightarrow> y \<in> H"
  shows "offers H (reg_apply now x r)"
proof (cases x rule: ready_op_cases)
  case (ready k g u t d)
  with assms(3) have "(k, u, t, g) \<in> H" by simp
  with assms(1) ready have "\<forall>k' u' t' g'. offer (reg_apply now x r) k' = Some (u', t', g') \<longrightarrow> (k', u', t', g') \<in> H"
    by (auto simp: offers_def Ready_offer split: if_splits)
  with assms(1,2) show ?thesis by (simp add: offers_def reg_apply_wf)
next
  case other
  from narrows_apply [OF offers_wf [OF assms(1)] this] reg_apply_wf [OF offers_wf [OF assms(1)] assms(2)]
  show ?thesis using offers_narrows [OF assms(1)] by blast
qed

lemma offers_other: "offers H r \<Longrightarrow> op_ok x \<Longrightarrow> \<not> is_ready_op x \<Longrightarrow> offers H (reg_apply now x r)"
  using offers_narrows [of H r "reg_apply now x r"] narrows_apply [of r x now] reg_apply_wf [of r x now]
  by (simp add: offers_wf)

lemma offers_settings: "offers H r \<Longrightarrow> offers H (UpdateSettings c r)"
  using offers_other [of H r "OpUpdateSettings c"] by simp

lemma offers_take: "offers H r \<Longrightarrow> take_change r = Some r' \<Longrightarrow> offers H r'"
  using offers_other [of H r OpTakeChange] by simp

section \<open>Pools\<close>

definition key_of_relay :: "relay \<Rightarrow> relay_key" where
  "key_of_relay rl = RelayKey (r_provider rl) (r_name rl)"

text \<open>A pool whose relays are the serving rows of a registry, as far as their URLs parse.\<close>

definition listing :: "url_parser \<Rightarrow> registry \<Rightarrow> relay list \<Rightarrow> bool" where
  "listing up r rels \<longleftrightarrow> list_all2 (\<lambda>rl i. \<exists>a. rl = relay_of a i) rels (relay_inputs up (Serving r))"

text \<open>A relay is the row it was built from, its URL as \<open>String\<close> prints it.\<close>

definition leg_of :: "url_parser \<Rightarrow> row \<Rightarrow> relay \<Rightarrow> bool" where
  "leg_of up x rl \<longleftrightarrow>
     (case x of (k, url, token, g) \<Rightarrow>
        key_of_relay rl = k \<and> r_token rl = token \<and> r_incarnation rl = g
        \<and> r_maxBody rl = ProviderMaxBody (key_provider k)
        \<and> (case up url of None \<Rightarrow> False | Some (host, u) \<Rightarrow> host \<noteq> [] \<and> r_url rl = u))"

lemma relay_inputs_elem:
  "i \<in> set (relay_inputs up ss) \<Longrightarrow>
     \<exists>s \<in> set ss. \<exists>h u. up (sv_url s) = Some (h, u) \<and> h \<noteq> [] \<and> i = relay_input_of s u"
proof (induction ss)
  case (Cons s ss)
  show ?case
  proof (cases "i \<in> set (relay_inputs up ss)")
    case True
    with Cons.IH show ?thesis by auto
  next
    case False
    with Cons.prems show ?thesis by (auto split: option.splits if_splits)
  qed
qed simp

lemma listing_leg:
  assumes "listing up r rels" and "rl \<in> set rels"
  shows "\<exists>s \<in> set (Serving r). leg_of up (sv_key s, sv_url s, sv_token s, sv_version s) rl"
proof -
  from assms(2) obtain n where n: "n < length rels" "rels ! n = rl" by (auto simp: in_set_conv_nth)
  note all = assms(1) [unfolded listing_def]
  from list_all2_nthD [OF all n(1)] n(2) obtain a where "rl = relay_of a (relay_inputs up (Serving r) ! n)" by blast
  moreover have "relay_inputs up (Serving r) ! n \<in> set (relay_inputs up (Serving r))"
    using n(1) list_all2_lengthD [OF all] by simp
  ultimately obtain i a where i: "i \<in> set (relay_inputs up (Serving r))" "rl = relay_of a i" by blast
  from relay_inputs_elem [OF i(1)]
  obtain s h u where s: "s \<in> set (Serving r)" "up (sv_url s) = Some (h, u)" "h \<noteq> []" "i = relay_input_of s u"
    by blast
  then have "leg_of up (sv_key s, sv_url s, sv_token s, sv_version s) rl"
    using i(2) by (simp add: leg_of_def key_of_relay_def relay_of_def relay_input_of_def)
  with s(1) show ?thesis by blast
qed

text \<open>Which relays a pool lists, with their incarnations.\<close>

definition pool_members :: "relay list \<Rightarrow> relay_key \<Rightarrow> nat option" where
  "pool_members rels = map_of (map (\<lambda>rl. (key_of_relay rl, r_incarnation rl)) rels)"

lemma members_Serving:
  assumes "reg_wf r"
  shows "map_of (map (\<lambda>s. (sv_key s, sv_version s)) (Serving r)) = members r"
proof
  fix k
  let ?m = "map (\<lambda>s. (sv_key s, sv_version s)) (Serving r)"
  have dist: "distinct (map fst ?m)" using Serving_distinct [OF assms] by (simp add: comp_def)
  show "map_of ?m k = members r k"
  proof (cases "k \<in> sv_key ` set (Serving r)")
    case True
    then obtain s where s: "s \<in> set (Serving r)" "sv_key s = k" by blast
    then have "map_of ?m k = Some (sv_version s)" by (intro map_of_is_SomeI [OF dist]) auto
    with Serving_offer(1) [OF assms s(1)] s(2) show ?thesis by (simp add: members_def)
  next
    case False
    with Serving_offer(2) [OF assms, of k] have "offer r k = None" unfolding IsReady_offer by blast
    moreover from False have "map_of ?m k = None" by (auto simp: map_of_eq_None_iff)
    ultimately show ?thesis unfolding members_def by simp
  qed
qed

lemma listing_members:
  assumes "listing up r rels" and "reg_wf r" and "\<forall>s \<in> set (Serving r). \<exists>h u. up (sv_url s) = Some (h, u) \<and> h \<noteq> []"
  shows "pool_members rels = members r"
proof -
  have "map relay_row rels = map (serving_row up) (Serving r)"
    using assms(1) by (intro shape_rows) (simp add: listing_def relay_inputs_total [OF assms(3)])
  then have "map (\<lambda>(k, u, t, g, m). (k, g)) (map relay_row rels) = map (\<lambda>(k, u, t, g, m). (k, g)) (map (serving_row up) (Serving r))"
    by simp
  then have "map (\<lambda>rl. (key_of_relay rl, r_incarnation rl)) rels = map (\<lambda>s. (sv_key s, sv_version s)) (Serving r)"
    by (simp add: relay_row_def serving_row_def key_of_relay_def comp_def)
  then show ?thesis by (simp add: pool_members_def members_Serving [OF assms(2)])
qed

lemma listing_absent:
  assumes "listing up r rels" and "reg_wf r" and "offer r k = None" and "rl \<in> set rels"
  shows "key_of_relay rl \<noteq> k"
proof
  assume "key_of_relay rl = k"
  moreover from listing_leg [OF assms(1,4)] obtain s where "s \<in> set (Serving r)" "key_of_relay rl = sv_key s"
    by (auto simp: leg_of_def)
  ultimately show False using Serving_offer(1) [OF assms(2)] assms(3) by fastforce
qed

lemma buildState_listing:
  assumes "buildState up reg reg' c rs cc = (st, rs', cc')"
  shows "listing up reg (p_relays (gs_pool st))"
proof -
  obtain rels rs1 where b: "build_relays True (relay_inputs up (Serving reg)) rs = (rels, rs1)" by (rule prod.exhaust)
  obtain cl c2 where "Client (se_dialTimeout c) (se_responseHeaderTimeout c) cc = (cl, c2)" by (rule prod.exhaust)
  with assms b have "p_relays (gs_pool st) = rels"
    by (auto simp: buildState_def NewAttached_def newPool_def Let_def)
  with build_relays_shape [OF b] show ?thesis by (simp add: listing_def)
qed

section \<open>The invariant\<close>

definition same :: "registry \<Rightarrow> registry \<Rightarrow> bool" where
  "same old r \<longleftrightarrow> members old = members r"

text \<open>The pool against the registry it was built from (\<open>old\<close>), the published count and the signal.\<close>

definition shown :: "nat \<Rightarrow> registry \<Rightarrow> registry \<Rightarrow> bool" where
  "shown n old r \<longleftrightarrow> n \<le> reg_seq r \<and> (n = reg_seq r \<longrightarrow> same old r)"

definition told :: "registry \<Rightarrow> registry \<Rightarrow> bool" where
  "told old r \<longleftrightarrow> same old r \<or> reg_pending r"

fun progress :: "row set \<Rightarrow> main_pc \<Rightarrow> nat \<Rightarrow> registry \<Rightarrow> registry \<Rightarrow> bool" where
  "progress H (MP_Capture src) m old r \<longleftrightarrow> shown m old r"
| "progress H (MP_Get src n) m old r \<longleftrightarrow> shown m old r \<and> m \<le> n \<and> n \<le> reg_seq r"
| "progress H (MP_Push src n cfg) m old r \<longleftrightarrow> shown m old r \<and> m \<le> n \<and> n \<le> reg_seq r"
| "progress H (MP_Prune n cfg) m old r \<longleftrightarrow> shown m old r \<and> m \<le> n \<and> n \<le> reg_seq r"
| "progress H (MP_Build n cfg seen) m old r \<longleftrightarrow>
     shown m old r \<and> m \<le> n \<and> offers H seen \<and> shown n seen r \<and> told seen r"
| "progress H (MP_Level n c) m old r \<longleftrightarrow> m \<le> n \<and> shown n old r \<and> told old r"
| "progress H (MP_Publish n) m old r \<longleftrightarrow> m \<le> n \<and> shown n old r \<and> told old r"
| "progress H _ m old r \<longleftrightarrow> shown m old r \<and> told old r"

definition routed :: "url_parser \<Rightarrow> row set \<Rightarrow> process \<Rightarrow> bool" where
  "routed up H s \<longleftrightarrow> offers H (mn_reg s)
     \<and> (\<exists>old. offers H old \<and> listing up old (p_relays (gs_pool (g_st (mn_gw s))))
          \<and> progress H (mn_pc s) (mn_applied s) old (mn_reg s))"

lemma shown_announces: "shown n old r \<Longrightarrow> announces r r' \<Longrightarrow> shown n old r'"
  by (auto simp: shown_def same_def announces_def)

lemma told_announces: "told old r \<Longrightarrow> announces r r' \<Longrightarrow> told old r'"
  by (cases "reg_seq r = reg_seq r'") (auto simp: told_def same_def announces_def)

lemma progress_announces:
  assumes "progress H pc m old r" and "announces r r'"
  shows "progress H pc m old r'"
proof -
  from assms(2) have "reg_seq r \<le> reg_seq r'" by (simp add: announces_def)
  with assms show ?thesis by (cases pc) (auto intro: shown_announces told_announces)
qed

lemma shown_mono: "shown n old r \<Longrightarrow> m \<le> n \<Longrightarrow> shown m old r"
  by (auto simp: shown_def)

lemma shown_bound: "shown n old r \<Longrightarrow> n \<le> reg_seq r"
  by (simp add: shown_def)

lemma shown_now: "shown (reg_seq r) r r" "told r r"
  by (simp_all add: shown_def told_def same_def)

text \<open>A step that leaves the pool, the program point and the published count alone.\<close>

lemma routed_frame:
  assumes "routed up H s" and "offers H (mn_reg s')" and "announces (mn_reg s) (mn_reg s')"
    and "g_st (mn_gw s') = g_st (mn_gw s)" and "mn_pc s' = mn_pc s" and "mn_applied s' = mn_applied s"
  shows "routed up H s'"
proof -
  from assms(1) obtain old where "offers H old" "listing up old (p_relays (gs_pool (g_st (mn_gw s))))"
    "progress H (mn_pc s) (mn_applied s) old (mn_reg s)" unfolding routed_def by blast
  with assms(2-) progress_announces show ?thesis unfolding routed_def by metis
qed

text \<open>A step of the main goroutine that leaves the pool alone.\<close>

lemma routed_move:
  assumes "routed up H s" and "offers H (mn_reg s')" and "g_st (mn_gw s') = g_st (mn_gw s)"
    and "\<And>old. progress H (mn_pc s) (mn_applied s) old (mn_reg s)
           \<Longrightarrow> progress H (mn_pc s') (mn_applied s') old (mn_reg s')"
  shows "routed up H s'"
  using assms unfolding routed_def by metis

text \<open>A step that installs a pool.\<close>

lemma routed_install:
  assumes "offers H (mn_reg s)" and "offers H seen" and "listing up seen (p_relays (gs_pool (g_st (mn_gw s))))"
    and "progress H (mn_pc s) (mn_applied s) seen (mn_reg s)"
  shows "routed up H s"
  using assms unfolding routed_def by blast

lemma routed_boot: "routed up H (boot up addr version relayVersion raw loaded)"
proof -
  obtain ch w st where store: "poll raw loaded newDesiredStore = (ch, w, st)" by (rule prod_cases3)
  let ?r = "New (registry_settings (effective (ds_p st)))"
  obtain gs rs cc where b: "buildState up ?r ?r (effective (ds_p st)) (NewRuntimeState, empty_store) NewClientCache
      = (gs, rs, cc)" by (rule prod_cases3)
  have "reg_seq ?r = 0" by (simp add: New_def)
  with shown_now [of ?r] show ?thesis
    by (intro routed_install [of _ _ ?r])
       (simp_all add: boot_def store Let_def b New_gateway_def buildState_listing [OF b] offers_New)
qed

lemma take_announced:
  assumes "take_change r = Some r'"
  shows "reg_seq r' = reg_seq r" and "members r' = members r"
  using assms take_change_frame [of r] by (simp_all add: members_def fun_eq_iff)

lemma routed_select:
  assumes "select_step c s = Some s'" and "mn_pc s = MP_Select" and "routed up H s"
  shows "routed up H s'"
proof -
  have reg: "offers H (mn_reg s)" using assms(3) by (simp add: routed_def)
  show ?thesis
  proof (cases c)
    case CH_Changes
    with assms(1) obtain r where r: "take_change (mn_reg s) = Some r" "s' = s\<lparr>mn_reg := r, mn_pc := MP_Capture False\<rparr>"
      by (auto simp: select_step_def)
    show ?thesis
      by (rule routed_move [OF assms(3)])
         (use r assms(2) take_announced [OF r(1)] offers_take [OF reg r(1)] in \<open>simp_all add: shown_def same_def\<close>)
  next
    case CH_Reloaded
    with assms(1) have "s' = s\<lparr>mn_reloaded := False, mn_pc := MP_Capture True\<rparr>"
      by (simp add: select_step_def split: if_splits)
    then show ?thesis by (intro routed_move [OF assms(3)]) (use reg assms(2) in simp_all)
  next
    case CH_Err
    with assms(1) obtain e where "s' = s\<lparr>mn_err := None, mn_pc := MP_Flag (Some e)\<rparr>" by (auto simp: select_step_def)
    then show ?thesis by (intro routed_move [OF assms(3)]) (use reg assms(2) in simp_all)
  next
    case CH_Signal
    with assms(1) have "s' = s\<lparr>mn_sig := False, mn_pc := MP_Flag None\<rparr>" by (simp add: select_step_def split: if_splits)
    then show ?thesis by (intro routed_move [OF assms(3)]) (use reg assms(2) in simp_all)
  qed
qed

lemma settings_announce: "announces r (UpdateSettings c r)"
  using announces_apply [of "OpUpdateSettings c" r] by simp

lemma routed_apply:
  assumes "apply_step up (mn_pc s) s = Some s'" and "routed up H s"
  shows "routed up H s'"
proof -
  have reg: "offers H (mn_reg s)" using assms(2) by (simp add: routed_def)
  show ?thesis
  proof (cases "mn_pc s")
    case (MP_Build n cfg seen)
    obtain gs rs cc where b: "buildState up seen (mn_reg s) (effective cfg)
        (g_rt (mn_gw s), g_store (mn_gw s)) (mn_cc s) = (gs, rs, cc)" by (rule prod_cases3)
    with assms(1) MP_Build have s': "s' = s\<lparr>mn_gw := Swap gs ((mn_gw s)\<lparr>g_rt := fst rs, g_store := snd rs\<rparr>),
        mn_cc := cc, mn_pc := MP_Level n (effective cfg)\<rparr>" by simp
    from assms(2) MP_Build have "mn_applied s \<le> n \<and> offers H seen \<and> shown n seen (mn_reg s) \<and> told seen (mn_reg s)"
      unfolding routed_def by auto
    then show ?thesis
      by (intro routed_install [of _ _ seen]) (simp_all add: s' Swap_state reg buildState_listing [OF b])
  next
    case (MP_Push src n cfg)
    with assms(1) have s': "s' = s\<lparr>mn_reg := (if src then UpdateSettings (registry_settings (effective cfg)) (mn_reg s)
        else mn_reg s), mn_pc := MP_Prune n cfg\<rparr>" by simp
    have "announces (mn_reg s) (mn_reg s')" by (simp add: s' settings_announce)
    from progress_announces [OF _ this, where pc = "MP_Prune n cfg"] MP_Push offers_settings [OF reg] reg
    show ?thesis by (intro routed_move [OF assms(2)]) (simp_all add: s')
  next
    case (MP_Prune n cfg)
    with assms(1) have s': "s' = s\<lparr>mn_gw := (mn_gw s)\<lparr>g_rt := Prune (desiredIdentities cfg) (g_rt (mn_gw s))\<rparr>,
        mn_pc := MP_Build n cfg (mn_reg s)\<rparr>" by simp
    show ?thesis
      by (rule routed_move [OF assms(2)])
         (use reg MP_Prune in \<open>simp_all add: s' shown_def told_def same_def\<close>)
  next
    case (MP_Capture src)
    with assms(1) have s': "s' = s\<lparr>mn_pc := MP_Get src (NotifySeq (mn_reg s))\<rparr>" by simp
    show ?thesis
      by (rule routed_move [OF assms(2)]) (use reg MP_Capture in \<open>simp_all add: s' NotifySeq_def shown_def\<close>)
  next
    case (MP_Publish n)
    with assms(1) have s': "s' = s\<lparr>mn_applied := (if n > mn_applied s then n else mn_applied s), mn_pc := MP_Select\<rparr>"
      by simp
    show ?thesis
      by (rule routed_move [OF assms(2)]) (use reg MP_Publish in \<open>auto simp: s' shown_def\<close>)
  next
    case (MP_Get src n)
    with assms(1) have s': "s' = s\<lparr>mn_pc := MP_Push src n (desired s)\<rparr>" by simp
    show ?thesis by (rule routed_move [OF assms(2)]) (use reg MP_Get in \<open>simp_all add: s'\<close>)
  next
    case (MP_Level n c)
    with assms(1) have s': "s' = s\<lparr>mn_level := parseZerologLevel (se_logLevel c), mn_pc := MP_Publish n\<rparr>" by simp
    show ?thesis by (rule routed_move [OF assms(2)]) (use reg MP_Level in \<open>simp_all add: s'\<close>)
  qed (use assms(1) in simp_all)
qed

lemma routed_shutdown:
  assumes "shutdown_step (mn_pc s) s = Some s'" and "routed up H s"
  shows "routed up H s'"
proof -
  have reg: "offers H (mn_reg s)" using assms(2) by (simp add: routed_def)
  from assms(1) have "mn_reg s' = mn_reg s" "g_st (mn_gw s') = g_st (mn_gw s)" "mn_applied s' = mn_applied s"
    by (cases "mn_pc s"; auto simp: BeginDrain_def)+
  moreover from assms(1) have "progress H (mn_pc s') m old r = progress H (mn_pc s) m old r" for m old r
    by (cases "mn_pc s") auto
  ultimately show ?thesis by (intro routed_move [OF assms(2)]) (simp_all add: reg)
qed

text \<open>The calls of other goroutines the registry accepts.\<close>

fun op_fits :: "main_event \<Rightarrow> bool" where
  "op_fits (PE_Registry now x) = op_ok x"
| "op_fits e = True"

lemma routed_step:
  assumes "main_step up e s = Some s'" and "op_fits e" and "\<And>x. admission e = Some x \<Longrightarrow> x \<in> H" and "routed up H s"
  shows "routed up H s'"
proof -
  have reg: "offers H (mn_reg s)" using assms(4) by (simp add: routed_def)
  show ?thesis
  proof (cases e)
    case (PE_Registry now x)
    with assms(1) have may: "others_may x" and s': "s' = s\<lparr>mn_reg := reg_apply now x (mn_reg s)\<rparr>"
      by (auto split: if_splits)
    from may have "x \<noteq> OpTakeChange" by auto
    with announces_apply have "announces (mn_reg s) (mn_reg s')" by (simp add: s')
    moreover have "offers H (mn_reg s')" using offers_apply [OF reg] assms(2,3) PE_Registry by (simp add: s')
    ultimately show ?thesis by (intro routed_frame [OF assms(4)]) (simp_all add: s')
  next
    case (PE_Gateway x)
    with assms(1) have "gateway_may x" and s': "s' = s\<lparr>mn_gw := apply_other x (mn_gw s)\<rparr>" by (auto split: if_splits)
    then show ?thesis by (intro routed_frame [OF assms(4)]) (simp_all add: reg others_keep_state)
  next
    case PE_Apply
    with assms routed_apply show ?thesis by auto
  next
    case PE_Shutdown
    with assms routed_shutdown show ?thesis by auto
  next
    case (PE_Select c)
    with assms routed_select show ?thesis by (auto split: if_splits)
  next
    case (PE_Poll raw loaded)
    with assms(1) show ?thesis
      by (intro routed_frame [OF assms(4)]) (auto simp: reg Let_def split: if_splits prod.splits)
  next
    case (PE_Listen x)
    with assms(1) show ?thesis
      by (intro routed_move [OF assms(4)]) (auto simp: reg split: if_splits option.splits)
  qed (use assms(1) in \<open>(intro routed_frame [OF assms(4)]; auto simp: reg split: if_splits)+\<close>)
qed

lemma routed_exec:
  assumes "main_exec up es (boot up addr version relayVersion raw loaded) = Some s" and "list_all op_fits es"
  shows "routed up (admissions es) s"
proof (rule run_events_inv [where I = "routed up (admissions es)", OF assms(1) routed_boot])
  fix e a b
  assume e: "e \<in> set es" "main_step up e a = Some b" "routed up (admissions es) a"
  show "routed up (admissions es) b"
    by (rule routed_step [OF e(2) _ _ e(3)])
       (use e(1) assms(2) in \<open>auto simp: list_all_iff admissions_def\<close>)
qed

section \<open>What a request reaches\<close>

lemma progress_shown: "progress H pc m old r \<Longrightarrow> shown m old r"
  by (cases pc) (auto intro: shown_mono)

lemma picked_listed:
  assumes "fst (pick_and_begin key now g) = Some rl"
  shows "rl \<in> set (p_relays (gs_pool (g_st g)))"
proof -
  from assms have "fst (Pick (g_store g) now (g_rt g, gs_pool (g_st g)) key) = Some rl"
    by (auto simp: pick_and_begin_def Let_def split: prod.splits option.splits)
  from Pick_Some [OF this] pick_list_sub have "rl \<in> set (candidates (gs_pool (g_st g)) key)" by fastforce
  then show ?thesis by (simp add: candidates_def)
qed

lemma leg_token:
  assumes "parsed (rq_header r)"
  shows "vals (oq_header (out_request_of r rl body live)) HeaderToken = (if r_token rl = [] then [] else [r_token rl])"
  using vals_copyFiltered [OF assms, of "[]" HeaderToken]
  by (cases live) (auto simp: out_request_of_def Let_def vals_set stripped_iff)

lemma leg_url: "oq_url (out_request_of r rl body live) = r_url rl"
  by (cases live) (simp_all add: out_request_of_def Let_def)

text \<open>
  C26. Whatever the interleaving of polls, admissions, withdrawals, applies, requests and the shutdown since
  the boot: a request that picks a relay is sent to a URL that a \<open>Ready\<close> call admitted for exactly that
  relay and incarnation, and carries the relay key of that same call and no other.
\<close>

theorem request_leg_admitted:
  assumes "main_exec up es (boot up addr version relayVersion raw loaded) = Some s" and "list_all op_fits es"
    and "fst (pick_and_begin key now (mn_gw s)) = Some rl" and "parsed (rq_header r)"
  shows "\<exists>url token host u.
     (RelayKey (r_provider rl) (r_name rl), url, token, r_incarnation rl) \<in> admissions es
     \<and> up url = Some (host, u) \<and> host \<noteq> []
     \<and> oq_url (out_request_of r rl body live) = u
     \<and> vals (oq_header (out_request_of r rl body live)) HeaderToken = (if token = [] then [] else [token])"
proof -
  from routed_exec [OF assms(1,2)] obtain old where old: "offers (admissions es) old"
    "listing up old (p_relays (gs_pool (g_st (mn_gw s))))" unfolding routed_def by blast
  from listing_leg [OF old(2) picked_listed [OF assms(3)]] obtain sv where
    sv: "sv \<in> set (Serving old)" "leg_of up (sv_key sv, sv_url sv, sv_token sv, sv_version sv) rl" by blast
  obtain host u where "up (sv_url sv) = Some (host, u)" "host \<noteq> []" "r_url rl = u"
    using sv(2) by (auto simp: leg_of_def split: option.splits)
  moreover have "RelayKey (r_provider rl) (r_name rl) = sv_key sv" "r_token rl = sv_token sv"
    "r_incarnation rl = sv_version sv" using sv(2) by (simp_all add: leg_of_def key_of_relay_def)
  moreover note offers_row [OF old(1) sv(1)] leg_token [OF assms(4)]
  ultimately show ?thesis
    by (intro exI [of _ "sv_url sv"] exI [of _ "sv_token sv"] exI [of _ host] exI [of _ u]) (simp add: leg_url)
qed

section \<open>Exact pools\<close>

text \<open>The URL of an admitted row parses and has a host.\<close>

definition routable :: "url_parser \<Rightarrow> row \<Rightarrow> bool" where
  "routable up x = (case x of (k, url, token, g) \<Rightarrow> (case up url of None \<Rightarrow> False | Some (host, u) \<Rightarrow> host \<noteq> []))"

lemma offers_routable:
  assumes "offers H r" and "\<forall>x \<in> H. routable up x" and "s \<in> set (Serving r)"
  shows "\<exists>h u. up (sv_url s) = Some (h, u) \<and> h \<noteq> []"
  using offers_row [OF assms(1,3)] assms(2) by (fastforce simp: routable_def split: option.splits)

text \<open>
  C3. A published count that equals the registry's count vouches for the pool: it lists exactly the
  admitted relays with their incarnations, whatever is under way. So does an idle main goroutine with
  no change signalled. The URLs admitted are taken to parse.
\<close>

theorem published_pool_exact:
  assumes "main_exec up es (boot up addr version relayVersion raw loaded) = Some s" and "list_all op_fits es"
    and "\<forall>x \<in> admissions es. routable up x"
    and "mn_applied s = NotifySeq (mn_reg s) \<or> mn_pc s = MP_Select \<and> \<not> reg_pending (mn_reg s)"
  shows "pool_members (p_relays (gs_pool (g_st (mn_gw s)))) = members (mn_reg s)"
proof -
  from routed_exec [OF assms(1,2)] obtain old where old: "offers (admissions es) old"
    "listing up old (p_relays (gs_pool (g_st (mn_gw s))))"
    "progress (admissions es) (mn_pc s) (mn_applied s) old (mn_reg s)" unfolding routed_def by blast
  have "pool_members (p_relays (gs_pool (g_st (mn_gw s)))) = members old"
    using listing_members [OF old(2) offers_wf [OF old(1)]] offers_routable [OF old(1) assms(3)] by blast
  also from assms(4) have "members old = members (mn_reg s)"
  proof
    assume "mn_applied s = NotifySeq (mn_reg s)"
    with progress_shown [OF old(3)] show ?thesis by (simp add: shown_def same_def NotifySeq_def)
  next
    assume "mn_pc s = MP_Select \<and> \<not> reg_pending (mn_reg s)"
    with old(3) show ?thesis by (simp add: told_def same_def)
  qed
  finally show ?thesis .
qed

section \<open>The settle barrier\<close>

definition absent :: "relay_key \<Rightarrow> process \<Rightarrow> bool" where
  "absent k s \<longleftrightarrow> list_all (\<lambda>rl. key_of_relay rl \<noteq> k) (p_relays (gs_pool (g_st (mn_gw s))))"

fun clearing :: "relay_key \<Rightarrow> nat \<Rightarrow> main_pc \<Rightarrow> process \<Rightarrow> bool" where
  "clearing k t (MP_Get src n) s \<longleftrightarrow> mn_applied s \<le> n \<and> n \<le> reg_seq (mn_reg s)"
| "clearing k t (MP_Push src n cfg) s \<longleftrightarrow> mn_applied s \<le> n \<and> n \<le> reg_seq (mn_reg s)"
| "clearing k t (MP_Prune n cfg) s \<longleftrightarrow> mn_applied s \<le> n \<and> n \<le> reg_seq (mn_reg s)"
| "clearing k t (MP_Build n cfg seen) s \<longleftrightarrow>
     mn_applied s \<le> n \<and> n \<le> reg_seq (mn_reg s) \<and> (t \<le> n \<longrightarrow> reg_wf seen \<and> offer seen k = None)"
| "clearing k t (MP_Level n c) s \<longleftrightarrow> n \<le> reg_seq (mn_reg s) \<and> (t \<le> n \<longrightarrow> absent k s)"
| "clearing k t (MP_Publish n) s \<longleftrightarrow> n \<le> reg_seq (mn_reg s) \<and> (t \<le> n \<longrightarrow> absent k s)"
| "clearing k t _ s \<longleftrightarrow> True"

text \<open>Relay \<open>k\<close> was withdrawn by count \<open>t\<close> and has not been admitted since.\<close>

definition cleared :: "relay_key \<Rightarrow> nat \<Rightarrow> process \<Rightarrow> bool" where
  "cleared k t s \<longleftrightarrow> reg_wf (mn_reg s) \<and> offer (mn_reg s) k = None \<and> mn_applied s \<le> reg_seq (mn_reg s)
     \<and> (t \<le> mn_applied s \<longrightarrow> absent k s) \<and> clearing k t (mn_pc s) s"

definition readmits :: "relay_key \<Rightarrow> main_event \<Rightarrow> bool" where
  "readmits k e \<longleftrightarrow> (case admission e of None \<Rightarrow> False | Some (k', url, token, g) \<Rightarrow> k' = k)"

lemma same_offer: "same old r \<Longrightarrow> offer r k = None \<Longrightarrow> offer old k = None"
  by (auto simp: same_def members_def fun_eq_iff dest: spec [of _ k])

lemma cleared_start:
  assumes "routed up H s" and "offer (mn_reg s) k = None"
  shows "cleared k (reg_seq (mn_reg s)) s"
proof -
  let ?t = "reg_seq (mn_reg s)"
  from assms(1) obtain old where reg: "offers H (mn_reg s)" and old: "offers H old"
    "listing up old (p_relays (gs_pool (g_st (mn_gw s))))" "progress H (mn_pc s) (mn_applied s) old (mn_reg s)"
    unfolding routed_def by blast
  have out: "absent k s" if "shown n old (mn_reg s)" "?t \<le> n" for n
  proof -
    from that have "same old (mn_reg s)" by (simp add: shown_def)
    from listing_absent [OF old(2) offers_wf [OF old(1)] same_offer [OF this assms(2)]]
    show ?thesis by (simp add: absent_def list_all_iff)
  qed
  have gone: "reg_wf seen \<and> offer seen k = None" if "offers H seen" "shown n seen (mn_reg s)" "?t \<le> n" for n seen
    using that same_offer [OF _ assms(2), of seen] by (simp add: offers_wf shown_def)
  have "clearing k ?t (mn_pc s) s" using old(3) 
    by (cases "mn_pc s") (auto intro: out shown_bound dest: gone)
  moreover note progress_shown [OF old(3)]
  ultimately show ?thesis using out [of "mn_applied s"] assms(2) offers_wf [OF reg]
    by (simp add: cleared_def) (simp add: shown_def)
qed

lemma clearing_frame:
  assumes "clearing k t pc s" and "g_st (mn_gw s') = g_st (mn_gw s)" and "mn_applied s' = mn_applied s"
    and "reg_seq (mn_reg s) \<le> reg_seq (mn_reg s')"
  shows "clearing k t pc s'"
  using assms by (cases pc) (auto simp: absent_def)

lemma cleared_frame:
  assumes "cleared k t s" and "reg_wf (mn_reg s')" and "offer (mn_reg s') k = None"
    and "reg_seq (mn_reg s) \<le> reg_seq (mn_reg s')" and "g_st (mn_gw s') = g_st (mn_gw s)"
    and "mn_applied s' = mn_applied s" and "clearing k t (mn_pc s') s"
  shows "cleared k t s'"
  using assms clearing_frame [OF assms(7,5,6,4)] by (auto simp: cleared_def absent_def)

lemma cleared_reg: "cleared k t s \<Longrightarrow> reg_wf (mn_reg s) \<and> offer (mn_reg s) k = None \<and> mn_applied s \<le> reg_seq (mn_reg s)"
  by (simp add: cleared_def)

lemma cleared_select:
  assumes "select_step c s = Some s'" and "cleared k t s"
  shows "cleared k t s'"
proof -
  note reg = cleared_reg [OF assms(2)]
  show ?thesis
  proof (cases c)
    case CH_Changes
    with assms(1) obtain r where r: "take_change (mn_reg s) = Some r" "s' = s\<lparr>mn_reg := r, mn_pc := MP_Capture False\<rparr>"
      by (auto simp: select_step_def)
    from r(1) reg have "reg_wf r" "offer r k = None" "reg_seq r = reg_seq (mn_reg s)"
      using reg_apply_wf [of "mn_reg s" OpTakeChange 0] take_change_frame [of "mn_reg s"] by simp_all
    then show ?thesis by (intro cleared_frame [OF assms(2)]) (simp_all add: r(2))
  next
    case CH_Reloaded
    with assms(1) have "s' = s\<lparr>mn_reloaded := False, mn_pc := MP_Capture True\<rparr>"
      by (simp add: select_step_def split: if_splits)
    then show ?thesis by (intro cleared_frame [OF assms(2)]) (use reg in simp_all)
  next
    case CH_Err
    with assms(1) obtain e where "s' = s\<lparr>mn_err := None, mn_pc := MP_Flag (Some e)\<rparr>" by (auto simp: select_step_def)
    then show ?thesis by (intro cleared_frame [OF assms(2)]) (use reg in simp_all)
  next
    case CH_Signal
    with assms(1) have "s' = s\<lparr>mn_sig := False, mn_pc := MP_Flag None\<rparr>" by (simp add: select_step_def split: if_splits)
    then show ?thesis by (intro cleared_frame [OF assms(2)]) (use reg in simp_all)
  qed
qed

lemma cleared_apply:
  assumes "apply_step up (mn_pc s) s = Some s'" and "cleared k t s"
  shows "cleared k t s'"
proof -
  note reg = cleared_reg [OF assms(2)]
  from assms(2) have clr: "clearing k t (mn_pc s) s" and out: "t \<le> mn_applied s \<Longrightarrow> absent k s"
    by (simp_all add: cleared_def)
  show ?thesis
  proof (cases "mn_pc s")
    case (MP_Build n cfg seen)
    obtain gs rs cc where b: "buildState up seen (mn_reg s) (effective cfg)
        (g_rt (mn_gw s), g_store (mn_gw s)) (mn_cc s) = (gs, rs, cc)" by (rule prod_cases3)
    with assms(1) MP_Build have s': "s' = s\<lparr>mn_gw := Swap gs ((mn_gw s)\<lparr>g_rt := fst rs, g_store := snd rs\<rparr>),
        mn_cc := cc, mn_pc := MP_Level n (effective cfg)\<rparr>" by simp
    from clr MP_Build have n: "mn_applied s \<le> n" "n \<le> reg_seq (mn_reg s)" "t \<le> n \<Longrightarrow> reg_wf seen \<and> offer seen k = None" by simp_all
    have "absent k s'" if "t \<le> n"
      using listing_absent [OF buildState_listing [OF b]] n(3) [OF that]
      by (simp add: s' absent_def list_all_iff Swap_state)
    with n(1,2) reg show ?thesis by (simp add: s' cleared_def)
  next
    case (MP_Push src n cfg)
    with assms(1) have s': "s' = s\<lparr>mn_reg := (if src then UpdateSettings (registry_settings (effective cfg)) (mn_reg s)
        else mn_reg s), mn_pc := MP_Prune n cfg\<rparr>" by simp
    have "reg_wf (mn_reg s') \<and> offer (mn_reg s') k = None \<and> reg_seq (mn_reg s) \<le> reg_seq (mn_reg s')"
      using reg reg_apply_wf [of "mn_reg s" "OpUpdateSettings (registry_settings (effective cfg))" 0]
        settings_announce [of "mn_reg s" "registry_settings (effective cfg)"] by (simp add: s' announces_def)
    with clr MP_Push show ?thesis by (intro cleared_frame [OF assms(2)]) (simp_all add: s')
  next
    case (MP_Prune n cfg)
    with assms(1) have s': "s' = s\<lparr>mn_gw := (mn_gw s)\<lparr>g_rt := Prune (desiredIdentities cfg) (g_rt (mn_gw s))\<rparr>,
        mn_pc := MP_Build n cfg (mn_reg s)\<rparr>" by simp
    from clr MP_Prune reg show ?thesis by (intro cleared_frame [OF assms(2)]) (simp_all add: s')
  next
    case (MP_Capture src)
    with assms(1) have s': "s' = s\<lparr>mn_pc := MP_Get src (NotifySeq (mn_reg s))\<rparr>" by simp
    from reg show ?thesis by (intro cleared_frame [OF assms(2)]) (simp_all add: s' NotifySeq_def)
  next
    case (MP_Publish n)
    with assms(1) have s': "s' = s\<lparr>mn_applied := (if n > mn_applied s then n else mn_applied s), mn_pc := MP_Select\<rparr>"
      by simp
    from clr MP_Publish out have "n \<le> reg_seq (mn_reg s)" and "t \<le> mn_applied s' \<Longrightarrow> absent k s"
      by (simp_all add: s' split: if_splits)
    with reg show ?thesis by (simp add: s' cleared_def absent_def)
  next
    case (MP_Get src n)
    with assms(1) have s': "s' = s\<lparr>mn_pc := MP_Push src n (desired s)\<rparr>" by simp
    from clr MP_Get reg show ?thesis by (intro cleared_frame [OF assms(2)]) (simp_all add: s')
  next
    case (MP_Level n c)
    with assms(1) have s': "s' = s\<lparr>mn_level := parseZerologLevel (se_logLevel c), mn_pc := MP_Publish n\<rparr>" by simp
    from clr MP_Level reg show ?thesis by (intro cleared_frame [OF assms(2)]) (simp_all add: s')
  qed (use assms(1) in simp_all)
qed

lemma cleared_step:
  assumes "main_step up e s = Some s'" and "op_fits e" and "\<not> readmits k e" and "cleared k t s"
  shows "cleared k t s'"
proof -
  note reg = cleared_reg [OF assms(4)]
  from assms(4) have clr: "clearing k t (mn_pc s) s" by (simp add: cleared_def)
  show ?thesis
  proof (cases e)
    case (PE_Registry now x)
    with assms(1) have may: "others_may x" and s': "s' = s\<lparr>mn_reg := reg_apply now x (mn_reg s)\<rparr>"
      by (auto split: if_splits)
    from may have "x \<noteq> OpTakeChange" by auto
    with announces_apply have seq: "reg_seq (mn_reg s) \<le> reg_seq (mn_reg s')" by (simp add: s' announces_def)
    have wf: "reg_wf (mn_reg s')" using reg assms(2) PE_Registry by (simp add: s' reg_apply_wf)
    have "offer (mn_reg s') k = None"
    proof (cases x rule: ready_op_cases)
      case (ready k' g u t' d)
      with assms(3) PE_Registry have "k' \<noteq> k" by (simp add: readmits_def)
      with ready reg show ?thesis by (simp add: s' Ready_offer)
    next
      case other
      from narrows_apply [OF _ this, of "mn_reg s" now] reg show ?thesis by (auto simp: s' narrows_def)
    qed
    with wf seq clr show ?thesis by (intro cleared_frame [OF assms(4)]) (simp_all add: s')
  next
    case (PE_Gateway x)
    with assms(1) have "gateway_may x" and s': "s' = s\<lparr>mn_gw := apply_other x (mn_gw s)\<rparr>" by (auto split: if_splits)
    with reg clr show ?thesis by (intro cleared_frame [OF assms(4)]) (simp_all add: others_keep_state)
  next
    case PE_Apply
    with assms cleared_apply show ?thesis by auto
  next
    case PE_Shutdown
    with assms(1) have "mn_reg s' = mn_reg s" "g_st (mn_gw s') = g_st (mn_gw s)" "mn_applied s' = mn_applied s"
      "clearing k t (mn_pc s') s"
      by (cases "mn_pc s"; auto simp: BeginDrain_def)+
    with reg show ?thesis by (intro cleared_frame [OF assms(4)]) simp_all
  next
    case (PE_Select c)
    with assms cleared_select show ?thesis by (auto split: if_splits)
  next
    case (PE_Poll raw loaded)
    with assms(1) reg clr show ?thesis
      by (intro cleared_frame [OF assms(4)]) (auto simp: Let_def split: if_splits prod.splits)
  next
    case (PE_Listen x)
    with assms(1) reg show ?thesis
      by (intro cleared_frame [OF assms(4)]) (auto split: if_splits option.splits)
  qed (use assms(1) reg clr in \<open>(intro cleared_frame [OF assms(4)]; auto split: if_splits)+\<close>)
qed

text \<open>
  C5. The settle barrier in the running process. Let a relay be withdrawn at some moment, with the
  registry's count as \<open>target\<close> as \<open>rollout\<close> reads it. Whatever follows, with applies in any phase at
  either end: once the published count has reached the target and the relay has not been admitted
  again, no request can pick it.
\<close>

theorem published_withdrawal_holds:
  assumes "main_exec up es (boot up addr version relayVersion raw loaded) = Some s" and "\<not> IsReady (mn_reg s) k"
    and "main_exec up es' s = Some s'" and "list_all op_fits (es @ es')" and "list_all (\<lambda>e. \<not> readmits k e) es'"
    and "NotifySeq (mn_reg s) \<le> mn_applied s'"
  shows "case fst (pick_and_begin key now (mn_gw s')) of
           None \<Rightarrow> True | Some rl \<Rightarrow> RelayKey (r_provider rl) (r_name rl) \<noteq> k"
proof -
  let ?t = "reg_seq (mn_reg s)"
  have "routed up (admissions es) s" using assms(4) by (intro routed_exec [OF assms(1)]) simp
  moreover from assms(2) have "offer (mn_reg s) k = None" unfolding IsReady_offer by blast
  ultimately have start: "cleared k ?t s" by (rule cleared_start)
  have "cleared k ?t s'"
  proof (rule run_events_inv [where I = "cleared k ?t", OF assms(3) start])
    fix e a b
    assume e: "e \<in> set es'" "main_step up e a = Some b" "cleared k ?t a"
    show "cleared k ?t b"
      by (rule cleared_step [OF e(2) _ _ e(3)]) (use e(1) assms(4,5) in \<open>auto simp: list_all_iff\<close>)
  qed
  with assms(6) have "absent k s'" by (simp add: cleared_def NotifySeq_def)
  then show ?thesis
    using picked_listed [of key now "mn_gw s'"]
    by (auto simp: absent_def list_all_iff key_of_relay_def split: option.split)
qed

section \<open>Runs that exist\<close>

definition apply_pass :: "main_event list" where
  "apply_pass = PE_Select CH_Changes # replicate 7 PE_Apply"

text \<open>One undisturbed apply: the signal taken, the pool rebuilt, the count published.\<close>

lemma apply_pass_run:
  assumes "mn_pc s = MP_Select" and "reg_pending (mn_reg s)"
  shows "\<exists>s'. main_exec up apply_pass s = Some s' \<and> mn_pc s' = MP_Select
     \<and> mn_reg s' = (mn_reg s)\<lparr>reg_pending := False\<rparr> \<and> mn_applied s' = max (mn_applied s) (reg_seq (mn_reg s))
     \<and> listing up (mn_reg s') (p_relays (gs_pool (g_st (mn_gw s'))))"
proof -
  let ?r = "(mn_reg s)\<lparr>reg_pending := False\<rparr>" and ?c = "effective (desired s)"
  let ?rt = "Prune (desiredIdentities (desired s)) (g_rt (mn_gw s))"
  obtain gs rs cc where b: "buildState up ?r ?r ?c (?rt, g_store (mn_gw s)) (mn_cc s) = (gs, rs, cc)"
    by (rule prod_cases3)
  have "take_change (mn_reg s) = Some ?r" using assms(2) by (simp add: take_change_def)
  with assms(1) b show ?thesis
    by (simp add: apply_pass_def select_step_def NotifySeq_def numeral_eq_Suc Let_def Swap_state
        buildState_listing [OF b])
qed

text \<open>The history of \<^theory_text>\<open>Registry_Properties\<close> in a process that booted without a file, then a withdrawal.\<close>

definition w_start :: process where
  "w_start = boot w_url '':8080'' ''1'' ''2'' (Inl ''no such file'') (Inl ''no such file'')"

definition w_admission :: "main_event list" where
  "w_admission = map (\<lambda>(now, x). PE_Registry now x) w_admit @ [PE_Listen None]"

lemma w_start_state: "mn_pc w_start = MP_Listen" "mn_reg w_start = New w_settings" "mn_applied w_start = 0"
  by (simp_all add: w_start_def boot_def Let_def split_beta poll_def newDesiredStore_def effective_def
      registry_settings_def defaultSettings_def New_def w_settings_def second_def)

lemma reg_events_run:
  assumes "list_all (\<lambda>x. others_may (snd x)) ops"
  shows "main_exec up (map (\<lambda>(now, x). PE_Registry now x) ops) s = Some (s\<lparr>mn_reg := reg_run ops (mn_reg s)\<rparr>)"
  using assms by (induction ops arbitrary: s) (auto simp: split_beta)

lemma w_admission_run:
  "main_exec w_url w_admission w_start = Some (w_start\<lparr>mn_reg := w_admitted, mn_pc := MP_Select\<rparr>)"
proof -
  have "list_all (\<lambda>x. others_may (snd x)) w_admit" by (simp add: w_admit_def)
  from reg_events_run [OF this, of w_url w_start] show ?thesis
    by (simp add: w_admission_def run_events_append w_start_state w_admitted_def)
qed

lemma w_admission_facts:
  "list_all op_fits (w_admission @ apply_pass)"
  "admissions (w_admission @ apply_pass) = {(w_relay_key, ''https://edge.deno.dev'', ''secret'', 1)}"
  "routable w_url (w_relay_key, ''https://edge.deno.dev'', ''secret'', 1)"
  by (auto simp: w_admission_def w_admit_def apply_pass_def admissions_def routable_def w_url_def has_prefix_def
      list_all_iff)

lemma Serving_pending [simp]: "Serving (r\<lparr>reg_pending := b\<rparr>) = Serving r"
  by (simp add: Serving_def)

lemma w_serving_run:
  "\<exists>s. main_exec w_url (w_admission @ apply_pass) w_start = Some s \<and> mn_pc s = MP_Select
     \<and> mn_reg s = w_admitted\<lparr>reg_pending := False\<rparr> \<and> mn_applied s = reg_seq w_admitted
     \<and> (\<exists>rl. fst (pick_and_begin KeyAll 20 (mn_gw s)) = Some rl)"
proof -
  let ?a = "w_start\<lparr>mn_reg := w_admitted, mn_pc := MP_Select\<rparr>"
  have "reg_pending (mn_reg ?a)" by (simp add: w_admitted_eq)
  from apply_pass_run [OF _ this, of w_url] w_start_state obtain s where
    s: "main_exec w_url apply_pass ?a = Some s" "mn_pc s = MP_Select" "mn_reg s = w_admitted\<lparr>reg_pending := False\<rparr>"
    "mn_applied s = reg_seq w_admitted" "listing w_url (mn_reg s) (p_relays (gs_pool (g_st (mn_gw s))))" by auto
  have "relay_inputs w_url (Serving (mn_reg s)) \<noteq> []"
    using w_admitted_urls by (auto simp: s(3) w_admitted_serving)
  with s(5) have "p_relays (gs_pool (g_st (mn_gw s))) \<noteq> []" unfolding listing_def by auto
  then have "candidates (gs_pool (g_st (mn_gw s))) KeyAll \<noteq> []" by (simp add: candidates_def)
  with Pick_None [of "g_store (mn_gw s)" 20 "(g_rt (mn_gw s), gs_pool (g_st (mn_gw s)))" KeyAll]
  have "\<exists>rl. fst (pick_and_begin KeyAll 20 (mn_gw s)) = Some rl"
    by (auto simp: pick_and_begin_def Let_def split: prod.splits option.splits)
  with s w_admission_run show ?thesis by (simp add: run_events_append)
qed

theorem request_leg_admitted_witness:
  "\<exists>s rl. main_exec w_url (w_admission @ apply_pass) w_start = Some s
     \<and> fst (pick_and_begin KeyAll 20 (mn_gw s)) = Some rl
     \<and> oq_url (out_request_of w_request rl ''data'' None) = ''https://edge.deno.dev''"
proof -
  obtain s rl where s: "main_exec w_url (w_admission @ apply_pass) w_start = Some s"
    "fst (pick_and_begin KeyAll 20 (mn_gw s)) = Some rl" using w_serving_run by blast
  have "parsed (rq_header w_request)" by code_simp
  from request_leg_admitted [OF s(1) [unfolded w_start_def] w_admission_facts(1) s(2) this, of "''data''" None] s
  show ?thesis by (auto simp: w_admission_facts(2) w_url_def has_prefix_def)
qed

theorem published_pool_exact_witness:
  "\<exists>s. main_exec w_url (w_admission @ apply_pass) w_start = Some s
     \<and> pool_members (p_relays (gs_pool (g_st (mn_gw s)))) w_relay_key = Some 1"
proof -
  obtain s where s: "main_exec w_url (w_admission @ apply_pass) w_start = Some s"
    "mn_reg s = w_admitted\<lparr>reg_pending := False\<rparr>" "mn_applied s = reg_seq w_admitted" using w_serving_run by blast
  have "pool_members (p_relays (gs_pool (g_st (mn_gw s)))) = members (mn_reg s)"
    by (rule published_pool_exact [OF s(1) [unfolded w_start_def] w_admission_facts(1)])
       (simp_all only: w_admission_facts(2,3) s(2,3) NotifySeq_def, simp_all add: w_admission_facts(3) [simplified])
  moreover have "offer w_admitted w_relay_key = Some (''https://edge.deno.dev'', ''secret'', 1)"
    by (simp add: offer_def w_admitted_get) (simp add: entry_offer_def w_entry_def)
  ultimately show ?thesis using s(1) by (simp add: s(2) members_def)
qed

definition w_withdrawal :: "main_event list" where
  "w_withdrawal = [PE_Registry 9 (OpPause w_relay_key 1 ''suspended'')]"

theorem published_withdrawal_holds_witness:
  "\<exists>s s'. main_exec w_url ((w_admission @ apply_pass) @ w_withdrawal) w_start = Some s
     \<and> main_exec w_url apply_pass s = Some s' \<and> mn_applied s < mn_applied s'
     \<and> (case fst (pick_and_begin KeyAll 20 (mn_gw s')) of
          None \<Rightarrow> True | Some rl \<Rightarrow> RelayKey (r_provider rl) (r_name rl) \<noteq> w_relay_key)"
proof -
  obtain a where a: "main_exec w_url (w_admission @ apply_pass) w_start = Some a" "mn_pc a = MP_Select"
    "mn_reg a = w_admitted\<lparr>reg_pending := False\<rparr>" "mn_applied a = reg_seq w_admitted" using w_serving_run by blast
  let ?r = "reg_apply 9 (OpPause w_relay_key 1 ''suspended'') (w_admitted\<lparr>reg_pending := False\<rparr>)"
  let ?s = "a\<lparr>mn_reg := ?r\<rparr>"
  have r: "\<not> IsReady ?r w_relay_key" "reg_pending ?r" "reg_seq ?r = 4" "reg_seq w_admitted = 3" by code_simp+
  have run: "main_exec w_url ((w_admission @ apply_pass) @ w_withdrawal) w_start = Some ?s"
    using a by (subst run_events_append) (simp add: w_withdrawal_def)
  from apply_pass_run [of ?s w_url] a(2,4) r obtain s' where
    s': "main_exec w_url apply_pass ?s = Some s'" "mn_applied s' = 4" by auto
  have "case fst (pick_and_begin KeyAll 20 (mn_gw s')) of
      None \<Rightarrow> True | Some rl \<Rightarrow> RelayKey (r_provider rl) (r_name rl) \<noteq> w_relay_key"
  proof (rule published_withdrawal_holds [OF run [unfolded w_start_def] _ s'(1)])
    show "\<not> IsReady (mn_reg ?s) w_relay_key" "NotifySeq (mn_reg ?s) \<le> mn_applied s'"
      using r s'(2) by (simp_all add: NotifySeq_def)
    show "list_all op_fits (((w_admission @ apply_pass) @ w_withdrawal) @ apply_pass)"
      using w_admission_facts(1) by (simp add: w_withdrawal_def)
    show "list_all (\<lambda>e. \<not> readmits w_relay_key e) apply_pass" by (simp add: apply_pass_def readmits_def list_all_iff)
  qed
  with run s' a(4) r(4) show ?thesis by (intro exI [of _ ?s] exI [of _ s']) simp
qed

end
