(* ===== verification/Sanitize_Properties.thy ===== *)
theory Sanitize_Properties
  imports Sanitize
begin

text \<open>
  What the sanitizer promises of every diagnostic: a single bounded line without terminal
  controls, and that two kinds of private text, the userinfo of a URL and a quoted URL, have no
  influence on what is left.
\<close>

section \<open>Runes\<close>

text \<open>A rune that \<open>range\<close> yields: one ASCII byte, or bytes outside ASCII.\<close>

definition rune_shape :: "string \<Rightarrow> bool" where
  "rune_shape w \<longleftrightarrow> (\<exists>c. w = [c] \<and> byte c < 128) \<or> list_all (\<lambda>c. 128 \<le> byte c) w"

definition whole_rune :: "string \<Rightarrow> bool" where
  "whole_rune w \<longleftrightarrow> w \<noteq> [] \<and> (\<forall>t. rune_width (w @ t) = length w)"

lemma whole_rune_error: "whole_rune rune_error" "rune_shape rune_error"
  by (simp_all add: whole_rune_def rune_shape_def rune_error_def rune_width_def second_byte_ok_def is_cont_def)

lemma rune_widths:
  "byte c < 128 \<Longrightarrow> rune_width (c # t) = 1"
  "194 \<le> byte c \<Longrightarrow> byte c \<le> 223 \<Longrightarrow> is_cont d \<Longrightarrow> rune_width (c # d # t) = 2"
  "224 \<le> byte c \<Longrightarrow> byte c \<le> 239 \<Longrightarrow> second_byte_ok (byte c) d \<Longrightarrow> is_cont e \<Longrightarrow> rune_width (c # d # e # t) = 3"
  "240 \<le> byte c \<Longrightarrow> byte c \<le> 244 \<Longrightarrow> second_byte_ok (byte c) d \<Longrightarrow> is_cont e \<Longrightarrow> is_cont f
    \<Longrightarrow> rune_width (c # d # e # f # t) = 4"
  by (simp_all add: rune_width_def)

lemma continuation_high: "is_cont d \<Longrightarrow> 128 \<le> byte d" "second_byte_ok b d \<Longrightarrow> 128 \<le> byte d"
  by (auto simp: is_cont_def second_byte_ok_def split: if_splits)

lemma rune_width_form:
  assumes "rune_width s \<noteq> 0"
  shows "(\<exists>c t. s = c # t \<and> byte c < 128)
     \<or> (\<exists>c d t. s = c # d # t \<and> 194 \<le> byte c \<and> byte c \<le> 223 \<and> is_cont d)
     \<or> (\<exists>c d e t. s = c # d # e # t \<and> 224 \<le> byte c \<and> byte c \<le> 239 \<and> second_byte_ok (byte c) d \<and> is_cont e)
     \<or> (\<exists>c d e f t. s = c # d # e # f # t \<and> 240 \<le> byte c \<and> byte c \<le> 244 \<and> second_byte_ok (byte c) d \<and> is_cont e
          \<and> is_cont f)"
  using assms by (auto simp: rune_width_def Let_def split: list.splits if_splits)

lemma rune_width_cases:
  assumes "rune_width s \<noteq> 0"
  shows "whole_rune (take (rune_width s) s) \<and> rune_shape (take (rune_width s) s)"
  using rune_width_form [OF assms]
  by (elim disjE exE conjE)
     (simp_all add: rune_widths whole_rune_def rune_shape_def continuation_high)

lemma runes_whole: "w \<in> set (runes s) \<Longrightarrow> whole_rune w \<and> rune_shape w"
proof (induction s rule: runes.induct)
  case (1 s)
  show ?case
  proof (cases "s = [] \<or> rune_width s = 0")
    case True
    with 1 show ?thesis by (auto simp: runes.simps [of s] whole_rune_error split: if_splits)
  next
    case False
    with 1 rune_width_cases [of s] show ?thesis by (auto simp: runes.simps [of s])
  qed
qed

lemma runes_append: "whole_rune w \<Longrightarrow> runes (w @ t) = w # runes t"
  by (simp add: runes.simps [of "w @ t"] whole_rune_def)

lemma runes_concat: "list_all whole_rune ws \<Longrightarrow> runes (concat ws @ t) = ws @ runes t"
  by (induction ws) (simp_all add: runes_append)

lemma rune_count_le_length: "rune_count s \<le> length s"
  unfolding rune_count_def
proof (induction s rule: runes.induct)
  case (1 s)
  show ?case
  proof (cases "s = [] \<or> rune_width s = 0")
    case True
    with 1(1) show ?thesis by (cases s) (auto simp: runes.simps [of "a # t" for a t])
  next
    case False
    with rune_width_cases [of s] have "take (rune_width s) s \<noteq> []" by (simp add: whole_rune_def)
    then have "0 < length s" by auto
    moreover have "length (runes (drop (rune_width s) s)) \<le> length s - rune_width s" using 1(2) False by simp
    ultimately have "Suc (length (runes (drop (rune_width s) s))) \<le> length s" using False by linarith
    then show ?thesis using False by (simp add: runes.simps [of s])
  qed
qed

section \<open>One clean bounded line\<close>

definition printable :: "string \<Rightarrow> bool" where
  "printable s \<longleftrightarrow> list_all (\<lambda>c. \<not> is_control c) s"

lemma printable_append [simp]: "printable (s @ t) \<longleftrightarrow> printable s \<and> printable t"
  by (simp add: printable_def)

lemma printable_concat: "printable (concat ws) \<longleftrightarrow> list_all printable ws"
  by (induction ws) (simp_all add: printable_def)

lemma clean_rune_printable: "rune_shape w \<Longrightarrow> printable (clean_rune w)"
proof -
  assume w: "rune_shape w"
  have high: "128 \<le> byte c \<Longrightarrow> \<not> is_control c" for c by (simp add: is_control_def)
  show ?thesis
  proof (cases "\<exists>c. w = [c]")
    case True
    then show ?thesis by (auto simp: clean_rune_def printable_def is_control_def)
  next
    case False
    with w have "list_all (\<lambda>c. 128 \<le> byte c) w" by (auto simp: rune_shape_def)
    then have "printable w" by (auto simp: printable_def list_all_iff high)
    moreover have "clean_rune w = w" using False by (auto simp: clean_rune_def split: list.splits)
    ultimately show ?thesis by simp
  qed
qed

lemma cleanControls_printable: "printable (cleanControls v)"
  unfolding cleanControls_def printable_concat by (auto simp: list_all_iff clean_rune_printable runes_whole)

lemma rune_printable:
  assumes "printable s"
  shows "list_all printable (runes s)"
  using assms
proof (induction s rule: runes.induct)
  case (1 s)
  have "printable (drop n s)" "printable (take n s)" for n
    using 1(3) by (auto simp: printable_def list_all_iff dest: in_set_dropD in_set_takeD)
  moreover have "printable rune_error" by (simp add: printable_def rune_error_def is_control_def)
  ultimately show ?case using 1(1,2) by (simp add: runes.simps [of s])
qed

lemma whole_runes: "list_all whole_rune (take n (runes s))"
  using runes_whole [of _ s] by (auto simp: list_all_iff dest: in_set_takeD)

lemma ellipsis_rune: "whole_rune ellipsis" "printable ellipsis"
  by (simp_all add: whole_rune_def ellipsis_def rune_width_def second_byte_ok_def is_cont_def printable_def
      is_control_def)

lemma bound_printable: "printable v \<Longrightarrow> printable (bound v)"
  using rune_printable [of v]
  by (auto simp: bound_def printable_concat ellipsis_rune list_all_iff dest: in_set_takeD)

lemma bound_count: "rune_count (bound v) \<le> MaxLength + 1"
proof (cases "rune_count v \<le> MaxLength")
  case False
  have "runes (concat (take MaxLength (runes v)) @ ellipsis) = take MaxLength (runes v) @ [ellipsis]"
    using runes_concat [OF whole_runes, of MaxLength v ellipsis] runes_append [OF ellipsis_rune(1), of "[]"] by simp
  with False show ?thesis by (simp add: bound_def rune_count_def)
qed (simp add: bound_def)

text \<open>
  C10. Every diagnostic leaves as one line: no byte of it is a terminal control, an escape or a line
  break, and it is at most 512 runes and the ellipsis, whichever path it took and however
  malformed its bytes were.
\<close>

theorem sanitized_is_one_clean_line:
  "printable (sanitize s) \<and> rune_count (sanitize s) \<le> MaxLength + 1"
proof (cases "needsSanitizing s")
  case True
  then show ?thesis
    using bound_count bound_printable [OF cleanControls_printable] by (simp add: sanitize_def full_pass_def)
next
  case False
  then have "printable s" and "length s \<le> MaxLength"
    by (auto simp: needsSanitizing_def printable_def list_all_iff list_ex_iff)
  with False rune_count_le_length [of s] show ?thesis by (simp add: sanitize_def)
qed

section \<open>Searching around a separator\<close>

lemma has_prefix_separated: "c \<notin> set p \<Longrightarrow> has_prefix p (x @ c # b) = has_prefix p x"
proof -
  assume c: "c \<notin> set p"
  show ?thesis
  proof (cases "length p \<le> length x")
    case True
    then show ?thesis by (simp add: has_prefix_def)
  next
    case False
    then obtain n where n: "length p - length x = Suc n" by (metis Suc_diff_Suc not_le)
    then have "c \<in> set (take (length p) (x @ c # b))" by simp
    with c have "\<not> has_prefix p (x @ c # b)" by (metis has_prefix_def)
    moreover have "\<not> has_prefix p x" using False by (auto simp: has_prefix_def dest: arg_cong [of _ _ length])
    ultimately show ?thesis by simp
  qed
qed

lemma index_of_separated:
  assumes "c \<notin> set p" and "p \<noteq> []"
  shows "index_of p (a @ c # b) =
     (case index_of p a of Some i \<Rightarrow> Some i | None \<Rightarrow> map_option (\<lambda>i. i + Suc (length a)) (index_of p b))"
proof (induction a)
  case Nil
  have "\<not> has_prefix p (c # b)" using has_prefix_separated [OF assms(1), of "[]" b] assms(2) by (simp add: has_prefix_def)
  with assms show ?case by (simp add: option.map_comp comp_def)
next
  case (Cons x a)
  with has_prefix_separated [OF assms(1), of "x # a" b] show ?case
    by (auto simp: option.map_comp comp_def split: option.splits)
qed

lemma index_of_here: "p \<noteq> [] \<Longrightarrow> index_of p (p @ b) = Some 0"
  by (cases p) (auto simp: has_prefix_def)

lemma contains_around: "contains q p \<Longrightarrow> contains (x @ q @ y) p"
proof -
  assume q: "contains q p"
  have tail: "contains s p \<Longrightarrow> contains (c # s) p" for c s by (auto simp: contains_def)
  have "contains (q @ y) p"
    using q
  proof (induction q)
    case Nil
    then have "p = []" by (auto simp: contains_def split: if_splits)
    then show ?case by (cases y) (auto simp: contains_def has_prefix_def)
  next
    case (Cons c q)
    show ?case
    proof (cases "has_prefix p (c # q)")
      case True
      then obtain r where "c # q = p @ r" by (metis has_prefix_def append_take_drop_id)
      then have "has_prefix p ((c # q) @ y)" by (simp add: has_prefix_def)
      then show ?thesis by (simp add: contains_def)
    next
      case False
      with Cons show ?thesis by (auto simp: contains_def)
    qed
  qed
  then show ?thesis by (induction x) (auto intro: tail)
qed

section \<open>Userinfo\<close>

text \<open>A byte that ends a URL token splits the work.\<close>

lemma ends_token_scheme: "ends_token c \<Longrightarrow> c \<notin> set ''://''"
  by (auto simp: ends_token_def)

lemma token_split:
  assumes "ends_token c"
  shows "url_token (x @ c # b) = url_token x" and "after_token (x @ c # b) = after_token x @ c # b"
  using assms by (induction x) (simp_all add: url_token_def after_token_def)

lemma past_prefix: "drop (length xs + k) (xs @ b) = drop k b" "take (length xs + k) (xs @ b) = xs @ take k b"
  by simp_all


lemma index_of_bound: "index_of p s = Some i \<Longrightarrow> i + length p \<le> length s"
proof (induction s arbitrary: i)
  case (Cons c s)
  show ?case
  proof (cases "has_prefix p (c # s)")
    case True
    with Cons.prems show ?thesis by (auto simp: has_prefix_def dest: arg_cong [of _ _ length])
  next
    case False
    with Cons show ?thesis by auto
  qed
qed (auto split: if_splits)

definition after_scheme :: "string \<Rightarrow> string" where
  "after_scheme y =
     (case last_index_byte (url_token y) (CHR ''@'') of
        None \<Rightarrow> url_token y @ redactUserinfo (after_token y)
      | Some at \<Rightarrow> redacted @ redactUserinfo (drop (Suc at) (url_token y) @ after_token y))"

lemma redact_none: "index_of ''://'' v = None \<Longrightarrow> redactUserinfo v = v"
  by (simp add: redactUserinfo.simps [of v])

lemma redact_scheme:
  "index_of ''://'' v = Some i \<Longrightarrow> redactUserinfo v = take (i + 3) v @ after_scheme (drop (i + 3) v)"
  by (simp add: redactUserinfo.simps [of v] after_scheme_def Let_def split: option.split)

lemma redactUserinfo_split:
  assumes c: "ends_token c"
  shows "redactUserinfo (a @ c # b) = redactUserinfo a @ c # redactUserinfo b"
proof (induction a rule: redactUserinfo.induct)
  case (1 a)
  note idx = index_of_separated [OF ends_token_scheme [OF c], of a b]
  show ?case
  proof (cases "index_of ''://'' a")
    case none: None
    show ?thesis
    proof (cases "index_of ''://'' b")
      case None
      with none idx show ?thesis by (simp add: redact_none)
    next
      case (Some i)
      have n: "i + Suc (length a) + 3 = length (a @ [c]) + (i + 3)" by simp
      have "index_of ''://'' ((a @ [c]) @ b) = Some (i + Suc (length a))" using idx none Some by simp
      from redact_scheme [OF this]
      have "redactUserinfo ((a @ [c]) @ b) = (a @ [c]) @ take (i + 3) b @ after_scheme (drop (i + 3) b)"
        unfolding n past_prefix by (simp only: append_assoc)
      with redact_scheme [OF Some] none show ?thesis by (simp add: redact_none)
    qed
  next
    case (Some i)
    have len: "i + 3 \<le> length a" using index_of_bound [OF Some] by simp
    let ?y = "drop (i + 3) a"
    have "index_of ''://'' (a @ c # b) = Some i" using idx Some by simp
    from redact_scheme [OF this] len
    have 2: "redactUserinfo (a @ c # b) = take (i + 3) a @ after_scheme (?y @ c # b)" by simp
    have "after_scheme (?y @ c # b) = after_scheme ?y @ c # redactUserinfo b"
    proof (cases "last_index_byte (url_token ?y) (CHR ''@'')")
      case None
      with 1(1) [OF Some refl refl refl None] show ?thesis by (simp add: after_scheme_def token_split [OF c])
    next
      case at: (Some at)
      with 1(2) [OF Some refl refl refl at] show ?thesis by (simp add: after_scheme_def token_split [OF c])
    qed
    with 2 redact_scheme [OF Some] show ?thesis by simp
  qed
qed

text \<open>The first URL of a text whose userinfo is spelt out.\<close>

lemma last_index_past:
  "drop (Suc (the (last_index_byte (u @ d # t) d))) (u @ d # t) =
     (case last_index_byte t d of None \<Rightarrow> t | Some i \<Rightarrow> drop (Suc i) t)
   \<and> last_index_byte (u @ d # t) d \<noteq> None"
  by (induction u) (auto split: option.splits)

lemma after_scheme_userinfo:
  assumes "list_all (\<lambda>c. \<not> ends_token c) u"
  shows "after_scheme (u @ CHR ''@'' # t) =
     redacted @ redactUserinfo ((case last_index_byte (url_token t) (CHR ''@'') of
        None \<Rightarrow> url_token t | Some i \<Rightarrow> drop (Suc i) (url_token t)) @ after_token t)"
proof -
  have tok: "url_token (u @ CHR ''@'' # t) = u @ CHR ''@'' # url_token t" "after_token (u @ CHR ''@'' # t) = after_token t"
    using assms by (auto simp: url_token_def after_token_def takeWhile_append2 dropWhile_append2 ends_token_def list_all_iff)
  from last_index_past [of u "CHR ''@''" "url_token t"] show ?thesis
    by (auto simp: after_scheme_def tok)
qed

lemma scheme_first: "index_of ''://'' x = None \<Longrightarrow> index_of ''://'' (x @ ''://'' @ y) = Some (length x)"
proof (induction x)
  case (Cons c x)
  then have no: "\<not> has_prefix ''://'' (c # x)" and "index_of ''://'' x = None" by (auto split: if_splits)
  moreover have "\<not> has_prefix ''://'' (c # x @ ''://'' @ y)"
  proof (cases x)
    case (Cons d x')
    with no show ?thesis by (cases x') (auto simp: has_prefix_def)
  qed (simp add: has_prefix_def)
  ultimately show ?case using Cons.IH by simp
qed (simp add: has_prefix_def)

lemma redact_first:
  assumes "index_of ''://'' x = None"
  shows "redactUserinfo (x @ ''://'' @ y) = x @ ''://'' @ after_scheme y"
proof -
  have n: "length x + 3 = length (x @ ''://'') + 0" by simp
  from redact_scheme [OF scheme_first [OF assms], of y] show ?thesis
    unfolding n append_assoc [symmetric] past_prefix by simp
qed

lemma url_is_sanitized: "contains s ''://'' \<Longrightarrow> sanitize s = full_pass s"
  by (simp add: sanitize_def needsSanitizing_def)

lemma scheme_around: "contains (x @ ''://'' @ y) ''://''"
  by (rule contains_around) (simp add: contains_def has_prefix_def)

text \<open>
  C9. The userinfo of a URL has no influence on what is left of the diagnostic: two texts that
  differ in it alone are sanitized to the same text, at every length, and whether or not the
  password contains \<open>@\<close>, \<open>/\<close>, \<open>?\<close>, another scheme or whatever else is no token end.
\<close>

theorem userinfo_never_survives:
  assumes "list_all (\<lambda>c. \<not> ends_token c) u" and "list_all (\<lambda>c. \<not> ends_token c) u'"
    and "\<not> contains scheme ''://''" and "pre = [] \<or> ends_token (last pre)"
  shows "sanitize (pre @ scheme @ ''://'' @ u @ ''@'' @ t) = sanitize (pre @ scheme @ ''://'' @ u' @ ''@'' @ t)"
proof -
  have none: "index_of ''://'' scheme = None" using assms(3) by (simp add: contains_def)
  have one: "redactUserinfo (scheme @ ''://'' @ w @ ''@'' @ t) = scheme @ ''://'' @ redacted @
      redactUserinfo ((case last_index_byte (url_token t) (CHR ''@'') of
        None \<Rightarrow> url_token t | Some i \<Rightarrow> drop (Suc i) (url_token t)) @ after_token t)"
    if "list_all (\<lambda>c. \<not> ends_token c) w" for w
    using redact_first [OF none, of "w @ ''@'' @ t"] after_scheme_userinfo [OF that, of t] by simp
  have "redactUserinfo (pre @ scheme @ ''://'' @ u @ ''@'' @ t) = redactUserinfo (pre @ scheme @ ''://'' @ u' @ ''@'' @ t)"
  proof (cases pre rule: rev_cases)
    case Nil
    with one [OF assms(1)] one [OF assms(2)] show ?thesis by simp
  next
    case (snoc a c)
    with assms(4) have "ends_token c" by simp
    from redactUserinfo_split [OF this, of a] one [OF assms(1)] one [OF assms(2)] snoc show ?thesis by simp
  qed
  moreover have "contains (pre @ scheme @ ''://'' @ w @ ''@'' @ t) ''://''" for w
    using scheme_around [of "pre @ scheme"] by simp
  ultimately show ?thesis by (simp add: url_is_sanitized full_pass_def)
qed

section \<open>Quoted URLs\<close>

lemma quotedTokenEnd_at:
  "list_all (\<lambda>c. c \<noteq> CHR ''\"'' \<and> byte c \<noteq> 92) q \<Longrightarrow> quotedTokenEnd (q @ CHR ''\"'' # r) = Some (length q)"
  by (induction q) simp_all

lemma strip_before: "CHR ''\"'' \<notin> set pre \<Longrightarrow> stripQuotedURLs (pre @ s) = pre @ stripQuotedURLs s"
  by (induction pre) auto

lemma strip_quoted:
  assumes "list_all (\<lambda>c. c \<noteq> CHR ''\"'' \<and> byte c \<noteq> 92) q" and "contains q ''://''"
  shows "stripQuotedURLs (CHR ''\"'' # q @ CHR ''\"'' # r) = quoted_mark @ stripQuotedURLs r"
proof -
  have "contains (CHR ''\"'' # q @ ''\"'') ''://''" using contains_around [OF assms(2), of "''\"''" "''\"''"] by simp
  then show ?thesis by (simp add: quotedTokenEnd_at [OF assms(1)])
qed

lemma redactUserinfo_set: "set (redactUserinfo v) \<subseteq> set v \<union> set redacted"
proof (induction v rule: redactUserinfo.induct)
  case (1 v)
  show ?case
  proof (cases "index_of ''://'' v")
    case None
    then show ?thesis by (simp add: redact_none)
  next
    case (Some i)
    let ?y = "drop (i + 3) v"
    have y: "set (url_token ?y) \<subseteq> set v" "set (after_token ?y) \<subseteq> set v" "set (take (i + 3) v) \<subseteq> set v"
      by (auto simp: url_token_def after_token_def dest: set_takeWhileD set_dropWhileD in_set_dropD in_set_takeD)
    have "set (after_scheme ?y) \<subseteq> set v \<union> set redacted"
    proof (cases "last_index_byte (url_token ?y) (CHR ''@'')")
      case None
      with 1(1) [OF Some refl refl refl None] y show ?thesis by (auto simp: after_scheme_def)
    next
      case at: (Some at)
      with 1(2) [OF Some refl refl refl at] y show ?thesis
        by (auto simp: after_scheme_def dest!: subsetD in_set_dropD)
    qed
    with redact_scheme [OF Some] y(3) show ?thesis by auto
  qed
qed

lemma redactUserinfo_all: "list_all P w \<Longrightarrow> list_all P redacted \<Longrightarrow> list_all P (redactUserinfo w)"
  using redactUserinfo_set [of w] unfolding list_all_iff by blast

lemma redactUserinfo_contains: "contains v ''://'' \<Longrightarrow> contains (redactUserinfo v) ''://''"
proof -
  assume "contains v ''://''"
  then obtain i where i: "index_of ''://'' v = Some i" by (auto simp: contains_def)
  have "\<exists>x. take (i + 3) v = x @ ''://''"
    using i
  proof (induction v arbitrary: i)
    case (Cons c v)
    show ?case
    proof (cases "has_prefix ''://'' (c # v)")
      case True
      with Cons.prems show ?thesis by (intro exI [of _ "[]"]) (simp add: has_prefix_def numeral_2_eq_2)
    next
      case False
      with Cons.prems obtain j where j: "index_of ''://'' v = Some j" "i = Suc j" by auto
      from Cons.IH [OF j(1)] obtain x where "take (j + 3) v = x @ ''://''" by blast
      moreover have "i + 3 = Suc (j + 3)" using j(2) by simp
      ultimately have "take (i + 3) (c # v) = (c # x) @ ''://''" by (simp only: take_Suc_Cons append_Cons)
      then show ?thesis by blast
    qed
  qed simp
  then obtain x where "take (i + 3) v = x @ ''://''" by blast
  with redact_scheme [OF i] scheme_around [of x "after_scheme (drop (i + 3) v)"] show ?thesis by simp
qed

text \<open>
  Nor has a quoted URL, the form in which \<open>net/http\<close> folds the request's URL into its errors: only
  the text before and after the quotes counts.
\<close>

theorem quoted_url_never_survives:
  assumes "CHR ''\"'' \<notin> set pre"
    and "list_all (\<lambda>c. c \<noteq> CHR ''\"'' \<and> byte c \<noteq> 92) q" and "contains q ''://''"
    and "list_all (\<lambda>c. c \<noteq> CHR ''\"'' \<and> byte c \<noteq> 92) q'" and "contains q' ''://''"
  shows "sanitize (pre @ ''\"'' @ q @ ''\"'' @ r) = sanitize (pre @ ''\"'' @ q' @ ''\"'' @ r)"
proof -
  have quote: "ends_token (CHR ''\"'')" by (simp add: ends_token_def)
  have pre: "CHR ''\"'' \<notin> set (redactUserinfo pre)"
    using redactUserinfo_all [of "\<lambda>c. c \<noteq> CHR ''\"''" pre] assms(1) by (auto simp: redacted_def list_all_iff)
  have one: "stripQuotedURLs (redactUserinfo (pre @ ''\"'' @ w @ ''\"'' @ r)) =
      redactUserinfo pre @ quoted_mark @ stripQuotedURLs (redactUserinfo r)"
    if w: "list_all (\<lambda>c. c \<noteq> CHR ''\"'' \<and> byte c \<noteq> 92) w" "contains w ''://''" for w
  proof -
    have "list_all (\<lambda>c. c \<noteq> CHR ''\"'' \<and> byte c \<noteq> 92) (redactUserinfo w)"
      by (rule redactUserinfo_all [OF w(1)]) (simp add: redacted_def)
    note strip = strip_quoted [OF this redactUserinfo_contains [OF w(2)]]
    have "redactUserinfo (pre @ CHR ''\"'' # w @ CHR ''\"'' # r) =
        redactUserinfo pre @ CHR ''\"'' # redactUserinfo w @ CHR ''\"'' # redactUserinfo r"
      by (simp only: redactUserinfo_split [OF quote])
    then show ?thesis by (simp only: append_Cons append_Nil strip_before [OF pre] strip)
  qed
  have "contains (pre @ ''\"'' @ w @ ''\"'' @ r) ''://''" if "contains w ''://''" for w
    using contains_around [OF that, of "pre @ ''\"''" "''\"'' @ r"] by simp
  with one [OF assms(2,3)] one [OF assms(4,5)] assms(3,5) show ?thesis
    by (simp add: url_is_sanitized full_pass_def)
qed

section \<open>Runs that exist\<close>

lemma userinfo_never_survives_witness:
  "sanitize ''Get https://user:pw@relay.dev: EOF'' = sanitize ''Get https://x@relay.dev: EOF''"
  using userinfo_never_survives [of "''user:pw''" "''x''" "''https''" "''Get ''" "''relay.dev: EOF''"]
  by (simp add: ends_token_def contains_def has_prefix_def)

lemma quoted_url_never_survives_witness:
  "sanitize ''Get \"https://one.dev\": EOF'' = sanitize ''Get \"https://another.dev/path\": EOF''"
  using quoted_url_never_survives [of "''Get ''" "''https://one.dev''" "''https://another.dev/path''" "'': EOF''"]
  by (simp add: contains_def has_prefix_def)

text \<open>
  The fast path is not an equivalent of the full pass: a resolver address in a text with none of the
  marks it looks for is left, although the full pass redacts it.
\<close>

theorem fast_path_leaves_server:
  "sanitize ''on 10.0.0.1:53: refused'' = ''on 10.0.0.1:53: refused''
   \<and> full_pass ''on 10.0.0.1:53: refused'' = ''on [redacted]:53: refused''"
  by code_simp

section \<open>Controls inside userinfo\<close>




















end
