(* ===== verification/Spec2Isabelle.thy ===== *)
theory Spec2Isabelle
  imports Pool_Rebuild Config_Properties Registry_Properties System_Properties Gateway_Evidence Main_Properties
    Platform_Ownership Probe_Exchange Worker_Loop Fan_Out Response_Copy Main_Routing Sanitize_Properties
begin

text \<open>
  A verification library for the HTTP relay gateway.

  \<^bold>\<open>The program.\<close> One process keeps a fleet of small relay workers deployed on Vercel, Cloudflare and
  Deno, and forwards HTTP requests through those that are verified. A watcher loads the desired
  state (\<open>internal/config\<close>); the reconciler (\<open>internal/reconcile\<close>) discovers, probes, deploys and
  deletes the remotes through the platform clients (\<open>internal/deploy\<close>) and reports to the readiness
  registry (\<open>internal/readiness\<close>), the admission gate; on every change of admission the applier in
  \<open>cmd/http-relay-gateway/main.go\<close> builds a serving pool (\<open>internal/pool\<close>) from the registry and swaps
  it into the data plane (\<open>internal/gateway\<close>). Before the reconciler touches a remote that had
  traffic it waits until the swap has happened (the settle barrier) and until the requests in
  flight have ended (the drain wait). Text that leaves the process in logs and error bodies is
  redacted by \<open>internal/sanitize\<close>.

  \<^bold>\<open>Theories and code.\<close>

  \<^item> \<open>Prelude\<close>: instants and durations in nanoseconds, 64-bit wrap-around, association lists for the Go
    maps the code ranges over. \<open>Runs\<close>: schedules of a concurrent component and the rules for invariants and
    progress that \<open>System\<close>, \<open>Main_Loop\<close>, \<open>Worker_Loop\<close> and \<open>Fan_Out\<close> share. \<open>Go_Strings\<close>, \<open>Go_Encoding\<close>, \<open>Netaddr\<close>, \<open>Sha256\<close>: what the code uses of
    Go's standard library, on bytes.
  \<^item> \<open>Sanitize\<close>: \<open>sanitize.go\<close>, with its six regular expressions as terms of an expression type;
    \<open>Sanitize_Properties\<close>: what the result is free of and what has no influence on it.
  \<^item> \<open>Deploy_Identity\<close>, \<open>Probe\<close>, \<open>Probe_Exchange\<close>: \<open>deploy.go\<close> (keys, scopes, project slugs, both probes and
    the classification of their answers), \<open>verify\<close> and \<open>reasonFor\<close> of \<open>reconcile.go\<close>, \<open>workers/embed.go\<close>,
    \<open>relayversion.go\<close>.
  \<^item> \<open>Platform_Api\<close>, \<open>Vercel\<close>, \<open>Cloudflare\<close>, \<open>Deno\<close>, \<open>Platform_Clients\<close>: \<open>platform.go\<close> and the three clients.
    An operation is a finite tree of what it asks the outside. \<open>Platform_Laws\<close> is the calculus of its
    runs; \<open>Platform_Properties\<close>, \<open>Platform_Scopes\<close> and \<open>Platform_Ownership\<close> hold the properties.
  \<^item> \<open>Config\<close>, \<open>Config_Properties\<close>: \<open>config.go\<close>, from the decoded file and the environment to a checked
    configuration and bootstrap.
  \<^item> \<open>Pool_Runtime\<close>, \<open>Pool\<close>, \<open>Pool_Rebuild\<close>: \<open>runtime.go\<close> and \<open>pool.go\<close>. Health states are shared by pointer, so
    they live in an explicit store.
  \<^item> \<open>Registry\<close>: \<open>registry.go\<close>, one function per exported method. \<open>Registry_Invariants\<close>, \<open>Registry_Laws\<close>,
    \<open>Registry_Histories\<close>, \<open>Registry_Protocol\<close>, \<open>Registry_Properties\<close>: its invariant, the laws over single
    calls and over histories, and the protocols the reconciler relies on.
  \<^item> \<open>Reconcile\<close>: \<open>ensureRelay\<close>, \<open>rollout\<close> and the body of \<open>runDeletes\<close> of \<open>reconcile.go\<close> as programs whose step
    is one registry call or one external call; \<open>memoCredentials\<close> and \<open>pass\<close>. \<open>Worker_Loop\<close>: \<open>Start\<close>,
    \<open>loop\<close>, \<open>Wake\<close>, \<open>Stop\<close> and \<open>awaitIdle\<close> against a clock, with the watcher's loop. \<open>Fan_Out\<close>: \<open>run\<close>.
  \<^item> \<open>Inflight\<close>: the in-flight counter and \<open>AwaitIdle\<close> of \<open>gateway.go\<close>. \<open>Gateway_Request\<close>, \<open>Gateway\<close>: the rest of
    \<open>gateway.go\<close> and \<open>clientcache.go\<close>. \<open>Response_Copy\<close>: \<open>copyResponse\<close> and \<open>flushWriter\<close> over the loop of
    \<open>io.Copy\<close>. \<open>Gateway_Laws\<close>, \<open>Gateway_Passes\<close> (a request as a trace of passes), \<open>Gateway_Properties\<close>,
    \<open>Gateway_Evidence\<close>: what it promises.
  \<^item> \<open>Main_Process\<close>, \<open>Main_Properties\<close>: \<open>buildState\<close>, the rebuild, the desired-state store, the command line and
    the probe subcommands of \<open>main.go\<close>. \<open>Main_Loop\<close>: \<open>run\<close>, the main goroutine from the boot to its return
    with \<open>apply\<close> and \<open>shutdown\<close>, beside the watcher, on the components' own operations. \<open>Main_Routing\<close>: what
    its pools owe to the registry, from a \<open>Ready\<close> call to the request that reaches the relay.
  \<^item> \<open>System\<close>: registry, applier, settle barrier, reconciler goroutines and requests composed as \<open>main.go\<close>
    wires them; a run is a list of atomic events of single threads. \<open>System_Invariants\<close>,
    \<open>System_Steps\<close>, \<open>System_Safety\<close>, \<open>System_Passes\<close>, \<open>System_Properties\<close>: the invariant of every reachable
    state, that every event keeps it, whole passes of a goroutine, and the properties.

  \<^bold>\<open>Interfaces.\<close> What one component relies on in another is a locale, interpreted on the code's
  definitions: \<open>passive_health\<close> and \<open>rotation\<close> (\<open>Pool_Runtime\<close>, interpreted there and in \<open>Pool\<close>),
  \<open>request_counter\<close> (\<open>Inflight\<close>), \<open>notifier\<close> (\<open>Registry_Histories\<close>) and \<open>client_contract\<close>
  (\<open>Platform_Clients\<close>, once per platform).

  \<^bold>\<open>What is shown.\<close>

  \<^item> The control plane: a remote is deleted, or redeployed behind the barrier, only while its relay
    carries no request; every served row was verified with exactly its URL and key; the pool
    is exactly the admitted set once the count is published; after the published count has reached
    a withdrawal no request picks the relay; a goroutine at the settle barrier is released.
  \<^item> The registry: its invariant over all histories, single flight, admission only through a completed
    verification of the current generation.
  \<^item> The worker: no configuration change is lost between the watcher and the passes; from the deadline
    of \<open>Stop\<close> on, the loop unwinds by its own steps; the fan-out is bounded, exact and free of
    deadlock.
  \<^item> The platform clients, against arbitrary answers: the credential goes to its own platform only, a
    deployment counts as done only after it answered with its version, a delete verdict rests on
    the platform's word, a removed relay is forgotten on such a verdict or where no credential or no
    single scope is left to reach its remote, changes stay in the pinned scope and nothing is sent
    without a Deno organization, the variables precede the deployment.
  \<^item> Verification: exactly which exchanges with a network make a relay verified.
  \<^item> The data plane, under interference at every unlock: bounded failover, a log, counters and
    reply that are functions of the passes of the retry loop, balanced in-flight counts, the headers of the
    relay leg, bodies forwarded and copied back unchanged, failed bodies as health evidence (a relay
    in cooldown is passed over where a healthy one matches and is still picked where it is the only
    one), picks that match and rotate.
  \<^item> Diagnostics: one bounded line without controls, on which neither the userinfo of a URL nor a
    quoted URL has any influence.
  \<^item> Configuration, rebuild and store: what an accepted file guarantees, what a rebuild carries over, that
    the settings of the file in force reach the registry, the serving state and the log level, and that
    a signal leads to the return.
  \<^item> Boundaries where the code does something other than it says: a stream threshold that empties every
    body, the bases whose retry wait wraps below its cap, a file replaced during any poll, a deploy
    beside requests after a demotion, control bytes that hide the userinfo of a URL, a size refusal
    despite room, a drain wait that takes the whole shutdown budget.

  \<^bold>\<open>Bounds and fuel.\<close> A request runs on a list of turns, one per pass of the retry loop; the loop takes at
  most the retry budget and one more pass, at most 18 turns for the largest budget a configuration
  may set (16 retries), and a list that is too short gives None, which is no outcome. A polling
  loop of a client gets one tick per second of its deadline and one more. The Deno project
  walk reads at most \<open>denoListPageMax\<close> = 100 pages, as the code does. All other recursions are
  structural or have a termination proof.

  \<^bold>\<open>Parameters.\<close> The YAML decoder, \<open>url.Parse\<close> and \<open>url.JoinPath\<close>, the network, the clock, the environment,
  the secret files and the embedded files are arguments; a statement holds for all of them.

  \<^bold>\<open>Abstractions.\<close> In \<open>System\<close> the applier may go on after the shutdown signal, which covers more runs
  than there are; \<open>Main_Loop\<close> has the exact order. A platform call is one exchange: redirects and the
  egress proxy of the \<open>http.Client\<close> behind it are the outside's.

  \<^bold>\<open>Not modelled.\<close> The transport of \<open>net/http\<close> (its answers are inputs), logging and with it the draining
  label of log lines, the connections of the listener, a signal before \<open>signal.Notify\<close>, the text of
  JSON documents (their values are modelled), the embedding of files at build time, the worker
  sources in JavaScript, tests and benchmarks. \<open>io.Copy\<close> may take a shortcut when a body implements
  \<open>WriterTo\<close>; the bodies of \<open>net/http\<close> do not.
\<close>

end
